(* ===== verification/Prelude.thy ===== *)
theory Prelude
  imports Main "HOL-Library.Word" "HOL-Library.Monad_Syntax"
begin

text \<open>
  Shared vocabulary of the development: the widths of the Rust integers, integer
  arithmetic under the two build profiles of Cargo.toml, and the state-and-outcome type in
  which every \<open>async fn\<close> of the firmware is written.
\<close>

unbundle bit_operations_syntax

section \<open>Integer types\<close>

type_synonym u8 = "8 word"
type_synonym u16 = "16 word"
type_synonym u32 = "32 word"
type_synonym u64 = "64 word"

named_theorems rust_arith "arithmetic of the two build profiles"
named_theorems act_simps "unfolding of the outcome monad"

text \<open>
  Cargo.toml builds the release profile with \<open>overflow-checks = false\<close> (line 78): \<open>+\<close>,
  \<open>-\<close> and \<open>*\<close> wrap.  The dev profile keeps the default, where an overflow panics.  An
  operation returns \<open>None\<close> for a panic.
\<close>

datatype profile = Dev | Release

definition rust_add :: "profile \<Rightarrow> 'a::len word \<Rightarrow> 'a word \<Rightarrow> 'a word option" where
  "rust_add p a b =
     (if p = Dev \<and> 2 ^ LENGTH('a) \<le> unat a + unat b then None else Some (a + b))"

definition rust_sub :: "profile \<Rightarrow> 'a::len word \<Rightarrow> 'a word \<Rightarrow> 'a word option" where
  "rust_sub p a b = (if p = Dev \<and> a < b then None else Some (a - b))"

definition rust_mul :: "profile \<Rightarrow> 'a::len word \<Rightarrow> 'a word \<Rightarrow> 'a word option" where
  "rust_mul p a b =
     (if p = Dev \<and> 2 ^ LENGTH('a) \<le> unat a * unat b then None else Some (a * b))"

text \<open>Division by zero panics in both profiles.\<close>

definition rust_div :: "'a::len word \<Rightarrow> 'a word \<Rightarrow> 'a word option" where
  "rust_div a b = (if b = 0 then None else Some (a div b))"

text \<open>\<open>checked_mul\<close> of the standard library: the same answer in both profiles.\<close>

definition checked_mul :: "'a::len word \<Rightarrow> 'a word \<Rightarrow> 'a word option" where
  "checked_mul a b = (if 2 ^ LENGTH('a) \<le> unat a * unat b then None else Some (a * b))"

lemma rust_add_exact [rust_arith]:
  fixes a b :: "'a::len word"
  assumes "unat a + unat b < 2 ^ LENGTH('a)"
  shows "rust_add p a b = Some (a + b)" and "unat (a + b) = unat a + unat b"
  using assms by (auto simp: rust_add_def unat_word_ariths)

lemma rust_mul_exact [rust_arith]:
  fixes a b :: "'a::len word"
  assumes "unat a * unat b < 2 ^ LENGTH('a)"
  shows "rust_mul p a b = Some (a * b)" and "unat (a * b) = unat a * unat b"
  using assms by (auto simp: rust_mul_def unat_word_ariths)

lemma rust_sub_exact [rust_arith]:
  fixes a b :: "'a::len word"
  assumes "b \<le> a"
  shows "rust_sub p a b = Some (a - b)" and "unat (a - b) = unat a - unat b"
  using assms by (auto simp: rust_sub_def unat_sub)

lemma rust_div_exact [rust_arith]:
  "b \<noteq> 0 \<Longrightarrow> rust_div a b = Some (a div b)"
  by (simp add: rust_div_def)

lemma checked_mul_exact [rust_arith]:
  fixes a b :: "'a::len word"
  assumes "unat a * unat b < 2 ^ LENGTH('a)"
  shows "checked_mul a b = Some (a * b)"
  using assms by (auto simp: checked_mul_def)

lemma rust_release [simp]:
  "rust_add Release a b = Some (a + b)"
  "rust_sub Release a b = Some (a - b)"
  "rust_mul Release a b = Some (a * b)"
  by (simp_all add: rust_add_def rust_sub_def rust_mul_def)

text \<open>Bounds of the widths, and the passage between words and numbers.\<close>

lemma unat_u8_bound: "unat (x :: u8) < 256"
  using unsigned_less [of x, where ?'a = nat] by simp

lemma unat_u16_bound: "unat (x :: u16) < 65536"
  using unsigned_less [of x, where ?'a = nat] by simp

lemma unat_u32_bound: "unat (x :: u32) < 4294967296"
  using unsigned_less [of x, where ?'a = nat] by simp

lemma unat_of_nat_small:
  "n < 2 ^ LENGTH('a) \<Longrightarrow> unat (of_nat n :: 'a::len word) = n"
  by (simp add: unsigned_of_nat take_bit_nat_eq_self)

lemma word_eq_of_nat: "unat (x :: 'a::len word) = n \<Longrightarrow> x = of_nat n"
  by (metis of_nat_unat ucast_id)

lemma ucast_eq_of_nat: "unat (x :: 'a::len word) = n \<Longrightarrow> ucast x = (of_nat n :: 'b::len word)"
  by (metis of_nat_unat)

text \<open>A widening \<open>as\<close> keeps the value.\<close>

lemma unat_ucast_widen:
  fixes x :: "'a::len word"
  assumes "LENGTH('a) \<le> LENGTH('b)"
  shows "unat (ucast x :: 'b::len word) = unat x"
proof -
  have "unat x < 2 ^ LENGTH('a)" by (rule unsigned_less)
  also have "(2::nat) ^ LENGTH('a) \<le> 2 ^ LENGTH('b)"
    using assms by (intro power_increasing) simp_all
  finally have "unat x < 2 ^ LENGTH('b)" .
  then show ?thesis by (simp add: unsigned_ucast_eq take_bit_nat_eq_self)
qed

lemma unat_ucast_16_32 [simp]: "unat (ucast (x :: u16) :: u32) = unat x"
  by (simp add: unat_ucast_widen)

section \<open>Outcomes of an asynchronous function\<close>

text \<open>
  A call ends with a value (\<open>Ok\<close>), returns the error of its \<open>Result\<close> (\<open>Err\<close>), reaches a
  panic (\<open>Panic\<close>: an \<open>unwrap\<close>, an \<open>expect\<close>, an index out of range, a checked
  overflow), or has not completed (\<open>Pending\<close>: an \<open>await\<close> that is not ready, or a polling
  loop that is still running after the polls it was given).  The state is what the code has
  changed up to that point, in every case.
\<close>

datatype ('e, 'a) outcome = Ok 'a | Err 'e | Panic | Pending

type_synonym ('s, 'e, 'a) act = "'s \<Rightarrow> ('e, 'a) outcome \<times> 's"

definition ret :: "'a \<Rightarrow> ('s, 'e, 'a) act" where
  "ret x = (\<lambda>s. (Ok x, s))"

definition fail :: "'e \<Rightarrow> ('s, 'e, 'a) act" where
  "fail e = (\<lambda>s. (Err e, s))"

definition panic :: "('s, 'e, 'a) act" where
  "panic = (\<lambda>s. (Panic, s))"

definition pending :: "('s, 'e, 'a) act" where
  "pending = (\<lambda>s. (Pending, s))"

text \<open>The \<open>?\<close> operator and sequencing: the first call that does not return \<open>Ok\<close> ends it.\<close>

definition bindA :: "('s, 'e, 'a) act \<Rightarrow> ('a \<Rightarrow> ('s, 'e, 'b) act) \<Rightarrow> ('s, 'e, 'b) act" where
  "bindA m f = (\<lambda>s. case m s of
       (Ok x, s') \<Rightarrow> f x s'
     | (Err e, s') \<Rightarrow> (Err e, s')
     | (Panic, s') \<Rightarrow> (Panic, s')
     | (Pending, s') \<Rightarrow> (Pending, s'))"

abbreviation seqA :: "('s, 'e, unit) act \<Rightarrow> ('s, 'e, 'b) act \<Rightarrow> ('s, 'e, 'b) act" where
  "seqA m n \<equiv> bindA m (\<lambda>_. n)"

text \<open>\<open>map_err\<close>, \<open>unwrap\<close> on a \<open>Result\<close>, \<open>unwrap\<close> on an \<open>Option\<close>.\<close>

definition map_errA :: "('e \<Rightarrow> 'f) \<Rightarrow> ('s, 'e, 'a) act \<Rightarrow> ('s, 'f, 'a) act" where
  "map_errA g m = (\<lambda>s. case m s of
       (Ok x, s') \<Rightarrow> (Ok x, s')
     | (Err e, s') \<Rightarrow> (Err (g e), s')
     | (Panic, s') \<Rightarrow> (Panic, s')
     | (Pending, s') \<Rightarrow> (Pending, s'))"

definition unwrapA :: "('s, 'e, 'a) act \<Rightarrow> ('s, 'f, 'a) act" where
  "unwrapA m = (\<lambda>s. case m s of
       (Ok x, s') \<Rightarrow> (Ok x, s')
     | (Err e, s') \<Rightarrow> (Panic, s')
     | (Panic, s') \<Rightarrow> (Panic, s')
     | (Pending, s') \<Rightarrow> (Pending, s'))"

text \<open>A \<open>match\<close> or \<open>if let\<close> on the \<open>Result\<close> of a call.\<close>

definition tryA :: "('s, 'e, 'a) act \<Rightarrow> ('s, 'f, 'e + 'a) act" where
  "tryA m = (\<lambda>s. case m s of
       (Ok x, s') \<Rightarrow> (Ok (Inr x), s')
     | (Err e, s') \<Rightarrow> (Ok (Inl e), s')
     | (Panic, s') \<Rightarrow> (Panic, s')
     | (Pending, s') \<Rightarrow> (Pending, s'))"

definition unwrapO :: "'a option \<Rightarrow> ('s, 'e, 'a) act" where
  "unwrapO x = (case x of Some v \<Rightarrow> ret v | None \<Rightarrow> panic)"

text \<open>A call that answers with a plain \<open>Result\<close>.\<close>

definition liftR :: "('s \<Rightarrow> ('e + 'a) \<times> 's) \<Rightarrow> ('s, 'e, 'a) act" where
  "liftR f = (\<lambda>s. case f s of (Inl e, s') \<Rightarrow> (Err e, s') | (Inr x, s') \<Rightarrow> (Ok x, s'))"

text \<open>A call that works on a part of the state.\<close>

definition zoom ::
  "('w \<Rightarrow> 's) \<Rightarrow> ('s \<Rightarrow> 'w \<Rightarrow> 'w) \<Rightarrow> ('s, 'e, 'a) act \<Rightarrow> ('w, 'e, 'a) act" where
  "zoom get put m = (\<lambda>w. case m (get w) of (r, s') \<Rightarrow> (r, put s' w))"

text \<open>Reading and changing the state.\<close>

definition readA :: "('s \<Rightarrow> 'a) \<Rightarrow> ('s, 'e, 'a) act" where
  "readA f = (\<lambda>s. (Ok (f s), s))"

definition modifyA :: "('s \<Rightarrow> 's) \<Rightarrow> ('s, 'e, unit) act" where
  "modifyA f = (\<lambda>s. (Ok (), f s))"

text \<open>A \<open>for\<close> loop whose body may return early, without and with results.\<close>

fun forA :: "('x \<Rightarrow> ('s, 'e, unit) act) \<Rightarrow> 'x list \<Rightarrow> ('s, 'e, unit) act" where
  "forA f [] = ret ()"
| "forA f (x # xs) = seqA (f x) (forA f xs)"

fun mapA :: "('x \<Rightarrow> ('s, 'e, 'a) act) \<Rightarrow> 'x list \<Rightarrow> ('s, 'e, 'a list) act" where
  "mapA f [] = ret []"
| "mapA f (x # xs) = bindA (f x) (\<lambda>y. bindA (mapA f xs) (\<lambda>ys. ret (y # ys)))"

subsection \<open>Laws of the outcome monad\<close>

lemma bindA_ret [simp]: "bindA (ret x) f = f x"
  by (simp add: bindA_def ret_def)

lemma bindA_fail [simp]: "bindA (fail e) f = fail e"
  by (simp add: bindA_def fail_def)

lemma bindA_panic [simp]: "bindA panic f = panic"
  by (simp add: bindA_def panic_def)

lemma bindA_ret_right [simp]: "bindA m ret = m"
  by (rule ext) (simp add: bindA_def ret_def split: prod.split outcome.split)

lemma bindA_unit_right [simp]: "bindA m (\<lambda>_. ret ()) = m"
  by (rule ext) (simp add: bindA_def ret_def split: prod.split outcome.split)

lemma bindA_assoc: "bindA (bindA m f) g = bindA m (\<lambda>x. bindA (f x) g)"
  by (rule ext) (simp add: bindA_def split: prod.split outcome.split)

lemma bindA_Ok: "m s = (Ok x, s') \<Longrightarrow> bindA m f s = f x s'"
  by (simp add: bindA_def)

lemma bindA_not_Ok:
  "m s = (Err e, s') \<Longrightarrow> bindA m f s = (Err e, s')"
  "m s = (Panic, s') \<Longrightarrow> bindA m f s = (Panic, s')"
  "m s = (Pending, s') \<Longrightarrow> bindA m f s = (Pending, s')"
  by (simp_all add: bindA_def)

lemma bindA_Ok_iff:
  "bindA m f s = (Ok y, t) \<longleftrightarrow> (\<exists>x s'. m s = (Ok x, s') \<and> f x s' = (Ok y, t))"
  by (auto simp: bindA_def split: prod.splits outcome.splits)

lemma ret_apply [act_simps]: "ret x s = (Ok x, s)"
  by (simp add: ret_def)

lemma fail_apply [act_simps]: "fail e s = (Err e, s)"
  by (simp add: fail_def)

lemma panic_apply [act_simps]: "panic s = (Panic, s)"
  by (simp add: panic_def)

lemma pending_apply [act_simps]: "pending s = (Pending, s)"
  by (simp add: pending_def)

lemma ret_Ok_iff [simp]: "ret x s = (Ok y, t) \<longleftrightarrow> y = x \<and> t = s"
  by (auto simp: ret_def)

lemma fail_not_Ok [simp]: "fail e s \<noteq> (Ok y, t)"
  by (simp add: fail_def)

lemma pending_not_Ok [simp]: "pending s \<noteq> (Ok y, t)"
  by (simp add: pending_def)

lemma panic_not_Ok [simp]: "panic s \<noteq> (Ok y, t)"
  by (simp add: panic_def)

lemma unwrapO_simps [simp]: "unwrapO (Some v) = ret v" "unwrapO None = panic"
  by (simp_all add: unwrapO_def)

lemma readA_Ok_iff [simp]: "readA f s = (Ok y, t) \<longleftrightarrow> y = f s \<and> t = s"
  by (auto simp: readA_def)

lemma modifyA_Ok_iff [simp]: "modifyA f s = (Ok y, t) \<longleftrightarrow> t = f s"
  by (auto simp: modifyA_def)

lemma unwrapO_Ok_iff: "unwrapO x s = (Ok y, t) \<longleftrightarrow> x = Some y \<and> t = s"
  by (cases x) auto

lemma unwrapA_Ok_iff: "unwrapA m s = (Ok y, t) \<longleftrightarrow> m s = (Ok y, t)"
  by (auto simp: unwrapA_def split: prod.splits outcome.splits)

lemma map_errA_Ok_iff: "map_errA g m s = (Ok y, t) \<longleftrightarrow> m s = (Ok y, t)"
  by (auto simp: map_errA_def split: prod.splits outcome.splits)

lemma liftR_Ok_iff: "liftR f s = (Ok y, t) \<longleftrightarrow> f s = (Inr y, t)"
  by (auto simp: liftR_def split: prod.splits sum.splits)

lemma zoom_Ok_iff:
  "zoom get put m w = (Ok y, t) \<longleftrightarrow> (\<exists>s'. m (get w) = (Ok y, s') \<and> t = put s' w)"
  by (auto simp: zoom_def split: prod.splits)

lemma tryA_Ok_iff:
  "tryA m s = (Ok r, t) \<longleftrightarrow> (case r of Inl e \<Rightarrow> m s = (Err e, t) | Inr x \<Rightarrow> m s = (Ok x, t))"
  by (auto simp: tryA_def split: prod.splits outcome.splits sum.splits)

lemmas act_Ok_iff =
  bindA_Ok_iff unwrapO_Ok_iff unwrapA_Ok_iff map_errA_Ok_iff liftR_Ok_iff zoom_Ok_iff

lemma unwrapA_bindA: "unwrapA (bindA m f) = bindA (unwrapA m) (\<lambda>x. unwrapA (f x))"
  by (rule ext) (simp add: unwrapA_def bindA_def split: prod.split outcome.split)

lemma map_errA_bindA: "map_errA g (bindA m f) = bindA (map_errA g m) (\<lambda>x. map_errA g (f x))"
  by (rule ext) (simp add: map_errA_def bindA_def split: prod.split outcome.split)

lemma forA_append: "forA f (xs @ ys) = seqA (forA f xs) (forA f ys)"
  by (induction xs) (simp_all add: bindA_assoc)

text \<open>A loop over a list keeps an invariant its body keeps.\<close>

lemma forA_invariant:
  assumes "forA f xs s = (Ok (), t)" and "I s"
    and "\<And>x s s'. x \<in> set xs \<Longrightarrow> I s \<Longrightarrow> f x s = (Ok (), s') \<Longrightarrow> I s'"
  shows "I t"
  using assms
proof (induction xs arbitrary: s)
  case Nil
  then show ?case by simp
next
  case (Cons x xs)
  from Cons.prems(1) obtain s' where x: "f x s = (Ok (), s')" and xs: "forA f xs s' = (Ok (), t)"
    by (auto simp: bindA_Ok_iff)
  have "I s'" by (rule Cons.prems(3) [OF _ Cons.prems(2) x]) simp
  from Cons.IH [OF xs this] Cons.prems(3) show ?case by (meson list.set_intros(2))
qed

section \<open>Slices and lists\<close>

text \<open>
  \<open>buf[k..k + data.len()].copy_from_slice(data)\<close>: the range panics when it does not lie in
  the buffer.
\<close>

definition copy_at :: "nat \<Rightarrow> 'a list \<Rightarrow> 'a list \<Rightarrow> 'a list option" where
  "copy_at k data buf =
     (if k + length data \<le> length buf
      then Some (take k buf @ data @ drop (k + length data) buf) else None)"

text \<open>
  Both drivers build a transaction in the same way: the address in the first byte of a zeroed
  buffer of fixed size, the data behind it.
\<close>

definition frame :: "nat \<Rightarrow> u8 \<Rightarrow> u8 list \<Rightarrow> u8 list option" where
  "frame cap addr data = copy_at 1 data ((replicate cap 0)[0 := addr])"

lemma frame_Some:
  assumes "length data < cap"
  shows "frame cap addr data = Some (addr # data @ replicate (cap - Suc (length data)) 0)"
proof -
  from assms obtain n where "cap = Suc n" and "length data \<le> n" by (cases cap) auto
  then show ?thesis by (simp add: frame_def copy_at_def)
qed

lemma frame_None: "0 < cap \<Longrightarrow> cap \<le> length data \<Longrightarrow> frame cap addr data = None"
  by (simp add: frame_def copy_at_def)

lemma length_8_cases:
  assumes "length xs = 8"
  obtains a b c d e f g h where "xs = [a, b, c, d, e, f, g, h]"
  using assms by (auto simp: length_Suc_conv numeral_eq_Suc)

section \<open>Bytes\<close>

text \<open>Bit \<open>i\<close> of a sequence of bytes, the first byte the lowest.\<close>

definition reg_bit :: "u8 list \<Rightarrow> nat \<Rightarrow> bool" where
  "reg_bit bs i = bit (bs ! (i div 8)) (i mod 8)"

lemma reg_eqI:
  assumes len: "length as = length bs"
    and bits: "\<And>i. i < 8 * length bs \<Longrightarrow> reg_bit as i = reg_bit bs i"
  shows "as = bs"
proof (rule nth_equalityI [OF len])
  fix k assume k: "k < length as"
  show "as ! k = bs ! k"
  proof (rule bit_word_eqI)
    fix j assume j: "j < LENGTH(8)"
    with k len have "8 * k + j < 8 * length bs" by simp
    from bits [OF this] j show "bit (as ! k) j = bit (bs ! k) j"
      by (simp add: reg_bit_def)
  qed
qed

definition byte_of :: "(nat \<Rightarrow> bool) \<Rightarrow> u8" where
  "byte_of f = horner_sum of_bool 2 (map f [0..<8])"

lemma bit_byte_of [simp]: "bit (byte_of f) j \<longleftrightarrow> j < 8 \<and> f j"
  by (auto simp: byte_of_def bit_horner_sum_bit_word_iff)

text \<open>A word as its little-endian bytes, and back.\<close>

definition le_bytes :: "'a::len word \<Rightarrow> u8 list" where
  "le_bytes x = map (\<lambda>k. byte_of (\<lambda>j. bit x (8 * k + j))) [0..<LENGTH('a) div 8]"

definition le_word :: "u8 list \<Rightarrow> 'a::len word" where
  "le_word bs = horner_sum of_bool 2 (map (reg_bit bs) [0..<LENGTH('a)])"

lemma length_le_bytes [simp]: "length (le_bytes (x :: 'a::len word)) = LENGTH('a) div 8"
  by (simp add: le_bytes_def)

lemma le_word_bytes:
  fixes x :: "'a::len word"
  assumes "8 dvd LENGTH('a)"
  shows "le_word (le_bytes x) = x"
proof (rule bit_word_eqI)
  fix i assume i: "i < LENGTH('a)"
  from assms have "LENGTH('a) = 8 * (LENGTH('a) div 8)" by simp
  with i have "i div 8 < LENGTH('a) div 8" by (metis less_mult_imp_div_less mult.commute)
  with i show "bit (le_word (le_bytes x) :: 'a word) i = bit x i"
    by (simp add: le_word_def le_bytes_def bit_horner_sum_bit_word_iff reg_bit_def)
qed

lemma le_bytes_word:
  assumes "length bs = LENGTH('a) div 8"
  shows "le_bytes (le_word bs :: 'a::len word) = bs"
proof (rule nth_equalityI)
  show "length (le_bytes (le_word bs :: 'a word)) = length bs" using assms by simp
  fix k assume k: "k < length (le_bytes (le_word bs :: 'a word))"
  show "le_bytes (le_word bs :: 'a word) ! k = bs ! k"
  proof (rule bit_word_eqI)
    fix j assume j: "j < LENGTH(8)"
    have "8 * Suc k \<le> LENGTH('a)" using k by (simp add: Suc_le_eq less_eq_div_iff_mult_less_eq)
    then have "8 * k + j < LENGTH('a)" using j by simp
    with j k show "bit (le_bytes (le_word bs :: 'a word) ! k) j = bit (bs ! k) j"
      by (simp add: le_bytes_def le_word_def bit_horner_sum_bit_word_iff reg_bit_def)
  qed
qed

end
