(* ===== verification/Units.thy ===== *)
theory Units
  imports Prelude
begin

text \<open>
  The unit newtypes of \<open>util.rs\<close>: their integers, the conversion between them and the
  \<open>Debug\<close> texts.  The channel aliases of the same file are modelled in the components that
  use them.
\<close>

datatype nanovolts = Nanovolts u32
datatype millivolts = Millivolts u16
datatype milliamps = Milliamps u16

fun mv_of :: "millivolts \<Rightarrow> u16" where "mv_of (Millivolts x) = x"
fun ma_of :: "milliamps \<Rightarrow> u16" where "ma_of (Milliamps x) = x"
fun nv_of :: "nanovolts \<Rightarrow> u32" where "nv_of (Nanovolts x) = x"

definition millivolts_from :: "nanovolts \<Rightarrow> millivolts" where
  "millivolts_from v = Millivolts (ucast (nv_of v div 1000000))"

text \<open>The result is never cut: a \<open>u32\<close> of nanovolts is at most 4294 mV.\<close>

lemma unat_millivolts_from: "unat (mv_of (millivolts_from v)) = unat (nv_of v) div 1000000"
proof -
  have q: "unat (nv_of v div 1000000) = unat (nv_of v) div 1000000"
    by (simp add: unat_div)
  have "unat (nv_of v) div 1000000 < 2 ^ LENGTH(16)"
    using unat_u32_bound [of "nv_of v"] by simp
  then show ?thesis
    by (simp only: millivolts_from_def mv_of.simps ucast_eq_of_nat [OF q] unat_of_nat_small)
qed

text \<open>\<open>Display\<close> of an unsigned integer: its decimal digits.\<close>

fun dec_digits :: "nat \<Rightarrow> string" where
  "dec_digits n = (if n < 10 then [char_of (48 + n)]
                   else dec_digits (n div 10) @ [char_of (48 + n mod 10)])"

declare dec_digits.simps [simp del]

fun nanovolts_fmt :: "nanovolts \<Rightarrow> string" where
  "nanovolts_fmt (Nanovolts x) = dec_digits (unat x) @ ''nV''"

fun millivolts_fmt :: "millivolts \<Rightarrow> string" where
  "millivolts_fmt (Millivolts x) = dec_digits (unat x) @ ''mV''"

fun milliamps_fmt :: "milliamps \<Rightarrow> string" where
  "milliamps_fmt (Milliamps x) = dec_digits (unat x) @ ''mA''"

text \<open>Voltages are ordered as their integers.\<close>

instantiation millivolts :: linorder
begin

definition less_eq_millivolts :: "millivolts \<Rightarrow> millivolts \<Rightarrow> bool" where
  "a \<le> b \<longleftrightarrow> mv_of a \<le> mv_of b"

definition less_millivolts :: "millivolts \<Rightarrow> millivolts \<Rightarrow> bool" where
  "a < b \<longleftrightarrow> mv_of a < mv_of b"

instance
proof
  fix a b c :: millivolts
  show "a < b \<longleftrightarrow> a \<le> b \<and> \<not> b \<le> a" by (auto simp: less_eq_millivolts_def less_millivolts_def)
  show "a \<le> a" by (simp add: less_eq_millivolts_def)
  show "a \<le> b \<Longrightarrow> b \<le> c \<Longrightarrow> a \<le> c" by (simp add: less_eq_millivolts_def)
  show "a \<le> b \<Longrightarrow> b \<le> a \<Longrightarrow> a = b" by (cases a; cases b) (simp add: less_eq_millivolts_def)
  show "a \<le> b \<or> b \<le> a" by (auto simp: less_eq_millivolts_def)
qed

end

lemma millivolts_le_iff: "a \<le> b \<longleftrightarrow> unat (mv_of a) \<le> unat (mv_of b)"
  by (simp add: less_eq_millivolts_def word_le_nat_alt)

text \<open>A number below a power of ten has at most that many digits.\<close>

lemma length_dec_digits: "n < 10 ^ k \<Longrightarrow> 0 < k \<Longrightarrow> length (dec_digits n) \<le> k"
proof (induction n arbitrary: k rule: dec_digits.induct)
  case (1 n)
  show ?case
  proof (cases "n < 10")
    case True
    with 1 show ?thesis by (simp add: dec_digits.simps [of n])
  next
    case False
    obtain j where k: "k = Suc j" "0 < j"
    proof (cases k)
      case (Suc j)
      with 1(2) False that show ?thesis by (cases j) simp_all
    qed (use 1(3) in simp)
    with 1(2) have "n div 10 < 10 ^ j" by (simp add: less_mult_imp_div_less mult.commute)
    with 1(1) False k have "length (dec_digits (n div 10)) \<le> j" by blast
    with False k show ?thesis by (simp add: dec_digits.simps [of n])
  qed
qed

end
