(* ===== verification/Json.thy ===== *)
theory Json
  imports Units
begin

text \<open>
  The messages of the device as JSON.  What the derived \<open>Serialize\<close> hands to serde-json-core is an
  object of numbers and names; the crate itself is a parameter, with its documented behaviour: the
  text of the object, or an error when the buffer is too small.
\<close>

section \<open>Objects and their text\<close>

datatype json = JNum nat | JName string

type_synonym json_object = "(string \<times> json) list"

definition quoted :: "string \<Rightarrow> string" where
  "quoted s = [CHR 0x22] @ s @ [CHR 0x22]"

fun json_text :: "json \<Rightarrow> string" where
  "json_text (JNum n) = dec_digits n"
| "json_text (JName s) = quoted s"

fun member_text :: "string \<times> json \<Rightarrow> string" where
  "member_text (k, v) = quoted k @ '':'' @ json_text v"

fun members_text :: "json_object \<Rightarrow> string" where
  "members_text [] = []"
| "members_text [m] = member_text m"
| "members_text (m # ms) = member_text m @ '','' @ members_text ms"

definition object_text :: "json_object \<Rightarrow> string" where
  "object_text ms = ''{'' @ members_text ms @ ''}''"

text \<open>The size of an object, without its text.\<close>

fun json_size :: "json \<Rightarrow> nat" where
  "json_size (JNum n) = length (dec_digits n)"
| "json_size (JName s) = length s + 2"

fun member_size :: "string \<times> json \<Rightarrow> nat" where
  "member_size (k, v) = length k + json_size v + 4"

lemma length_object_text:
  assumes "ms \<noteq> []"
  shows "length (object_text ms) = Suc (sum_list (map member_size ms))"
proof -
  have text_size: "length (json_text v) = json_size v" for v by (cases v) (simp_all add: quoted_def)
  have "Suc (length (member_text m)) = member_size m" for m
    by (cases m) (simp add: text_size quoted_def)
  then have "Suc (length (members_text ms)) = sum_list (map member_size ms)"
    using assms by (induction ms rule: members_text.induct) (simp_all add: add.assoc [symmetric] del: member_text.simps)
  then show ?thesis by (simp add: object_text_def)
qed

section \<open>The serializer\<close>

text \<open>Names that need no escape: small letters and the underscore.\<close>

definition plain_char :: "char \<Rightarrow> bool" where
  "plain_char c \<longleftrightarrow> c = CHR ''_'' \<or> 97 \<le> (of_char c :: nat) \<and> (of_char c :: nat) \<le> 122"

fun plain_member :: "string \<times> json \<Rightarrow> bool" where
  "plain_member (k, JNum n) = list_all plain_char k"
| "plain_member (k, JName s) = (list_all plain_char k \<and> list_all plain_char s)"

type_synonym json_writer = "json_object \<Rightarrow> nat \<Rightarrow> u8 list option"

locale json_crate =
  fixes to_slice :: json_writer
  assumes to_slice_plain: "list_all plain_member ms \<Longrightarrow>
    to_slice ms n = (if length (object_text ms) \<le> n then Some (map of_char (object_text ms)) else None)"

definition ref_json :: json_writer where
  "ref_json ms n = (if length (object_text ms) \<le> n then Some (map of_char (object_text ms)) else None)"

interpretation rjson: json_crate ref_json
  by unfold_locales (simp add: ref_json_def)

end
