(* ===== verification/Device_Driver.thy ===== *)
theory Device_Driver
  imports Prelude
begin

text \<open>
  The two interfaces below the chip drivers, none of which is code of this repository: the
  \<open>I2c\<close> trait of embedded-hal-async, and the register and buffer operations that the
  device-driver crate and the embedded-io-async traits provide on top of the functions that
  \<open>drivers/*/ll.rs\<close> implements.  Each is a record of operations that the drivers take as an
  argument, and a locale with the documented behaviour the drivers rely on.
\<close>

section \<open>The I2C bus\<close>

text \<open>
  \<open>'b\<close> is whatever lies behind the bus: the chips, and the other tasks that use it between
  two transactions of a driver.  Nothing is assumed of it but the shape of an answer.
\<close>

record ('b, 'e) i2c_bus =
  i2c_write :: "u8 \<Rightarrow> u8 list \<Rightarrow> 'b \<Rightarrow> ('e + unit) \<times> 'b"
  i2c_write_read :: "u8 \<Rightarrow> u8 list \<Rightarrow> nat \<Rightarrow> 'b \<Rightarrow> ('e + u8 list) \<times> 'b"

locale i2c_device =
  fixes i2c :: "('b, 'e) i2c_bus"
  assumes write_read_length:
    "i2c_write_read i2c a ws n b = (Inr bs, b') \<Longrightarrow> length bs = n"

section \<open>Registers\<close>

text \<open>
  The value of a register is its bytes in the order of the bus: every register of the two drivers
  with more than one byte is declared with \<open>ByteOrder = LE\<close>, so that \<open>reg_bit bs i\<close> is bit \<open>i\<close> of
  its value.
\<close>

text \<open>
  \<open>dd_store lo hi v\<close> and \<open>dd_load lo hi\<close> are the setter and getter that the macro
  \<open>implement_device!\<close> generates for a field declared as \<open>lo..hi\<close>; \<open>dd_write\<close>,
  \<open>dd_read\<close> and \<open>dd_modify\<close> are the register operations, which call the driver's
  \<open>write_register\<close> and \<open>read_register\<close>; the \<open>nat\<close> is the register's size in bytes.
  \<open>dd_read_exact\<close> and \<open>dd_write_all\<close> are those of a buffer, over the driver's \<open>read\<close>
  and \<open>write\<close>.
\<close>

datatype io_error = IoOther

record ('b, 'e) dd_ops =
  dd_store :: "nat \<Rightarrow> nat \<Rightarrow> u32 \<Rightarrow> u8 list \<Rightarrow> u8 list"
  dd_load :: "nat \<Rightarrow> nat \<Rightarrow> u8 list \<Rightarrow> u32"
  dd_write :: "(u8 list \<Rightarrow> ('b, 'e, unit) act) \<Rightarrow> nat \<Rightarrow> (u8 list \<Rightarrow> u8 list) \<Rightarrow> ('b, 'e, unit) act"
  dd_read :: "(nat \<Rightarrow> ('b, 'e, u8 list) act) \<Rightarrow> nat \<Rightarrow> ('b, 'e, u8 list) act"
  dd_modify :: "(nat \<Rightarrow> ('b, 'e, u8 list) act) \<Rightarrow> (u8 list \<Rightarrow> ('b, 'e, unit) act) \<Rightarrow>
    nat \<Rightarrow> (u8 list \<Rightarrow> u8 list) \<Rightarrow> ('b, 'e, unit) act"
  dd_read_exact :: "(nat \<Rightarrow> ('b, io_error, u8 list) act) \<Rightarrow> nat \<Rightarrow> ('b, io_error, u8 list) act"
  dd_write_all :: "(u8 list \<Rightarrow> ('b, io_error, nat) act) \<Rightarrow> u8 list \<Rightarrow> ('b, io_error, unit) act"

text \<open>
  The documented behaviour: a setter changes the bits of its field, to the low bits of the
  value, and no other; a getter reads them; \<open>write\<close> starts from a register of zeros;
  \<open>modify\<close> reads, changes and writes back; \<open>read_exact\<close> and \<open>write_all\<close> are done when
  one call has moved every byte, and hand on the error of a failing call.
\<close>

locale device_driver =
  fixes dd :: "('b, 'e) dd_ops"
  assumes store_length: "length (dd_store dd lo hi v bs) = length bs"
    and store_bit: "lo < hi \<Longrightarrow> hi \<le> 8 * length bs \<Longrightarrow> i < 8 * length bs \<Longrightarrow>
      reg_bit (dd_store dd lo hi v bs) i =
        (if lo \<le> i \<and> i < hi then bit v (i - lo) else reg_bit bs i)"
    and load_bit: "lo < hi \<Longrightarrow> hi \<le> 8 * length bs \<Longrightarrow> hi - lo \<le> 32 \<Longrightarrow> i < 32 \<Longrightarrow>
      bit (dd_load dd lo hi bs) i = (i < hi - lo \<and> reg_bit bs (lo + i))"
    and write_law: "dd_write dd wr n f = wr (f (replicate n 0))"
    and read_law: "dd_read dd rd n = rd n"
    and modify_law: "dd_modify dd rd wr n f = bindA (rd n) (\<lambda>bs. wr (f bs))"
    and read_exact_all: "0 < n \<Longrightarrow> brd n b = (Ok bs, b') \<Longrightarrow> length bs = n \<Longrightarrow>
      dd_read_exact dd brd n b = (Ok bs, b')"
    and read_exact_err: "0 < n \<Longrightarrow> brd n b = (Err e, b') \<Longrightarrow>
      dd_read_exact dd brd n b = (Err e, b')"
    and write_all_all: "bs \<noteq> [] \<Longrightarrow> bwr bs b = (Ok (length bs), b') \<Longrightarrow>
      dd_write_all dd bwr bs b = (Ok (), b')"
    and write_all_err: "bs \<noteq> [] \<Longrightarrow> bwr bs b = (Err e, b') \<Longrightarrow>
      dd_write_all dd bwr bs b = (Err e, b')"

section \<open>The reference meaning of a field\<close>

definition field_store :: "nat \<Rightarrow> nat \<Rightarrow> u32 \<Rightarrow> u8 list \<Rightarrow> u8 list" where
  "field_store lo hi v bs =
     map (\<lambda>k. byte_of (\<lambda>j. if lo \<le> 8 * k + j \<and> 8 * k + j < hi then bit v (8 * k + j - lo)
                           else bit (bs ! k) j)) [0..<length bs]"

definition field_load :: "nat \<Rightarrow> nat \<Rightarrow> u8 list \<Rightarrow> u32" where
  "field_load lo hi bs = horner_sum of_bool 2 (map (reg_bit bs) [lo..<hi])"

lemma length_field_store [simp]: "length (field_store lo hi v bs) = length bs"
  by (simp add: field_store_def)

lemma reg_bit_field_store:
  "i < 8 * length bs \<Longrightarrow> reg_bit (field_store lo hi v bs) i =
     (if lo \<le> i \<and> i < hi then bit v (i - lo) else reg_bit bs i)"
  by (simp add: reg_bit_def field_store_def less_mult_imp_div_less mult.commute)

lemma bit_field_load:
  "lo < hi \<Longrightarrow> hi - lo \<le> 32 \<Longrightarrow> i < 32 \<Longrightarrow>
     bit (field_load lo hi bs) i \<longleftrightarrow> i < hi - lo \<and> reg_bit bs (lo + i)"
  by (auto simp: field_load_def bit_horner_sum_bit_word_iff)

context device_driver
begin

lemma store_eq:
  assumes "lo < hi" "hi \<le> 8 * length bs"
  shows "dd_store dd lo hi v bs = field_store lo hi v bs"
  using assms by (intro reg_eqI) (simp_all add: store_length store_bit reg_bit_field_store)

lemma load_eq:
  assumes "lo < hi" "hi \<le> 8 * length bs" "hi - lo \<le> 32"
  shows "dd_load dd lo hi bs = field_load lo hi bs"
  using assms by (intro bit_word_eqI) (simp add: load_bit bit_field_load)

text \<open>A field read after it was written is the value, cut to the width of the field.\<close>

lemma load_store_same:
  assumes "lo < hi" "hi \<le> 8 * length bs" "hi - lo \<le> 32"
  shows "dd_load dd lo hi (dd_store dd lo hi v bs) = take_bit (hi - lo) v"
  using assms
  by (intro bit_word_eqI) (auto simp: load_bit store_length store_bit bit_take_bit_iff split: if_splits)

text \<open>A field keeps its value when another is written.\<close>

lemma load_store_disjoint:
  assumes "lo < hi" "hi \<le> 8 * length bs" "hi - lo \<le> 32"
    and "lo' < hi'" "hi' \<le> 8 * length bs" "hi \<le> lo' \<or> hi' \<le> lo"
  shows "dd_load dd lo hi (dd_store dd lo' hi' v bs) = dd_load dd lo hi bs"
  using assms
  by (intro bit_word_eqI) (auto simp: load_bit store_length store_bit split: if_splits)

end

section \<open>Register maps\<close>

text \<open>
  What the map of a driver must satisfy for its accessors to mean what they say: a field lies in
  its register, a register is a whole number of bytes, and a register with its address fits the
  transaction buffer of \<open>cap\<close> bytes.
\<close>

locale register_map =
  fixes layout :: "'f \<Rightarrow> 'r \<times> nat \<times> nat"
    and size_bits :: "'r \<Rightarrow> nat"
    and cap :: nat
  assumes in_register: "layout f = (r, lo, hi) \<Longrightarrow> lo < hi \<and> hi \<le> size_bits r \<and> hi - lo \<le> 32"
    and whole_bytes: "8 * (size_bits r div 8) = size_bits r"
    and fits: "size_bits r div 8 < cap"
begin

lemma get_set_same:
  assumes "device_driver dd" "layout f = (r, lo, hi)" "length bs = size_bits r div 8"
  shows "dd_load dd lo hi (dd_store dd lo hi v bs) = take_bit (hi - lo) v"
  using assms(3) in_register [OF assms(2)] whole_bytes [of r]
  by (intro device_driver.load_store_same [OF assms(1)]) simp_all

lemma get_set_other:
  assumes "device_driver dd" "layout f = (r, lo, hi)" "layout g = (r, lo', hi')"
    and "hi \<le> lo' \<or> hi' \<le> lo" "length bs = size_bits r div 8"
  shows "dd_load dd lo hi (dd_store dd lo' hi' v bs) = dd_load dd lo hi bs"
  using assms(4,5) in_register [OF assms(2)] in_register [OF assms(3)] whole_bytes [of r]
  by (intro device_driver.load_store_disjoint [OF assms(1)]) simp_all

lemma set_reference:
  assumes "device_driver dd" "layout f = (r, lo, hi)" "length bs = size_bits r div 8"
  shows "dd_store dd lo hi v bs = field_store lo hi v bs"
  using assms(3) in_register [OF assms(2)] whole_bytes [of r]
  by (intro device_driver.store_eq [OF assms(1)]) simp_all

lemma get_reference:
  assumes "device_driver dd" "layout f = (r, lo, hi)" "length bs = size_bits r div 8"
  shows "dd_load dd lo hi bs = field_load lo hi bs"
  using assms(3) in_register [OF assms(2)] whole_bytes [of r]
  by (intro device_driver.load_eq [OF assms(1)]) simp_all

lemma frame_register:
  assumes "length data = size_bits r div 8"
  shows "\<exists>buf. frame cap addr data = Some buf \<and> take (length data + 1) buf = addr # data"
  using fits [of r] assms by (simp add: frame_Some)

end

section \<open>A provider of the interface\<close>

text \<open>
  The register operations as the crate documents them, over any bus.  Every property
  that takes \<open>device_driver dd\<close> as a hypothesis is applied to this provider in its witness.
\<close>

definition ref_dd :: "('b, 'e) dd_ops" where
  "ref_dd = \<lparr>
     dd_store = field_store,
     dd_load = field_load,
     dd_write = (\<lambda>wr n f. wr (f (replicate n 0))),
     dd_read = (\<lambda>rd n. rd n),
     dd_modify = (\<lambda>rd wr n f. bindA (rd n) (\<lambda>bs. wr (f bs))),
     dd_read_exact = (\<lambda>rd n. rd n),
     dd_write_all = (\<lambda>wr bs. bindA (wr bs) (\<lambda>_. ret ()))\<rparr>"

interpretation rdd: device_driver ref_dd
  by unfold_locales
    (simp_all add: ref_dd_def reg_bit_field_store bit_field_load bindA_def ret_def)

text \<open>A bus that records what is written to it and answers a read with zeros.\<close>

definition recorder :: "((u8 \<times> u8 list) list, unit) i2c_bus" where
  "recorder = \<lparr>
     i2c_write = (\<lambda>a bs log. (Inr (), log @ [(a, bs)])),
     i2c_write_read = (\<lambda>a ws n log. (Inr (replicate n 0), log))\<rparr>"

interpretation recorder: i2c_device recorder
  by unfold_locales (auto simp: recorder_def)

section \<open>Registers of one byte\<close>

lemma field_store_byte:
  "field_store lo hi v [b] =
    [byte_of (\<lambda>j. if lo \<le> j \<and> j < hi then bit v (j - lo) else bit b j)]"
  by (simp add: field_store_def)

lemma field_store_flag:
  assumes "k < 8"
  shows "field_store k (Suc k) (of_bool x) [b] = [if x then set_bit k b else unset_bit k b]"
  unfolding field_store_byte using assms
  by (auto intro!: bit_word_eqI simp: bit_set_bit_iff bit_unset_bit_iff not_less_eq le_less_Suc_eq
      bit_1_iff)

lemma field_store_low:
  assumes "hi \<le> 8" and "unat v < 2 ^ hi"
  shows "field_store 0 hi v [0] = [ucast v]"
proof -
  have "\<not> bit v j" if "hi \<le> j" for j
  proof -
    from that have "(2::nat) ^ hi \<le> 2 ^ j" by simp
    with assms(2) have "unat v < 2 ^ j" by (rule order.strict_trans2)
    then have "unat v div 2 ^ j = 0" by (rule div_less)
    then have "\<not> bit (unat v) j" by (simp add: bit_iff_odd)
    then show ?thesis by (simp add: bit_unsigned_iff)
  qed
  with assms(1) show ?thesis unfolding field_store_byte
    by (auto intro!: bit_word_eqI simp: bit_ucast_iff not_less)
qed

lemma field_load_byte: "field_load 0 8 [b] = ucast b"
proof (rule bit_word_eqI)
  fix n assume "n < LENGTH(32)"
  moreover have "n < 8" if "bit b n" using bit_imp_le_length [OF that] by simp
  ultimately show "bit (field_load 0 8 [b]) n = bit (ucast b :: u32) n"
    by (auto simp: bit_field_load reg_bit_def bit_ucast_iff)
qed

lemma field_load_flag: "k < 8 \<Longrightarrow> field_load k (Suc k) [b] = of_bool (bit b k)"
  by (rule bit_word_eqI) (auto simp: bit_field_load reg_bit_def bit_1_iff)

end
