(* ===== verification/Tps55289.thy ===== *)
theory Tps55289
  imports Device_Driver Units
begin

text \<open>
  The driver of the TPS55289 buck-boost converter: the arithmetic of
  \<open>drivers/tps55289/mod.rs\<close> (feedback ratio, reference voltage) and the register map and bus
  transactions of \<open>drivers/tps55289/ll.rs\<close>.
\<close>

section \<open>The reference voltage\<close>

datatype int_fb = Ratio0_2256 | Ratio0_1128 | Ratio0_0752 | Ratio0_0564

fun int_fb_code :: "int_fb \<Rightarrow> u8" where
  "int_fb_code Ratio0_2256 = 0"
| "int_fb_code Ratio0_1128 = 1"
| "int_fb_code Ratio0_0752 = 2"
| "int_fb_code Ratio0_0564 = 3"

fun int_fb_ratio :: "int_fb \<Rightarrow> u32" where
  "int_fb_ratio Ratio0_2256 = 2256"
| "int_fb_ratio Ratio0_1128 = 1128"
| "int_fb_ratio Ratio0_0752 = 752"
| "int_fb_ratio Ratio0_0564 = 564"

definition int_fb_multiply :: "int_fb \<Rightarrow> u32 \<Rightarrow> u32 option" where
  "int_fb_multiply fb x = do { y \<leftarrow> checked_mul x (int_fb_ratio fb); rust_div y 10000 }"

datatype operating_status = Boost | Buck | BuckBoost

fun operating_status_of :: "u8 \<Rightarrow> operating_status option" where
  "operating_status_of x =
     (if x = 0 then Some Boost else if x = 1 then Some Buck
      else if x = 2 then Some BuckBoost else None)"

datatype vref = VRef u16

fun vref_code :: "vref \<Rightarrow> u16" where "vref_code (VRef x) = x"

definition vref_into_nanovolts :: "profile \<Rightarrow> vref \<Rightarrow> nanovolts option" where
  "vref_into_nanovolts p v = do {
     m \<leftarrow> rust_mul p 564500 (ucast (vref_code v));
     s \<leftarrow> rust_add p 45000000 m;
     Some (Nanovolts s) }"

definition vref_from_nanovolts :: "profile \<Rightarrow> nanovolts \<Rightarrow> vref option" where
  "vref_from_nanovolts p from = do {
     d \<leftarrow> rust_sub p (nv_of from) 45000000;
     q \<leftarrow> rust_div d 564500;
     Some (VRef (ucast q)) }"

definition vref_from_feedback :: "profile \<Rightarrow> millivolts \<Rightarrow> int_fb \<Rightarrow> vref option" where
  "vref_from_feedback p target fb = do {
     m \<leftarrow> int_fb_multiply fb (ucast (mv_of target));
     n \<leftarrow> rust_mul p m 1000000;
     vref_from_nanovolts p (Nanovolts n) }"

subsection \<open>Facts on the arithmetic\<close>

lemma int_fb_ratio_bound: "unat (int_fb_ratio fb) \<le> 2256"
  by (cases fb) simp_all

text \<open>The \<open>checked_mul\<close> never fails on a voltage that comes from a \<open>u16\<close>.\<close>

lemma int_fb_multiply_u16:
  fixes t :: u16
  shows "int_fb_multiply fb (ucast t) = Some (ucast t * int_fb_ratio fb div 10000)"
    and "unat (ucast t * int_fb_ratio fb div 10000 :: u32) =
         unat t * unat (int_fb_ratio fb) div 10000"
proof -
  have "unat t \<le> 65535" using unat_u16_bound [of t] by simp
  with int_fb_ratio_bound [of fb] have "unat t * unat (int_fb_ratio fb) \<le> 65535 * 2256"
    by (intro mult_le_mono) simp_all
  then have bound: "unat (ucast t :: u32) * unat (int_fb_ratio fb) < 2 ^ LENGTH(32)" by simp
  show "int_fb_multiply fb (ucast t) = Some (ucast t * int_fb_ratio fb div 10000)"
    using checked_mul_exact [OF bound] by (simp add: int_fb_multiply_def rust_div_def)
  show "unat (ucast t * int_fb_ratio fb div 10000 :: u32) =
      unat t * unat (int_fb_ratio fb) div 10000"
    using rust_mul_exact(2) [OF bound] by (simp add: unat_div)
qed

text \<open>The reference in millivolts for a target, at the ratio the board uses.\<close>

abbreviation ref_mv :: "u16 \<Rightarrow> nat" where
  "ref_mv t \<equiv> unat t * 564 div 10000"

lemma ref_mv_bound: "ref_mv t \<le> 3696"
proof -
  have "unat t \<le> 65535" using unat_u16_bound [of t] by simp
  then have "unat t * 564 \<le> 65535 * 564" by simp
  then have "ref_mv t \<le> 65535 * 564 div 10000" by (rule div_le_mono)
  then show ?thesis by simp
qed

lemma vref_from_feedback_board:
  "vref_from_feedback p (Millivolts t) Ratio0_0564 =
     vref_from_nanovolts p (Nanovolts (of_nat (ref_mv t * 1000000)))"
proof -
  let ?m = "ucast t * int_fb_ratio Ratio0_0564 div 10000 :: u32"
  have m: "unat ?m = ref_mv t" using int_fb_multiply_u16(2) [of t Ratio0_0564] by simp
  with ref_mv_bound [of t] have "unat ?m * unat (1000000 :: u32) < 2 ^ LENGTH(32)" by simp
  note mul = rust_mul_exact [OF this]
  have "?m * 1000000 = of_nat (ref_mv t * 1000000)"
    using word_eq_of_nat [OF m] by simp
  then show ?thesis
    by (simp add: vref_from_feedback_def int_fb_multiply_u16(1) mul(1) del: int_fb_ratio.simps)
qed

text \<open>From 45 mV on, the subtraction of the offset is exact in both profiles.\<close>

lemma vref_from_nanovolts_exact:
  assumes "45000000 \<le> n" and "n < 2 ^ 32"
  shows "vref_from_nanovolts p (Nanovolts (of_nat n)) =
    Some (VRef (of_nat ((n - 45000000) div 564500)))"
proof -
  have n: "unat (of_nat n :: u32) = n" using assms(2) by (simp add: unat_of_nat_small)
  with assms(1) have "(45000000 :: u32) \<le> of_nat n" by (simp add: word_le_nat_alt)
  note sub = rust_sub_exact [OF this]
  have "unat ((of_nat n - 45000000) div 564500 :: u32) = (n - 45000000) div 564500"
    using sub(2) n by (simp add: unat_div)
  then have "ucast ((of_nat n - 45000000) div 564500 :: u32) =
      (of_nat ((n - 45000000) div 564500) :: u16)"
    by (rule ucast_eq_of_nat)
  then show ?thesis by (simp add: vref_from_nanovolts_def sub(1) rust_div_def)
qed

text \<open>Below 45 mV it goes under zero.\<close>

lemma vref_from_nanovolts_under:
  assumes "n < 45000000"
  shows "vref_from_nanovolts Dev (Nanovolts (of_nat n)) = None"
    and "vref_from_nanovolts Release (Nanovolts (of_nat n)) =
      Some (VRef (of_nat ((2 ^ 32 + n - 45000000) div 564500)))"
proof -
  have n: "unat (of_nat n :: u32) = n" using assms by (simp add: unat_of_nat_small)
  with assms have lt: "of_nat n < (45000000 :: u32)" by (simp add: word_less_nat_alt)
  then show "vref_from_nanovolts Dev (Nanovolts (of_nat n)) = None"
    by (simp add: vref_from_nanovolts_def rust_sub_def)
  have "unat (of_nat n - 45000000 :: u32) = 2 ^ 32 + n - 45000000"
    using n lt assms by (simp add: unat_sub_if' word_less_nat_alt)
  then have "unat ((of_nat n - 45000000) div 564500 :: u32) =
      (2 ^ 32 + n - 45000000) div 564500"
    by (simp add: unat_div)
  then have "ucast ((of_nat n - 45000000) div 564500 :: u32) =
      (of_nat ((2 ^ 32 + n - 45000000) div 564500) :: u16)"
    by (rule ucast_eq_of_nat)
  then show "vref_from_nanovolts Release (Nanovolts (of_nat n)) =
      Some (VRef (of_nat ((2 ^ 32 + n - 45000000) div 564500)))"
    by (simp add: vref_from_nanovolts_def rust_div_def)
qed

text \<open>The reference step chosen for a target the chip can reach, and what it stands for.\<close>

abbreviation vref_step :: "u16 \<Rightarrow> nat" where
  "vref_step t \<equiv> (ref_mv t * 1000000 - 45000000) div 564500"

lemma vref_from_feedback_reachable:
  assumes "798 \<le> unat t"
  shows "vref_from_feedback p (Millivolts t) Ratio0_0564 = Some (VRef (of_nat (vref_step t)))"
    and "unat (of_nat (vref_step t) :: u16) = vref_step t"
proof -
  from assms have "45 \<le> ref_mv t" by simp
  then have lo: "45000000 \<le> ref_mv t * 1000000" by simp
  have hi: "ref_mv t * 1000000 < 2 ^ 32" using ref_mv_bound [of t] by simp
  show "vref_from_feedback p (Millivolts t) Ratio0_0564 = Some (VRef (of_nat (vref_step t)))"
    unfolding vref_from_feedback_board by (rule vref_from_nanovolts_exact [OF lo hi])
  have "vref_step t \<le> 6467" using ref_mv_bound [of t] by simp
  then show "unat (of_nat (vref_step t) :: u16) = vref_step t"
    by (simp add: unat_of_nat_small)
qed

lemma vref_into_nanovolts_small:
  assumes "unat v \<le> 7528"
  shows "vref_into_nanovolts p (VRef v) = Some (Nanovolts (of_nat (45000000 + 564500 * unat v)))"
    and "unat (of_nat (45000000 + 564500 * unat v) :: u32) = 45000000 + 564500 * unat v"
proof -
  have w: "unat (ucast v :: u32) = unat v" by simp
  with assms have "unat (564500 :: u32) * unat (ucast v :: u32) < 2 ^ LENGTH(32)" by simp
  note mul = rust_mul_exact [OF this]
  from mul(2) w assms
  have "unat (45000000 :: u32) + unat (564500 * ucast v :: u32) < 2 ^ LENGTH(32)" by simp
  note add = rust_add_exact [OF this]
  from add(2) mul(2) w
  have "unat (45000000 + 564500 * ucast v :: u32) = 45000000 + 564500 * unat v" by simp
  then have "(45000000 + 564500 * ucast v :: u32) = of_nat (45000000 + 564500 * unat v)"
    by (rule word_eq_of_nat)
  then show "vref_into_nanovolts p (VRef v) =
      Some (Nanovolts (of_nat (45000000 + 564500 * unat v)))"
    by (simp add: vref_into_nanovolts_def mul(1) add(1))
  show "unat (of_nat (45000000 + 564500 * unat v) :: u32) = 45000000 + 564500 * unat v"
    using assms by (intro unat_of_nat_small) simp
qed

lemma vref_step_bounds:
  fixes t :: u16
  assumes "798 \<le> unat t"
  shows "45000000 + 564500 * vref_step t \<le> unat t * 56400"
    and "unat t * 56400 < 45000000 + 564500 * vref_step t + 1564500"
    and "vref_step t < 2048 \<longleftrightarrow> unat t \<le> 21312"
proof -
  define m where "m = ref_mv t"
  from assms have m45: "45 \<le> m" by (simp add: m_def)
  have m_lo: "m * 10000 \<le> unat t * 564" and m_hi: "unat t * 564 < (m + 1) * 10000"
    by (simp_all add: m_def)
  define d where "d = m * 1000000 - 45000000"
  have step: "vref_step t = d div 564500" by (simp add: d_def m_def)
  from m45 have d: "d + 45000000 = m * 1000000" by (simp add: d_def)
  have "564500 * (d div 564500) \<le> d" by simp
  then have "45000000 + 564500 * vref_step t \<le> m * 1000000" unfolding step using d by linarith
  also have "\<dots> \<le> unat t * 56400" using m_lo by simp
  finally show "45000000 + 564500 * vref_step t \<le> unat t * 56400" .
  have "d < 564500 * (d div 564500) + 564500"
    using mod_less_divisor [of 564500 d] div_mult_mod_eq [of d 564500] by simp
  then have "m * 1000000 < 45000000 + 564500 * vref_step t + 564500"
    unfolding step using d by linarith
  moreover have "unat t * 56400 < m * 1000000 + 1000000" using m_hi by simp
  ultimately show "unat t * 56400 < 45000000 + 564500 * vref_step t + 1564500" by linarith
  have "vref_step t < 2048 \<longleftrightarrow> d < 2048 * 564500" unfolding step by (simp add: div_less_iff_less_mult)
  also have "\<dots> \<longleftrightarrow> m \<le> 1201" using d by arith
  also have "\<dots> \<longleftrightarrow> unat t \<le> 21312" by (simp add: m_def) arith
  finally show "vref_step t < 2048 \<longleftrightarrow> unat t \<le> 21312" .
qed



text \<open>C40: Asking for less than 798 mV underflows \<open>VRef::from_nanovolts\<close>: the dev build panics, and
  the release build stores a reference whose low 11 bits, the ones the register keeps, are between
  1384 and 1462 -- more than 826 mV of reference, an output of over 14.6 V.\<close>

theorem low_target_wraps_to_high_output:
  assumes "unat t < 798"
  shows "vref_from_feedback Dev (Millivolts t) Ratio0_0564 = None
    \<and> (\<exists>v. vref_from_feedback Release (Millivolts t) Ratio0_0564 = Some (VRef v)
          \<and> 1384 \<le> unat (take_bit 11 v) \<and> unat (take_bit 11 v) \<le> 1462)"
proof (intro exI conjI)
  define n where "n = ref_mv t * 1000000"
  from assms have n: "n \<le> 44000000" by (simp add: n_def)
  then have lt: "n < 45000000" by simp
  show "vref_from_feedback Dev (Millivolts t) Ratio0_0564 = None"
    unfolding vref_from_feedback_board n_def [symmetric]
    by (rule vref_from_nanovolts_under(1) [OF lt])
  let ?q = "(2 ^ 32 + n - 45000000) div 564500"
  show "vref_from_feedback Release (Millivolts t) Ratio0_0564 = Some (VRef (of_nat ?q))"
    unfolding vref_from_feedback_board n_def [symmetric]
    by (rule vref_from_nanovolts_under(2) [OF lt])
  from n have q: "7528 \<le> ?q" "?q \<le> 7606" by simp_all
  have "unat (take_bit 11 (of_nat ?q :: u16)) = take_bit 11 ?q"
    using q(2) by (simp add: unsigned_take_bit_eq unsigned_of_nat take_bit_nat_eq_self)
  also have "\<dots> = ?q - 6144" using q by (simp add: take_bit_eq_mod mod_nat_eqI)
  finally have "unat (take_bit 11 (of_nat ?q :: u16)) = ?q - 6144" .
  with q show "1384 \<le> unat (take_bit 11 (of_nat ?q :: u16))"
    and "unat (take_bit 11 (of_nat ?q :: u16)) \<le> 1462" by simp_all
qed

theorem low_target_wraps_to_high_output_witness:
  "vref_from_feedback Dev (Millivolts 0) Ratio0_0564 = None
    \<and> (\<exists>v. vref_from_feedback Release (Millivolts 0) Ratio0_0564 = Some (VRef v)
          \<and> 1384 \<le> unat (take_bit 11 v) \<and> unat (take_bit 11 v) \<le> 1462)"
  by (rule low_target_wraps_to_high_output) simp

text \<open>\<open>VRef::from_nanovolts\<close> undoes \<open>VRef::into_nanovolts\<close> on every code whose voltage fits a
  \<open>u32\<close> of nanovolts, in both build profiles; the 2048 codes of the register are among them.\<close>

theorem vref_roundtrip:
  assumes "unat v \<le> 7528"
  shows "Option.bind (vref_into_nanovolts p (VRef v)) (vref_from_nanovolts p) = Some (VRef v)"
proof -
  let ?n = "45000000 + 564500 * unat v"
  have hi: "?n < 2 ^ 32" using assms by simp
  have "vref_from_nanovolts p (Nanovolts (of_nat ?n)) =
      Some (VRef (of_nat ((?n - 45000000) div 564500)))"
    by (rule vref_from_nanovolts_exact [OF _ hi]) simp
  also have "(?n - 45000000) div 564500 = unat v" by simp
  finally show ?thesis
    unfolding vref_into_nanovolts_small(1) [OF assms] Option.bind.bind_lunit by simp
qed

theorem vref_roundtrip_witness:
  "Option.bind (vref_into_nanovolts Dev (VRef 2047)) (vref_from_nanovolts Dev) = Some (VRef 2047)"
  by (rule vref_roundtrip) simp

section \<open>Register map and bus transactions\<close>

definition TPS_MAX_TRANSACTION_SIZE :: nat where "TPS_MAX_TRANSACTION_SIZE = 3"
definition TPS_ADDRESS :: u8 where "TPS_ADDRESS = 0x75"

datatype tps_reg = Tps_vref | Tps_iout_limit | Tps_vout_fs | Tps_mode | Tps_status

fun tps_address :: "tps_reg \<Rightarrow> u8" where
  "tps_address Tps_vref = 0x00"
| "tps_address Tps_iout_limit = 0x02"
| "tps_address Tps_vout_fs = 0x04"
| "tps_address Tps_mode = 0x06"
| "tps_address Tps_status = 0x07"

fun tps_size_bits :: "tps_reg \<Rightarrow> nat" where
  "tps_size_bits Tps_vref = 16"
| "tps_size_bits Tps_iout_limit = 8"
| "tps_size_bits Tps_vout_fs = 8"
| "tps_size_bits Tps_mode = 8"
| "tps_size_bits Tps_status = 8"

abbreviation tps_bytes :: "tps_reg \<Rightarrow> nat" where "tps_bytes r \<equiv> tps_size_bits r div 8"

datatype tps_field =
    Vref_vref
  | Iout_limit_setting | Iout_limit_en
  | Vout_fs_intfb | Vout_fs_fb
  | Mode_fpwm | Mode_dischg | Mode_hiccup | Mode_fswdbl | Mode_oe
  | Status_status | Status_ovp | Status_ocp | Status_scp

text \<open>The register of a field and its bits, the first and the one after the last.\<close>

fun tps_layout :: "tps_field \<Rightarrow> tps_reg \<times> nat \<times> nat" where
  "tps_layout Vref_vref = (Tps_vref, 0, 11)"
| "tps_layout Iout_limit_setting = (Tps_iout_limit, 0, 7)"
| "tps_layout Iout_limit_en = (Tps_iout_limit, 7, 8)"
| "tps_layout Vout_fs_intfb = (Tps_vout_fs, 0, 2)"
| "tps_layout Vout_fs_fb = (Tps_vout_fs, 7, 8)"
| "tps_layout Mode_fpwm = (Tps_mode, 1, 2)"
| "tps_layout Mode_dischg = (Tps_mode, 4, 5)"
| "tps_layout Mode_hiccup = (Tps_mode, 5, 6)"
| "tps_layout Mode_fswdbl = (Tps_mode, 6, 7)"
| "tps_layout Mode_oe = (Tps_mode, 7, 8)"
| "tps_layout Status_status = (Tps_status, 0, 2)"
| "tps_layout Status_ovp = (Tps_status, 5, 6)"
| "tps_layout Status_ocp = (Tps_status, 6, 7)"
| "tps_layout Status_scp = (Tps_status, 7, 8)"

definition tps_write_register ::
  "('b, 'e) i2c_bus \<Rightarrow> tps_reg \<Rightarrow> u8 list \<Rightarrow> ('b, 'e, unit) act" where
  "tps_write_register i2c r data =
     (case frame TPS_MAX_TRANSACTION_SIZE (tps_address r) data of
        None \<Rightarrow> panic
      | Some buf \<Rightarrow> liftR (i2c_write i2c TPS_ADDRESS (take (length data + 1) buf)))"

definition tps_read_register ::
  "('b, 'e) i2c_bus \<Rightarrow> tps_reg \<Rightarrow> nat \<Rightarrow> ('b, 'e, u8 list) act" where
  "tps_read_register i2c r n = liftR (i2c_write_read i2c TPS_ADDRESS [tps_address r] n)"

text \<open>The accessors that the macro generates from the map.\<close>

definition tps_set :: "('b, 'e) dd_ops \<Rightarrow> tps_field \<Rightarrow> u32 \<Rightarrow> u8 list \<Rightarrow> u8 list" where
  "tps_set dd f v bs = (case tps_layout f of (_, lo, hi) \<Rightarrow> dd_store dd lo hi v bs)"

definition tps_get :: "('b, 'e) dd_ops \<Rightarrow> tps_field \<Rightarrow> u8 list \<Rightarrow> u32" where
  "tps_get dd f bs = (case tps_layout f of (_, lo, hi) \<Rightarrow> dd_load dd lo hi bs)"

abbreviation tps_set_flag :: "('b, 'e) dd_ops \<Rightarrow> tps_field \<Rightarrow> bool \<Rightarrow> u8 list \<Rightarrow> u8 list" where
  "tps_set_flag dd f x \<equiv> tps_set dd f (of_bool x)"

abbreviation tps_flag :: "('b, 'e) dd_ops \<Rightarrow> tps_field \<Rightarrow> u8 list \<Rightarrow> bool" where
  "tps_flag dd f bs \<equiv> tps_get dd f bs \<noteq> 0"

definition tps_write :: "('b, 'e) i2c_bus \<Rightarrow> ('b, 'e) dd_ops \<Rightarrow> tps_reg \<Rightarrow>
    (u8 list \<Rightarrow> u8 list) \<Rightarrow> ('b, 'e, unit) act" where
  "tps_write i2c dd r f = dd_write dd (tps_write_register i2c r) (tps_bytes r) f"

definition tps_read :: "('b, 'e) i2c_bus \<Rightarrow> ('b, 'e) dd_ops \<Rightarrow> tps_reg \<Rightarrow>
    ('b, 'e, u8 list) act" where
  "tps_read i2c dd r = dd_read dd (tps_read_register i2c r) (tps_bytes r)"

definition tps_modify :: "('b, 'e) i2c_bus \<Rightarrow> ('b, 'e) dd_ops \<Rightarrow> tps_reg \<Rightarrow>
    (u8 list \<Rightarrow> u8 list) \<Rightarrow> ('b, 'e, unit) act" where
  "tps_modify i2c dd r f =
     dd_modify dd (tps_read_register i2c r) (tps_write_register i2c r) (tps_bytes r) f"

subsection \<open>The map is well formed\<close>

interpretation tps_map: register_map tps_layout tps_size_bits TPS_MAX_TRANSACTION_SIZE
proof
  fix f r lo hi
  show "tps_layout f = (r, lo, hi) \<Longrightarrow> lo < hi \<and> hi \<le> tps_size_bits r \<and> hi - lo \<le> 32"
    by (cases f) auto
  show "8 * tps_bytes r = tps_size_bits r" by (cases r) simp_all
  show "tps_bytes r < TPS_MAX_TRANSACTION_SIZE"
    by (cases r) (simp_all add: TPS_MAX_TRANSACTION_SIZE_def)
qed

lemma tps_fields_disjoint:
  "tps_layout f = (r, lo, hi) \<Longrightarrow> tps_layout g = (r, lo', hi') \<Longrightarrow> f \<noteq> g \<Longrightarrow> hi \<le> lo' \<or> hi' \<le> lo"
  by (cases f; cases g) auto

lemma tps_address_inj: "tps_address r = tps_address q \<longleftrightarrow> r = q"
  by (cases r; cases q) simp_all

lemma tps_write_register_frame:
  assumes "length data = tps_bytes r"
  shows "tps_write_register i2c r data = liftR (i2c_write i2c TPS_ADDRESS (tps_address r # data))"
  using tps_map.frame_register [OF assms, of "tps_address r"] by (auto simp: tps_write_register_def)

lemma tps_get_set_same:
  assumes "device_driver dd" "tps_layout f = (r, lo, hi)" "length bs = tps_bytes r"
  shows "tps_get dd f (tps_set dd f v bs) = take_bit (hi - lo) v"
  using tps_map.get_set_same [OF assms] by (simp add: tps_get_def tps_set_def assms(2))

lemma tps_get_set_other:
  assumes "device_driver dd" "tps_layout f = (r, lo, hi)" "tps_layout g = (r, lo', hi')" "f \<noteq> g"
    and "length bs = tps_bytes r"
  shows "tps_get dd f (tps_set dd g v bs) = tps_get dd f bs"
  using tps_map.get_set_other [OF assms(1-3) tps_fields_disjoint [OF assms(2-4)] assms(5)]
  by (simp add: tps_get_def tps_set_def assms(2,3))

context device_driver
begin

lemma tps_set_length [simp]: "length (tps_set dd f v bs) = length bs"
  by (simp add: tps_set_def store_length split: prod.split)

lemma tps_write_wire:
  assumes "\<And>bs. length (f bs) = length bs"
  shows "tps_write i2c dd r f =
    liftR (i2c_write i2c TPS_ADDRESS (tps_address r # f (replicate (tps_bytes r) 0)))"
  by (simp add: tps_write_def write_law assms tps_write_register_frame)

lemma tps_read_wire:
  "tps_read i2c dd r = liftR (i2c_write_read i2c TPS_ADDRESS [tps_address r] (tps_bytes r))"
  by (simp add: tps_read_def read_law tps_read_register_def)

end

text \<open>A read-modify-write over a bus that answers with as many bytes as it was asked for.\<close>

lemma tps_modify_wire:
  assumes "device_driver dd" "i2c_device i2c" "\<And>bs. length (f bs) = length bs"
  shows "tps_modify i2c dd r f =
    bindA (liftR (i2c_write_read i2c TPS_ADDRESS [tps_address r] (tps_bytes r)))
      (\<lambda>bs. liftR (i2c_write i2c TPS_ADDRESS (tps_address r # f bs)))"
proof (rule ext)
  fix b
  have "length bs = tps_bytes r" if "i2c_write_read i2c TPS_ADDRESS [tps_address r] (tps_bytes r) b = (Inr bs, b')"
    for bs b'
    using i2c_device.write_read_length [OF assms(2) that] .
  then show "tps_modify i2c dd r f b =
    bindA (liftR (i2c_write_read i2c TPS_ADDRESS [tps_address r] (tps_bytes r)))
      (\<lambda>bs. liftR (i2c_write i2c TPS_ADDRESS (tps_address r # f bs))) b"
    by (simp add: tps_modify_def device_driver.modify_law [OF assms(1)] tps_read_register_def
        bindA_def liftR_def tps_write_register_frame assms(3) split: prod.split sum.split)
qed

end
