(* ===== verification/Storage.thy ===== *)
theory Storage
  imports Prelude
begin

text \<open>
  \<open>systems/storage.rs\<close>: values kept in flash under one-byte keys.  The flash map of the
  sequential-storage crate and the postcard encoding are parameters; the keys, the error
  conversions, the initialisation of the partition and the choice of the partition are the
  code's.
\<close>

section \<open>Keys and values as bytes\<close>

datatype ser_error = BufferTooSmall | InvalidFormat | InvalidData

datatype storage_key = KMarker | KRecordData | KConfigSettings

fun key_code :: "storage_key \<Rightarrow> u8" where
  "key_code KMarker = 0x01"
| "key_code KRecordData = 0x02"
| "key_code KConfigSettings = 0x03"

definition key_of :: "u8 \<Rightarrow> storage_key option" where
  "key_of x = find (\<lambda>k. key_code k = x) [KMarker, KRecordData, KConfigSettings]"

text \<open>\<open>Key::serialize_into\<close> answers with the number of bytes it wrote to the buffer.\<close>

fun key_serialize_into :: "storage_key \<Rightarrow> u8 list \<Rightarrow> ser_error + nat \<times> u8 list" where
  "key_serialize_into k buffer =
     (if buffer = [] then Inl BufferTooSmall else Inr (1, buffer[0 := key_code k]))"

fun key_deserialize_from :: "u8 list \<Rightarrow> ser_error + storage_key \<times> nat" where
  "key_deserialize_from [] = Inl InvalidFormat"
| "key_deserialize_from (x # _) =
     (case key_of x of None \<Rightarrow> Inl InvalidData | Some k \<Rightarrow> Inr (k, 1))"

text \<open>
  postcard: \<open>to_slice\<close> into a buffer of the given length, or nothing when it does not fit;
  \<open>from_bytes\<close>.  The locale is its contract: what was encoded decodes to the same value.
\<close>

record 'v postcard =
  pc_to_slice :: "'v \<Rightarrow> nat \<Rightarrow> u8 list option"
  pc_from_bytes :: "u8 list \<Rightarrow> 'v option"

locale postcard_codec =
  fixes pc :: "'v postcard"
  assumes decode_encode: "pc_to_slice pc v n = Some bs \<Longrightarrow> pc_from_bytes pc bs = Some v"
    and encode_fits: "pc_to_slice pc v n = Some bs \<Longrightarrow> length bs \<le> n"

text \<open>\<open>Wrapper\<close>, the value of the flash map.\<close>

definition value_serialize_into :: "'v postcard \<Rightarrow> 'v \<Rightarrow> u8 list \<Rightarrow> ser_error + nat \<times> u8 list" where
  "value_serialize_into pc v buffer =
     (case pc_to_slice pc v (length buffer) of
        None \<Rightarrow> Inl BufferTooSmall
      | Some bs \<Rightarrow> Inr (length bs, bs @ drop (length bs) buffer))"

definition value_deserialize_from :: "'v postcard \<Rightarrow> u8 list \<Rightarrow> ser_error + 'v" where
  "value_deserialize_from pc bs =
     (case pc_from_bytes pc bs of None \<Rightarrow> Inl InvalidData | Some v \<Rightarrow> Inr v)"

text \<open>The trait \<open>StorageEntry\<close>: the key of a type with its encoding.\<close>

record 'v storage_entry =
  entry_key :: storage_key
  entry_pc :: "'v postcard"

section \<open>The flash map\<close>

text \<open>
  The three functions of sequential-storage over a flash \<open>'f\<close>, with errors \<open>'se\<close>: the range
  of the partition, the size of the scratch buffer, the serializers of the key and the value.
  \<open>ss_fetch\<close> answers with the bytes that the crate hands to \<open>Value::deserialize_from\<close>, whose
  error it returns wrapped, \<open>ss_ser_error\<close>.
\<close>

type_synonym flash_range = "u32 \<times> u32"
type_synonym serializer = "u8 list \<Rightarrow> ser_error + nat \<times> u8 list"

record ('f, 'se) seq_storage =
  ss_fetch :: "flash_range \<Rightarrow> nat \<Rightarrow> serializer \<Rightarrow> 'f \<Rightarrow> ('se + u8 list option) \<times> 'f"
  ss_store :: "flash_range \<Rightarrow> nat \<Rightarrow> serializer \<Rightarrow> serializer \<Rightarrow> 'f \<Rightarrow> ('se + unit) \<times> 'f"
  ss_erase_all :: "flash_range \<Rightarrow> 'f \<Rightarrow> ('se + unit) \<times> 'f"
  ss_ser_error :: "ser_error \<Rightarrow> 'se"

text \<open>
  The documented behaviour: a map from key bytes to value bytes for each range of the flash.  The
  key is serialized at the start of the buffer and the value behind it.  Any call may fail; what
  is said is what a successful one does.
\<close>

locale seq_map =
  fixes ss :: "('f, 'se) seq_storage"
    and items :: "flash_range \<Rightarrow> 'f \<Rightarrow> u8 list \<Rightarrow> u8 list option"
  assumes fetch_item: "ss_fetch ss rng n ks f = (Inr r, f') \<Longrightarrow> ks (replicate n 0) = Inr (kl, kb) \<Longrightarrow>
      r = items rng f (take kl kb) \<and> items rng f' = items rng f"
    and fetch_failed: "ss_fetch ss rng n ks f = (Inl e, f') \<Longrightarrow> items rng f' = items rng f"
    and store_item: "ss_store ss rng n ks vs f = (Inr (), f') \<Longrightarrow>
      \<exists>kl kb vl vb. ks (replicate n 0) = Inr (kl, kb) \<and> vs (drop kl kb) = Inr (vl, vb) \<and>
        items rng f' = (items rng f)(take kl kb \<mapsto> take vl vb)"
    and erase_all: "ss_erase_all ss rng f = (Inr (), f') \<Longrightarrow> items rng f' = Map.empty"

section \<open>The storage system\<close>

definition BUFFER_SIZE :: nat where "BUFFER_SIZE = 128"

datatype partition_type = DataNvs | OtherPartition

record partition_entry =
  part_type :: partition_type
  part_offset :: u32
  part_size :: u32

definition part_range :: "profile \<Rightarrow> partition_entry \<Rightarrow> flash_range option" where
  "part_range p e = do {
     last \<leftarrow> rust_add p (part_offset e) (part_size e);
     Some (part_offset e, last) }"

datatype 'se storage_error = Serialization ser_error | Flash 'se

definition storage_fetch :: "profile \<Rightarrow> ('f, 'se) seq_storage \<Rightarrow> partition_entry \<Rightarrow>
    'v storage_entry \<Rightarrow> ('f, 'se storage_error, 'v option) act" where
  "storage_fetch p ss part ent =
     bindA (unwrapO (part_range p part)) (\<lambda>rng.
     bindA (map_errA Flash
              (liftR (ss_fetch ss rng BUFFER_SIZE (key_serialize_into (entry_key ent))))) (\<lambda>res.
       case res of
         None \<Rightarrow> ret None
       | Some bs \<Rightarrow>
           (case value_deserialize_from (entry_pc ent) bs of
              Inl e \<Rightarrow> fail (Flash (ss_ser_error ss e))
            | Inr v \<Rightarrow> ret (Some v))))"

definition storage_store :: "profile \<Rightarrow> ('f, 'se) seq_storage \<Rightarrow> partition_entry \<Rightarrow>
    'v storage_entry \<Rightarrow> 'v \<Rightarrow> ('f, 'se storage_error, unit) act" where
  "storage_store p ss part ent value =
     bindA (unwrapO (part_range p part)) (\<lambda>rng.
       map_errA Flash
         (liftR (ss_store ss rng BUFFER_SIZE (key_serialize_into (entry_key ent))
            (value_serialize_into (entry_pc ent) value))))"

definition marker_entry :: "unit postcard \<Rightarrow> unit storage_entry" where
  "marker_entry pc = \<lparr>entry_key = KMarker, entry_pc = pc\<rparr>"

text \<open>Anything but a marker -- none, or a storage that cannot be read -- erases the partition.\<close>

definition ensure_initialized :: "profile \<Rightarrow> ('f, 'se) seq_storage \<Rightarrow> partition_entry \<Rightarrow>
    unit postcard \<Rightarrow> ('f, 'se storage_error, unit) act" where
  "ensure_initialized p ss part pc f =
     (let initialize =
        bindA (unwrapO (part_range p part)) (\<lambda>rng.
        seqA (map_errA Flash (liftR (ss_erase_all ss rng)))
             (storage_store p ss part (marker_entry pc) ()))
      in case storage_fetch p ss part (marker_entry pc) f of
        (Ok (Some _), f') \<Rightarrow> (Ok (), f')
      | (Ok None, f') \<Rightarrow> initialize f'
      | (Err _, f') \<Rightarrow> initialize f'
      | (Panic, f') \<Rightarrow> (Panic, f')
      | (Pending, f') \<Rightarrow> (Pending, f'))"

text \<open>
  The scan of the partition table: an entry that cannot be read panics, the last NVS partition
  is kept.
\<close>

fun scan_partitions ::
  "('x + partition_entry) list \<Rightarrow> partition_entry option \<Rightarrow> ('s, 'e, partition_entry option) act"
where
  "scan_partitions [] found_nvs = ret found_nvs"
| "scan_partitions (Inl _ # _) found_nvs = panic"
| "scan_partitions (Inr entry # rest) found_nvs =
     scan_partitions rest (if part_type entry = DataNvs then Some entry else found_nvs)"

definition storage_init :: "profile \<Rightarrow> ('f, 'se) seq_storage \<Rightarrow> unit postcard \<Rightarrow>
    ('x + partition_entry) list \<Rightarrow> ('f, 'e, partition_entry) act" where
  "storage_init p ss pc table =
     bindA (scan_partitions table None) (\<lambda>found_nvs.
     bindA (unwrapO found_nvs) (\<lambda>part.
     seqA (unwrapA (ensure_initialized p ss part pc)) (ret part)))"

text \<open>
  \<open>Storage\<close> is the storage behind its mutex: \<open>Storage::store\<close> and \<open>Storage::fetch\<close> wait while another call
  holds the lock, and give it back when they return, with an error or without.  A call that panics never
  gives it back.
\<close>

record 'f storage =
  sto_locked :: bool
  sto_flash :: 'f

definition storage_locking :: "('f, 'e, 'a) act \<Rightarrow> ('f storage, 'e, 'a) act" where
  "storage_locking inner s =
     (if sto_locked s then (Pending, s)
      else case inner (sto_flash s) of
        (Ok x, f) \<Rightarrow> (Ok x, s\<lparr>sto_flash := f\<rparr>)
      | (Err e, f) \<Rightarrow> (Err e, s\<lparr>sto_flash := f\<rparr>)
      | (Panic, f) \<Rightarrow> (Panic, s\<lparr>sto_flash := f, sto_locked := True\<rparr>)
      | (Pending, f) \<Rightarrow> (Pending, s\<lparr>sto_flash := f, sto_locked := True\<rparr>))"

definition storage_system_store :: "profile \<Rightarrow> ('f, 'se) seq_storage \<Rightarrow> partition_entry \<Rightarrow>
    'v storage_entry \<Rightarrow> 'v \<Rightarrow> ('f storage, 'se storage_error, unit) act" where
  "storage_system_store p ss part ent value = storage_locking (storage_store p ss part ent value)"

definition storage_system_fetch :: "profile \<Rightarrow> ('f, 'se) seq_storage \<Rightarrow> partition_entry \<Rightarrow>
    'v storage_entry \<Rightarrow> ('f storage, 'se storage_error, 'v option) act" where
  "storage_system_fetch p ss part ent = storage_locking (storage_fetch p ss part ent)"

section \<open>The contract of one entry\<close>

text \<open>
  What the other systems rely on: \<open>stored\<close> is the value kept under their key.
\<close>

locale kv_entry =
  fixes fetch :: "('f, 'e, 'v option) act"
    and store :: "'v \<Rightarrow> ('f, 'e, unit) act"
    and stored :: "'f \<Rightarrow> 'v option"
  assumes fetch_stored: "fetch f = (Ok r, f') \<Longrightarrow> r = stored f \<and> stored f' = stored f"
    and store_stored: "store v f = (Ok (), f') \<Longrightarrow> stored f' = Some v"
begin

lemma store_then_fetch:
  assumes "store v f = (Ok (), f1)" "fetch f1 = (Ok r, f2)"
  shows "r = Some v"
  using store_stored [OF assms(1)] fetch_stored [OF assms(2)] by simp

end

definition stored_entry :: "(flash_range \<Rightarrow> 'f \<Rightarrow> u8 list \<Rightarrow> u8 list option) \<Rightarrow> profile \<Rightarrow>
    partition_entry \<Rightarrow> 'v storage_entry \<Rightarrow> 'f \<Rightarrow> 'v option" where
  "stored_entry items p part ent f = do {
     rng \<leftarrow> part_range p part;
     bs \<leftarrow> items rng f [key_code (entry_key ent)];
     pc_from_bytes (entry_pc ent) bs }"

lemma key_serialized:
  "key_serialize_into k (replicate BUFFER_SIZE 0) = Inr (1, key_code k # replicate 127 0)"
  by (simp add: BUFFER_SIZE_def numeral_eq_Suc)

lemma key_code_inj [simp]: "key_code k = key_code k' \<longleftrightarrow> k = k'"
  by (cases k; cases k') simp_all

locale seq_storage_entry = seq_map ss items + postcard_codec "entry_pc ent"
  for ss :: "('f, 'se) seq_storage" and items and ent :: "'v storage_entry" +
  fixes p :: profile and part :: partition_entry
begin

lemma fetch_spec:
  assumes "storage_fetch p ss part ent f = (Ok r, f')"
  shows "r = stored_entry items p part ent f" and "part_range p part = Some rng \<Longrightarrow> items rng f' = items rng f"
proof -
  from assms obtain rng' res where rng': "part_range p part = Some rng'"
    and fetch: "ss_fetch ss rng' BUFFER_SIZE (key_serialize_into (entry_key ent)) f = (Inr res, f')"
    and r: "(case res of None \<Rightarrow> ret None | Some bs \<Rightarrow>
      (case value_deserialize_from (entry_pc ent) bs of Inl e \<Rightarrow> fail (Flash (ss_ser_error ss e))
       | Inr v \<Rightarrow> ret (Some v))) f' = (Ok r, f')"
    unfolding storage_fetch_def act_Ok_iff by (fastforce split: option.splits sum.splits)
  from fetch_item [OF fetch key_serialized]
  have res: "res = items rng' f [key_code (entry_key ent)]" and same: "items rng' f' = items rng' f"
    by simp_all
  from r show "r = stored_entry items p part ent f"
    by (auto simp: stored_entry_def rng' res [symmetric] value_deserialize_from_def
        split: option.splits)
  show "part_range p part = Some rng \<Longrightarrow> items rng f' = items rng f" using same rng' by simp
qed

lemma store_spec:
  assumes "storage_store p ss part ent v f = (Ok (), f')"
  shows "\<exists>rng bs. part_range p part = Some rng \<and> pc_from_bytes (entry_pc ent) bs = Some v
    \<and> items rng f' = (items rng f)([key_code (entry_key ent)] \<mapsto> bs)"
proof -
  from assms obtain rng where rng: "part_range p part = Some rng"
    and store: "ss_store ss rng BUFFER_SIZE (key_serialize_into (entry_key ent))
      (value_serialize_into (entry_pc ent) v) f = (Inr (), f')"
    unfolding storage_store_def act_Ok_iff by auto
  from store_item [OF store] key_serialized obtain vl vb where
    vs: "value_serialize_into (entry_pc ent) v (replicate 127 0) = Inr (vl, vb)"
    and items: "items rng f' = (items rng f)([key_code (entry_key ent)] \<mapsto> take vl vb)"
    by auto
  from vs obtain bs where bs: "pc_to_slice (entry_pc ent) v 127 = Some bs" and "take vl vb = bs"
    by (auto simp: value_serialize_into_def split: option.splits)
  with decode_encode [OF bs] rng items show ?thesis by blast
qed

text \<open>The system keeps the contract of an entry, for every partition and encoding.\<close>

sublocale kv_entry "storage_fetch p ss part ent" "storage_store p ss part ent"
  "stored_entry items p part ent"
proof
  fix f r f'
  assume ok: "storage_fetch p ss part ent f = (Ok r, f')"
  from fetch_spec(2) [OF ok] have "stored_entry items p part ent f' = stored_entry items p part ent f"
    by (cases "part_range p part") (simp_all add: stored_entry_def)
  with fetch_spec(1) [OF ok] show "r = stored_entry items p part ent f \<and>
      stored_entry items p part ent f' = stored_entry items p part ent f" by simp
next
  fix v f f'
  assume "storage_store p ss part ent v f = (Ok (), f')"
  from store_spec [OF this] show "stored_entry items p part ent f' = Some v"
    by (auto simp: stored_entry_def)
qed

lemma contract:
  "kv_entry (storage_fetch p ss part ent) (storage_store p ss part ent)
     (stored_entry items p part ent)"
  by unfold_locales

text \<open>Storing one entry leaves the others.\<close>

lemma store_other:
  assumes "storage_store p ss part ent v f = (Ok (), f')" "entry_key other \<noteq> entry_key ent"
  shows "stored_entry items p part other f' = stored_entry items p part other f"
  using store_spec [OF assms(1)] assms(2) by (auto simp: stored_entry_def)

end

section \<open>Providers of the parameters\<close>

text \<open>A flash that is the map itself, with serializers run on the scratch buffer.\<close>

type_synonym ref_flash = "flash_range \<Rightarrow> u8 list \<Rightarrow> u8 list option"

definition ref_ss :: "(ref_flash, ser_error) seq_storage" where
  "ref_ss = \<lparr>
     ss_fetch = (\<lambda>rng n ks f. case ks (replicate n 0) of
         Inl e \<Rightarrow> (Inl e, f)
       | Inr (kl, kb) \<Rightarrow> (Inr (f rng (take kl kb)), f)),
     ss_store = (\<lambda>rng n ks vs f. case ks (replicate n 0) of
         Inl e \<Rightarrow> (Inl e, f)
       | Inr (kl, kb) \<Rightarrow> (case vs (drop kl kb) of
             Inl e \<Rightarrow> (Inl e, f)
           | Inr (vl, vb) \<Rightarrow> (Inr (), f(rng := (f rng)(take kl kb \<mapsto> take vl vb))))),
     ss_erase_all = (\<lambda>rng f. (Inr (), f(rng := Map.empty))),
     ss_ser_error = (\<lambda>e. e)\<rparr>"

interpretation rss: seq_map ref_ss "\<lambda>rng f. f rng"
  by unfold_locales (auto simp: ref_ss_def split: sum.splits prod.splits)

definition unit_pc :: "unit postcard" where
  "unit_pc = \<lparr>pc_to_slice = (\<lambda>_ _. Some []), pc_from_bytes = (\<lambda>_. Some ())\<rparr>"

interpretation unit_pc: postcard_codec unit_pc
  by unfold_locales (auto simp: unit_pc_def)

definition ref_nvs :: partition_entry where
  "ref_nvs = \<lparr>part_type = DataNvs, part_offset = 0x9000, part_size = 0x6000\<rparr>"

interpretation ref_marker: seq_storage_entry ref_ss "\<lambda>rng f. f rng" "marker_entry unit_pc" Release ref_nvs
  by unfold_locales (auto simp: marker_entry_def unit_pc_def)

section \<open>Properties\<close>

lemma seq_storage_entryI:
  "seq_map ss items \<Longrightarrow> postcard_codec (entry_pc ent) \<Longrightarrow> seq_storage_entry ss items ent"
  by (rule seq_storage_entry.intro)

text \<open>The flash is blocking, so that no call waits while it holds the lock: a lock that is free stays free.\<close>

lemma storage_not_pending:
  "storage_store p ss part ent v f \<noteq> (Pending, g)" "storage_fetch p ss part ent f \<noteq> (Pending, g)"
  by (auto simp: storage_store_def storage_fetch_def bindA_def unwrapO_def ret_def fail_def panic_def map_errA_def liftR_def
      split: option.splits sum.splits prod.splits bind_splits)

lemma locking_Ok_iff:
  "storage_locking inner s = (Ok x, s') \<longleftrightarrow>
   \<not> sto_locked s \<and> (\<exists>f. inner (sto_flash s) = (Ok x, f) \<and> s' = s\<lparr>sto_flash := f\<rparr>)"
  by (auto simp: storage_locking_def split: prod.splits outcome.splits)

lemma locking_returns:
  assumes "\<not> sto_locked s" "\<And>g. inner (sto_flash s) \<noteq> (Pending, g)"
  shows "fst (storage_locking inner s) = fst (inner (sto_flash s))"
    and "fst (storage_locking inner s) \<noteq> Pending"
    and "fst (storage_locking inner s) \<noteq> Panic \<Longrightarrow> \<not> sto_locked (snd (storage_locking inner s))"
  using assms by (auto simp: storage_locking_def split: prod.splits outcome.splits)

text \<open>C34: What \<open>Storage::store\<close> stored is what \<open>Storage::fetch\<close> returns next for that type, and storing
  one type does not change what is fetched for a type with another key.  After a store that returned the lock
  is free, and a call that finds it free never waits, and leaves it free unless it panics.\<close>

theorem storage_store_fetch:
  assumes "seq_map ss items" "postcard_codec (entry_pc ent)" "postcard_codec (entry_pc other)"
    and "storage_system_store p ss part ent v s = (Ok (), s1)" "storage_system_fetch p ss part ent s1 = (Ok r, s2)"
    and "entry_key other \<noteq> entry_key ent"
    and "storage_system_fetch p ss part other s = (Ok q, t)" "storage_system_fetch p ss part other s1 = (Ok q1, t1)"
  shows "r = Some v \<and> q1 = q \<and> \<not> sto_locked s1
    \<and> (\<forall>u res u'. storage_system_store p ss part ent u s2 = (res, u') \<longrightarrow>
        res \<noteq> Pending \<and> (res \<noteq> Panic \<longrightarrow> \<not> sto_locked u'))"
proof -
  note ent = seq_storage_entryI [OF assms(1,2)]
  note other = seq_storage_entryI [OF assms(1,3)]
  note calls = storage_system_store_def storage_system_fetch_def
  from assms(4) [unfolded calls locking_Ok_iff] obtain f1 where free: "\<not> sto_locked s"
    and st: "storage_store p ss part ent v (sto_flash s) = (Ok (), f1)" and s1: "s1 = s\<lparr>sto_flash := f1\<rparr>" by auto
  from assms(5) [unfolded calls locking_Ok_iff] obtain f2 where
    ft: "storage_fetch p ss part ent f1 = (Ok r, f2)" and s2: "s2 = s1\<lparr>sto_flash := f2\<rparr>" by (auto simp: s1)
  have "r = Some v"
    by (rule kv_entry.store_then_fetch [OF seq_storage_entry.contract [OF ent] st ft])
  moreover have "q1 = q"
    using seq_storage_entry.fetch_spec(1) [OF other] seq_storage_entry.store_other [OF ent st assms(6)]
      assms(7,8) [unfolded calls locking_Ok_iff] by (auto simp: s1)
  moreover have "\<not> sto_locked s2" using free by (simp add: s1 s2)
  then have "\<forall>u res u'. storage_system_store p ss part ent u s2 = (res, u') \<longrightarrow>
      res \<noteq> Pending \<and> (res \<noteq> Panic \<longrightarrow> \<not> sto_locked u')"
    using locking_returns(2,3) [of s2] storage_not_pending(1) [of p ss part ent] by (metis calls(1) fst_conv snd_conv)
  ultimately show ?thesis using free by (simp add: s1)
qed

theorem storage_store_fetch_witness:
  "\<exists>s1 s2. storage_system_store Release ref_ss ref_nvs (marker_entry unit_pc) () \<lparr>sto_locked = False, sto_flash = (\<lambda>_ _. None)\<rparr>
      = (Ok (), s1)
    \<and> storage_system_fetch Release ref_ss ref_nvs (marker_entry unit_pc) s1 = (Ok (Some ()), s2)"
proof -
  let ?other = "\<lparr>entry_key = KRecordData, entry_pc = unit_pc\<rparr>"
  let ?s = "\<lparr>sto_locked = False, sto_flash = (\<lambda>_ _. None)\<rparr> :: ref_flash storage"
  note run = storage_store_def storage_fetch_def part_range_def ref_ss_def bindA_def map_errA_def
    liftR_def key_serialized marker_entry_def unit_pc_def value_serialize_into_def
    value_deserialize_from_def ret_def BUFFER_SIZE_def numeral_eq_Suc
  note calls = storage_system_store_def storage_system_fetch_def storage_locking_def
  obtain s1 r s2 where st: "storage_system_store Release ref_ss ref_nvs (marker_entry unit_pc) () ?s = (Ok (), s1)"
    and ft: "storage_system_fetch Release ref_ss ref_nvs (marker_entry unit_pc) s1 = (Ok r, s2)"
    and s1: "\<not> sto_locked s1" "\<And>rng. sto_flash s1 rng [2] = None"
    by (simp add: calls run)
  have fetch: "storage_system_fetch Release ref_ss ref_nvs ?other s = (Ok None, s)"
    if "\<not> sto_locked s" "\<And>rng. sto_flash s rng [2] = None" for s
    using that by (simp add: calls run)
  have "r = Some ()"
    using storage_store_fetch [OF rss.seq_map_axioms _ _ st ft _ fetch fetch] s1
    by (simp add: marker_entry_def unit_pc.postcard_codec_axioms)
  with st ft show ?thesis by auto
qed

text \<open>A partition that holds the marker is left as it is; any other is erased and marked.\<close>

lemma ensure_initialized_cases:
  assumes "ensure_initialized p ss part pc f = (Ok (), f')"
  obtains (marked) "storage_fetch p ss part (marker_entry pc) f = (Ok (Some ()), f')"
    | (erased) f1 f2 rng where "\<forall>g. storage_fetch p ss part (marker_entry pc) f \<noteq> (Ok (Some ()), g)"
      "part_range p part = Some rng" "ss_erase_all ss rng f1 = (Inr (), f2)"
      "storage_store p ss part (marker_entry pc) () f2 = (Ok (), f')"
proof -
  obtain r g where g: "storage_fetch p ss part (marker_entry pc) f = (r, g)" by fastforce
  show thesis
  proof (cases "r = Ok (Some ())")
    case True
    with assms g have "storage_fetch p ss part (marker_entry pc) f = (Ok (Some ()), f')"
      by (simp add: ensure_initialized_def Let_def)
    then show thesis by (rule marked)
  next
    case False
    have "bindA (unwrapO (part_range p part)) (\<lambda>rng.
        seqA (map_errA Flash (liftR (ss_erase_all ss rng)))
             (storage_store p ss part (marker_entry pc) ())) g = (Ok (), f')"
      using assms False unfolding ensure_initialized_def Let_def g
      by (auto split: outcome.splits option.splits)
    then obtain rng f2 where "part_range p part = Some rng" "ss_erase_all ss rng g = (Inr (), f2)"
      "storage_store p ss part (marker_entry pc) () f2 = (Ok (), f')"
      unfolding act_Ok_iff by auto
    with False g erased show thesis by simp
  qed
qed

lemma ensure_initialized_entries:
  assumes "seq_map ss items" "postcard_codec pc" "postcard_codec (entry_pc ent)"
    and "ensure_initialized p ss part pc f = (Ok (), f')" "entry_key ent \<noteq> KMarker"
  shows "stored_entry items p part (marker_entry pc) f' = Some ()
    \<and> (if \<exists>g. storage_fetch p ss part (marker_entry pc) f = (Ok (Some ()), g)
       then stored_entry items p part ent f' = stored_entry items p part ent f
       else stored_entry items p part ent f' = None)"
  using assms(4)
proof (cases rule: ensure_initialized_cases)
  case marked
  have marker: "seq_storage_entry ss items (marker_entry pc)"
    using assms(1,2) by (auto intro: seq_storage_entryI simp: marker_entry_def)
  obtain rng where rng: "part_range p part = Some rng"
    using marked by (auto simp: storage_fetch_def act_Ok_iff)
  have "items rng f' = items rng f"
    by (rule seq_storage_entry.fetch_spec(2) [OF marker marked rng])
  moreover have "stored_entry items p part (marker_entry pc) f = Some ()"
    using seq_storage_entry.fetch_spec(1) [OF marker marked] by simp
  ultimately show ?thesis using marked by (simp add: stored_entry_def rng)
next
  case (erased f1 f2 rng)
  have marker: "seq_storage_entry ss items (marker_entry pc)"
    using assms(1,2) by (auto intro: seq_storage_entryI simp: marker_entry_def)
  have "items rng f2 = Map.empty" by (rule seq_map.erase_all [OF assms(1) erased(3)])
  moreover have "key_code (entry_key ent) \<noteq> 1" using assms(5) by (cases "entry_key ent") simp_all
  ultimately show ?thesis
    using seq_storage_entry.store_spec [OF marker erased(4)] erased(1,2)
    by (auto simp: stored_entry_def marker_entry_def)
qed

text \<open>C35: When \<open>ensure_initialized\<close> returns, the marker is stored.  Either a marker was read at the
  start, and then every entry of the partition is as before; or there was none, or the read
  failed, and then nothing but the marker is left: every other entry is gone.\<close>

theorem ensure_initialized_marks:
  assumes "seq_map ss items" "postcard_codec pc" "postcard_codec (entry_pc ent)"
    and "ensure_initialized p ss part pc f = (Ok (), f')" "entry_key ent \<noteq> KMarker"
  shows "stored_entry items p part (marker_entry pc) f' = Some ()
    \<and> (if \<exists>g. storage_fetch p ss part (marker_entry pc) f = (Ok (Some ()), g)
       then stored_entry items p part ent f' = stored_entry items p part ent f
       else stored_entry items p part ent f' = None)"
  by (rule ensure_initialized_entries [OF assms])

theorem ensure_initialized_marks_witness:
  "\<exists>f'. ensure_initialized Release ref_ss ref_nvs unit_pc (\<lambda>_ _. None) = (Ok (), f')
    \<and> stored_entry (\<lambda>rng f. f rng) Release ref_nvs (marker_entry unit_pc) f' = Some ()"
proof -
  note run = ensure_initialized_def storage_store_def storage_fetch_def part_range_def ref_ss_def
    bindA_def map_errA_def liftR_def marker_entry_def unit_pc_def value_serialize_into_def
    value_deserialize_from_def ret_def BUFFER_SIZE_def numeral_eq_Suc
  obtain f' where f': "ensure_initialized Release ref_ss ref_nvs unit_pc (\<lambda>_ _. None) = (Ok (), f')"
    by (simp add: run)
  show ?thesis
    using ensure_initialized_marks [OF rss.seq_map_axioms unit_pc.postcard_codec_axioms _ f',
        of "\<lparr>entry_key = KRecordData, entry_pc = unit_pc\<rparr>"]
    by (simp add: f' unit_pc.postcard_codec_axioms)
qed

text \<open>A key survives the trip through its bytes, whatever follows them, and no byte but 1, 2 and 3
  is read as a key; an empty buffer is refused on both ways.\<close>

theorem storage_key_roundtrip:
  "(case key_serialize_into k buffer of
      Inr (n, out) \<Rightarrow> buffer \<noteq> [] \<and> key_deserialize_from (take n out @ rest) = Inr (k, n)
    | Inl e \<Rightarrow> buffer = [] \<and> e = BufferTooSmall)
   \<and> (key_deserialize_from (x # rest) = Inr (k', m) \<longleftrightarrow> x = key_code k' \<and> m = 1)
   \<and> (key_deserialize_from (x # rest) = Inl InvalidData \<longleftrightarrow> x \<notin> {1, 2, 3})
   \<and> key_deserialize_from [] = Inl InvalidFormat"
proof -
  have key_of: "key_of x = Some k \<longleftrightarrow> x = key_code k" for x k
    by (cases k) (auto simp: key_of_def)
  have none: "key_of x = None \<longleftrightarrow> x \<notin> {1, 2, 3}" by (auto simp: key_of_def)
  have same: "key_of (key_code k) = Some k" for k by (simp add: key_of)
  have "(case key_serialize_into k buffer of
      Inr (n, out) \<Rightarrow> buffer \<noteq> [] \<and> key_deserialize_from (take n out @ rest) = Inr (k, n)
    | Inl e \<Rightarrow> buffer = [] \<and> e = BufferTooSmall)"
    by (cases buffer) (simp_all add: same)
  moreover have "key_deserialize_from (x # rest) = Inr (k', m) \<longleftrightarrow> x = key_code k' \<and> m = 1"
    using key_of [of x] same by (auto split: option.splits)
  moreover have "key_deserialize_from (x # rest) = Inl InvalidData \<longleftrightarrow> x \<notin> {1, 2, 3}"
    using none by (auto split: option.splits)
  ultimately show ?thesis by simp
qed

text \<open>The scan over a table that can be read keeps the last NVS partition.\<close>

lemma scan_partitions_readable:
  "scan_partitions (map Inr es) found =
     ret (if \<exists>e \<in> set es. part_type e = DataNvs
          then Some (last (filter (\<lambda>e. part_type e = DataNvs) es)) else found)"
proof (induction es arbitrary: found)
  case (Cons e es)
  then show ?case by (auto simp: filter_empty_conv)
qed simp

lemma scan_partitions_unreadable:
  "Inl x \<in> set table \<Longrightarrow> scan_partitions table found = panic"
proof (induction table arbitrary: found)
  case (Cons t table)
  then show ?case by (cases t) auto
qed simp

lemma scan_partitions_eq:
  "scan_partitions (map Inr es) None =
     ret (if filter (\<lambda>e. part_type e = DataNvs) es = [] then None
          else Some (last (filter (\<lambda>e. part_type e = DataNvs) es)))"
  by (simp add: scan_partitions_readable filter_empty_conv)

text \<open>\<open>Storage::init\<close> uses the last NVS partition of the table.  It panics on a table with an entry
  that cannot be read, wherever it stands, on one without an NVS partition, and when the
  partition cannot be initialised.\<close>

theorem storage_init_partition:
  fixes table :: "('x + partition_entry) list"
  shows "storage_init p ss pc table f =
     (if Inl () \<in> map_sum (\<lambda>_. ()) id ` set table then (Panic, f)
      else case filter (\<lambda>e. part_type e = DataNvs) (map projr table) of
        [] \<Rightarrow> (Panic, f)
      | nvs \<Rightarrow> (case ensure_initialized p ss (last nvs) pc f of
            (Ok _, f') \<Rightarrow> (Ok (last nvs), f')
          | (Err _, f') \<Rightarrow> (Panic, f')
          | (Panic, f') \<Rightarrow> (Panic, f')
          | (Pending, f') \<Rightarrow> (Pending, f')))"
proof (cases "Inl () \<in> map_sum (\<lambda>_. ()) id ` set table")
  case True
  then obtain t where t: "t \<in> set table" "map_sum (\<lambda>_. ()) id t = Inl ()" by (metis imageE)
  from t(2) obtain x where "t = Inl x" by (cases t) simp_all
  with t(1) have "Inl x \<in> set table" by simp
  then show ?thesis using True
    by (simp add: storage_init_def scan_partitions_unreadable panic_apply)
next
  case False
  have "t = Inr (projr t)" if "t \<in> set table" for t
  proof (cases t)
    case (Inl x)
    with that have "map_sum (\<lambda>_. ()) id (Inl x) \<in> map_sum (\<lambda>_. ()) id ` set table" by blast
    with False show ?thesis by simp
  qed simp
  then have table: "table = map Inr (map projr table)"
    by (simp add: map_idI [symmetric] cong: map_cong)
  let ?nvs = "filter (\<lambda>e. part_type e = DataNvs) (map projr table)"
  have scan: "scan_partitions table None = ret (if ?nvs = [] then None else Some (last ?nvs))"
    by (subst table) (rule scan_partitions_eq)
  obtain r f' where run: "ensure_initialized p ss (last ?nvs) pc f = (r, f')"
    by (cases "ensure_initialized p ss (last ?nvs) pc f")
  show ?thesis
  proof (cases ?nvs)
    case Nil
    then show ?thesis using False by (simp add: storage_init_def scan panic_apply)
  next
    case (Cons part rest)
    with run have "ensure_initialized p ss (last (part # rest)) pc f = (r, f')" by simp
    then show ?thesis using False
      by (cases r) (simp_all add: storage_init_def scan Cons bindA_def ret_def unwrapA_def)
  qed
qed

end
