(* ===== verification/Embassy.thy ===== *)
theory Embassy
  imports Prelude
begin

text \<open>
  The parts of the embassy crates the systems are built on, as parameters with their documented
  behaviour: durations, bounded strings and channels and publish-subscribe channels.  A mutex needs no
  operation of its own: what a task does while it holds one is a single step of a model.
\<close>

section \<open>Time\<close>

text \<open>
  An \<open>Instant\<close> is a number of ticks since start-up, a \<open>Duration\<close> a number of ticks; how many
  ticks a second has is a choice of the build, behind the conversions.  Ticks do not wrap: a
  \<open>u64\<close> of microseconds lasts for half a million years.
\<close>

type_synonym instant = nat
type_synonym duration = nat

record time_ops =
  from_secs :: "nat \<Rightarrow> duration"
  from_millis :: "nat \<Rightarrow> duration"
  as_secs :: "duration \<Rightarrow> nat"

locale embassy_time =
  fixes tm :: time_ops
  assumes from_secs_mono: "a \<le> b \<Longrightarrow> from_secs tm a \<le> from_secs tm b"
    and as_from_secs: "as_secs tm (from_secs tm n) = n"
    and as_secs_mono: "a \<le> b \<Longrightarrow> as_secs tm a \<le> as_secs tm b"

definition ref_tm :: time_ops where
  "ref_tm = \<lparr>from_secs = (\<lambda>n. n * 1000000), from_millis = (\<lambda>n. n * 1000),
     as_secs = (\<lambda>d. d div 1000000)\<rparr>"

interpretation rtm: embassy_time ref_tm
  by unfold_locales (simp_all add: ref_tm_def div_le_mono)

section \<open>Bounded strings\<close>

text \<open>\<open>String::try_from\<close> of heapless: a string of bounded capacity, in bytes.\<close>

definition bounded_string :: "nat \<Rightarrow> string \<Rightarrow> string option" where
  "bounded_string cap s = (if length s \<le> cap then Some s else None)"

section \<open>Bounded channels\<close>

text \<open>
  \<open>ch_send\<close> and \<open>ch_receive\<close> answer nothing where the \<open>await\<close> of the operation is not ready: a
  full channel, an empty one.
\<close>

record ('c, 'a) channel_ops =
  ch_new :: 'c
  ch_send :: "'a \<Rightarrow> 'c \<Rightarrow> 'c option"
  ch_receive :: "'c \<Rightarrow> ('a \<times> 'c) option"

locale bounded_channel =
  fixes ch :: "('c, 'a) channel_ops" and queued :: "'c \<Rightarrow> 'a list" and cap :: nat
  assumes new_empty: "queued (ch_new ch) = []"
    and send_room: "length (queued c) < cap \<Longrightarrow> \<exists>c'. ch_send ch x c = Some c' \<and> queued c' = queued c @ [x]"
    and send_full: "cap \<le> length (queued c) \<Longrightarrow> ch_send ch x c = None"
    and receive_some: "queued c = x # xs \<Longrightarrow> \<exists>c'. ch_receive ch c = Some (x, c') \<and> queued c' = xs"
    and receive_none: "queued c = [] \<Longrightarrow> ch_receive ch c = None"
begin

lemma send_Some: "ch_send ch x c = Some c' \<Longrightarrow> queued c' = queued c @ [x] \<and> length (queued c) < cap"
  using send_room [of c x] send_full [of c x] by (cases "length (queued c) < cap") auto

lemma receive_Some: "ch_receive ch c = Some (x, c') \<Longrightarrow> queued c = x # queued c'"
  using receive_some [of c] receive_none [of c] by (cases "queued c") force+

end

definition send_to :: "('c, 'a) channel_ops \<Rightarrow> 'a \<Rightarrow> ('c, 'e, unit) act" where
  "send_to ch x c = (case ch_send ch x c of None \<Rightarrow> (Pending, c) | Some c' \<Rightarrow> (Ok (), c'))"

definition receive_from :: "('c, 'a) channel_ops \<Rightarrow> ('c, 'e, 'a) act" where
  "receive_from ch c = (case ch_receive ch c of None \<Rightarrow> (Pending, c) | Some (x, c') \<Rightarrow> (Ok x, c'))"

text \<open>A provider: a list of at most \<open>n\<close> messages.\<close>

definition ref_ch :: "nat \<Rightarrow> ('a list, 'a) channel_ops" where
  "ref_ch n = \<lparr>ch_new = [],
     ch_send = (\<lambda>x c. if length c < n then Some (c @ [x]) else None),
     ch_receive = (\<lambda>c. case c of [] \<Rightarrow> None | x # xs \<Rightarrow> Some (x, xs))\<rparr>"

interpretation rch: bounded_channel "ref_ch n" "\<lambda>c. c" n for n
  by unfold_locales (simp_all add: ref_ch_def)

section \<open>Publish-subscribe channels\<close>

text \<open>
  The \<open>PubSubChannel\<close> of \<open>util.rs\<close>: \<open>publish\<close> waits for room in the queue, \<open>publish_immediate\<close>
  and never does, \<open>publisher\<close> fails when the publishers are used up.  \<open>history\<close> is what was
  published, \<open>publishers\<close> how many are alive, \<open>backlog\<close> how many messages some subscriber has not
  read.
\<close>

definition DATA_CAP :: nat where "DATA_CAP = 1"
definition DATA_SUBS :: nat where "DATA_SUBS = 4"
definition DATA_PUBS :: nat where "DATA_PUBS = 1"

record ('q, 'a) pubsub_ops =
  ps_new :: 'q
  ps_publisher :: "'q \<Rightarrow> 'q option"
  ps_drop_publisher :: "'q \<Rightarrow> 'q"
  ps_publish :: "'a \<Rightarrow> 'q \<Rightarrow> 'q option"
  ps_publish_immediate :: "'a \<Rightarrow> 'q \<Rightarrow> 'q"

locale pubsub =
  fixes ps :: "('q, 'a) pubsub_ops" and history :: "'q \<Rightarrow> 'a list"
    and publishers :: "'q \<Rightarrow> nat" and backlog :: "'q \<Rightarrow> nat"
  assumes new_channel: "history (ps_new ps) = []" "publishers (ps_new ps) = 0" "backlog (ps_new ps) = 0"
    and publisher_room: "publishers q < DATA_PUBS \<Longrightarrow> \<exists>q'. ps_publisher ps q = Some q' \<and>
      history q' = history q \<and> publishers q' = Suc (publishers q) \<and> backlog q' = backlog q"
    and publisher_full: "DATA_PUBS \<le> publishers q \<Longrightarrow> ps_publisher ps q = None"
    and drop_publisher: "history (ps_drop_publisher ps q) = history q"
      "publishers (ps_drop_publisher ps q) = publishers q - 1"
      "backlog (ps_drop_publisher ps q) = backlog q"
    and publish_room: "backlog q < DATA_CAP \<Longrightarrow> \<exists>q'. ps_publish ps x q = Some q' \<and>
      history q' = history q @ [x] \<and> publishers q' = publishers q \<and> backlog q' \<le> Suc (backlog q)"
    and publish_full: "DATA_CAP \<le> backlog q \<Longrightarrow> ps_publish ps x q = None"
    and publish_immediate: "history (ps_publish_immediate ps x q) = history q @ [x]"
      "publishers (ps_publish_immediate ps x q) = publishers q"
      "backlog (ps_publish_immediate ps x q) \<le> DATA_CAP"

definition take_publisher :: "('q, 'a) pubsub_ops \<Rightarrow> ('q, 'e, unit) act" where
  "take_publisher ps q = (case ps_publisher ps q of None \<Rightarrow> (Panic, q) | Some q' \<Rightarrow> (Ok (), q'))"

definition publish_to :: "('q, 'a) pubsub_ops \<Rightarrow> 'a \<Rightarrow> ('q, 'e, unit) act" where
  "publish_to ps x q = (case ps_publish ps x q of None \<Rightarrow> (Pending, q) | Some q' \<Rightarrow> (Ok (), q'))"

text \<open>
  \<open>take_publisher\<close> is \<open>publisher().unwrap()\<close>.  A provider that keeps the three counts; messages
  stay unread.
\<close>

definition ref_ps :: "('a list \<times> nat \<times> nat, 'a) pubsub_ops" where
  "ref_ps = \<lparr>ps_new = ([], 0, 0),
     ps_publisher = (\<lambda>(h, p, b). if p < 1 then Some (h, Suc p, b) else None),
     ps_drop_publisher = (\<lambda>(h, p, b). (h, p - 1, b)),
     ps_publish = (\<lambda>x (h, p, b). if b < 1 then Some (h @ [x], p, Suc b) else None),
     ps_publish_immediate = (\<lambda>x (h, p, b). (h @ [x], p, 1))\<rparr>"

interpretation rps: pubsub ref_ps fst "\<lambda>q. fst (snd q)" "\<lambda>q. snd (snd q)"
  by unfold_locales (auto simp: ref_ps_def DATA_PUBS_def DATA_CAP_def split: prod.split if_splits)

end
