(* ===== verification/Config.thy ===== *)
theory Config
  imports Units Storage Embassy
begin

text \<open>
  \<open>systems/config.rs\<close>: the settings of the device, kept in flash and published to the systems
  that act on them.  The state of a \<open>Config\<close> holds the settings behind its mutex, the flash its
  storage writes and its publish-subscribe channel.
\<close>

section \<open>Settings\<close>

record settings =
  vout_mv :: millivolts
  iout_ma :: milliamps
  backoff_ms :: u16

text \<open>\<open>SettingsBuilder\<close>: every field optional, as it is parsed from a message.\<close>

record settings_builder =
  builder_vout_mv :: "millivolts option"
  builder_iout_ma :: "milliamps option"
  builder_backoff_ms :: "u16 option"

definition settings_default :: settings where
  "settings_default =
     \<lparr>vout_mv = Millivolts 9000, iout_ma = Milliamps 500, backoff_ms = 500\<rparr>"

definition settings_integrate :: "settings_builder \<Rightarrow> settings \<Rightarrow> settings" where
  "settings_integrate value s0 =
     (let s1 = (case builder_vout_mv value of Some x \<Rightarrow> s0\<lparr>vout_mv := x\<rparr> | None \<Rightarrow> s0);
          s2 = (case builder_iout_ma value of Some x \<Rightarrow> s1\<lparr>iout_ma := x\<rparr> | None \<Rightarrow> s1)
      in case builder_backoff_ms value of Some x \<Rightarrow> s2\<lparr>backoff_ms := x\<rparr> | None \<Rightarrow> s2)"

definition settings_entry :: "settings postcard \<Rightarrow> settings storage_entry" where
  "settings_entry pc = \<lparr>entry_key = KConfigSettings, entry_pc = pc\<rparr>"

section \<open>The system\<close>

definition CONFIG_PUSH_SECS :: nat where "CONFIG_PUSH_SECS = 30"

record ('f, 'q) config =
  cfg_settings :: settings
  cfg_flash :: 'f
  cfg_notifier :: 'q

text \<open>A missing entry gives the default settings; a storage that cannot be read panics.\<close>

definition config_init :: "profile \<Rightarrow> ('f, 'se) seq_storage \<Rightarrow> partition_entry \<Rightarrow>
    settings postcard \<Rightarrow> ('q, settings) pubsub_ops \<Rightarrow> ('f, 'e, ('f, 'q) config) act" where
  "config_init p ss part pc ps =
     bindA (unwrapA (storage_fetch p ss part (settings_entry pc))) (\<lambda>data.
     bindA (readA (\<lambda>f. f)) (\<lambda>f.
       ret \<lparr>cfg_settings = (case data of Some v \<Rightarrow> v | None \<Rightarrow> settings_default),
            cfg_flash = f, cfg_notifier = ps_new ps\<rparr>))"

abbreviation on_flash :: "('f, 'e, 'a) act \<Rightarrow> (('f, 'q) config, 'e, 'a) act" where
  "on_flash \<equiv> zoom cfg_flash (\<lambda>f s. s\<lparr>cfg_flash := f\<rparr>)"

abbreviation on_notifier :: "('q, 'e, 'a) act \<Rightarrow> (('f, 'q) config, 'e, 'a) act" where
  "on_notifier \<equiv> zoom cfg_notifier (\<lambda>q s. s\<lparr>cfg_notifier := q\<rparr>)"

text \<open>
  \<open>update\<close>, under the lock: the settings are replaced first; only when they changed are they
  stored, and published by a publisher that lives until the end of the block.
\<close>

definition config_update :: "profile \<Rightarrow> ('f, 'se) seq_storage \<Rightarrow> partition_entry \<Rightarrow>
    settings postcard \<Rightarrow> ('q, settings) pubsub_ops \<Rightarrow> (settings \<Rightarrow> settings) \<Rightarrow>
    (('f, 'q) config, 'e, unit) act" where
  "config_update p ss part pc ps f =
     bindA (readA cfg_settings) (\<lambda>old_settings.
     seqA (modifyA (\<lambda>s. s\<lparr>cfg_settings := f (cfg_settings s)\<rparr>)) (
     bindA (readA cfg_settings) (\<lambda>settings.
       if old_settings \<noteq> settings then
         seqA (on_flash (unwrapA (storage_store p ss part (settings_entry pc) settings))) (
         seqA (on_notifier (take_publisher ps)) (
         seqA (on_notifier (publish_to ps settings))
              (on_notifier (modifyA (ps_drop_publisher ps)))))
       else ret ())))"

text \<open>
  What is left of an update that waits for room: the publication, and then the end of the block, which drops
  the publisher.  The lock is held throughout, so that the settings are still those of the update.
\<close>

definition config_update_finish :: "('q, settings) pubsub_ops \<Rightarrow> (('f, 'q) config, 'e, unit) act" where
  "config_update_finish ps =
     bindA (readA cfg_settings) (\<lambda>settings.
     seqA (on_notifier (publish_to ps settings))
          (on_notifier (modifyA (ps_drop_publisher ps))))"

definition config_fetch :: "(('f, 'q) config, 'e, settings) act" where
  "config_fetch = readA cfg_settings"

definition config_publish_immediate ::
  "('q, settings) pubsub_ops \<Rightarrow> (('f, 'q) config, 'e, unit) act" where
  "config_publish_immediate ps =
     bindA (readA cfg_settings) (\<lambda>settings.
       on_notifier (modifyA (ps_publish_immediate ps settings)))"

text \<open>
  One turn of \<open>push_task\<close>: woken by a message of its own subscriber, or by the timer after
  \<open>PUSH_PERIOD\<close>.
\<close>

datatype push_wake = PushMessage | PushTimer

fun config_push_turn ::
  "('q, settings) pubsub_ops \<Rightarrow> push_wake \<Rightarrow> (('f, 'q) config, 'e, unit) act" where
  "config_push_turn ps PushMessage = ret ()"
| "config_push_turn ps PushTimer = config_publish_immediate ps"

section \<open>What an update does\<close>

lemma config_update_same:
  assumes "f (cfg_settings s) = cfg_settings s"
  shows "(config_update p ss part pc ps f :: (('f, 'q) config, 'e, unit) act) s = (Ok (), s)"
  by (simp add: config_update_def bindA_def readA_def modifyA_def ret_def assms)

lemma config_update_changed:
  fixes s :: "('f, 'q) config"
  assumes "f (cfg_settings s) = new" "new \<noteq> cfg_settings s"
    and "storage_store p ss part (settings_entry pc) new (cfg_flash s) = (r, g)"
  shows "(config_update p ss part pc ps f :: (('f, 'q) config, 'e, unit) act) s =
    (let s1 = s\<lparr>cfg_settings := new, cfg_flash := g\<rparr> in
     case r of
       Ok _ \<Rightarrow> (case ps_publisher ps (cfg_notifier s) of
           None \<Rightarrow> (Panic, s1)
         | Some q \<Rightarrow> (case ps_publish ps new q of
               None \<Rightarrow> (Pending, s1\<lparr>cfg_notifier := q\<rparr>)
             | Some q' \<Rightarrow> (Ok (), s1\<lparr>cfg_notifier := ps_drop_publisher ps q'\<rparr>)))
     | Err _ \<Rightarrow> (Panic, s1) | Panic \<Rightarrow> (Panic, s1) | Pending \<Rightarrow> (Pending, s1))"
  using assms
  by (cases r) (simp_all add: config_update_def bindA_def readA_def modifyA_def zoom_def unwrapA_def
      take_publisher_def publish_to_def split: option.split)

text \<open>
  A system over a storage that keeps the contract of its entry and a channel that keeps its own.
\<close>

locale config_system =
  kv_entry "storage_fetch p ss part (settings_entry pc)" "storage_store p ss part (settings_entry pc)" stored +
  pubsub ps history publishers backlog
  for p and ss :: "('f, 'se) seq_storage" and part pc and stored :: "'f \<Rightarrow> settings option"
    and ps :: "('q, settings) pubsub_ops" and history publishers backlog
begin

abbreviation update :: "(settings \<Rightarrow> settings) \<Rightarrow> (('f, 'q) config, unit, unit) act" where
  "update \<equiv> config_update p ss part pc ps"

lemma update_Ok:
  assumes "update f s = (Ok (), s')" "f (cfg_settings s) \<noteq> cfg_settings s"
  shows "cfg_settings s' = f (cfg_settings s)" "stored (cfg_flash s') = Some (f (cfg_settings s))"
    "history (cfg_notifier s') = history (cfg_notifier s) @ [f (cfg_settings s)]"
    "publishers (cfg_notifier s') = publishers (cfg_notifier s)"
proof -
  let ?new = "f (cfg_settings s)"
  obtain r g where store: "storage_store p ss part (settings_entry pc) ?new (cfg_flash s) = (r, g)"
    by fastforce
  note run = assms(1) [unfolded config_update_changed [where f = f, OF refl assms(2) store] Let_def]
  from run obtain q q' where r: "r = Ok ()" and q: "ps_publisher ps (cfg_notifier s) = Some q"
    and q': "ps_publish ps ?new q = Some q'"
    and s': "s' = s\<lparr>cfg_settings := ?new, cfg_flash := g, cfg_notifier := ps_drop_publisher ps q'\<rparr>"
    by (auto split: outcome.splits option.splits)
  have "publishers (cfg_notifier s) < DATA_PUBS"
    using publisher_full [of "cfg_notifier s"] q by force
  from publisher_room [OF this] q have q1: "history q = history (cfg_notifier s)"
    "publishers q = Suc (publishers (cfg_notifier s))" by auto
  have "backlog q < DATA_CAP" using publish_full [of q ?new] q' by force
  from publish_room [OF this, of ?new] q' have q2: "history q' = history q @ [?new]"
    "publishers q' = publishers q" by auto
  show "cfg_settings s' = ?new" and "stored (cfg_flash s') = Some ?new"
    and "history (cfg_notifier s') = history (cfg_notifier s) @ [?new]"
    and "publishers (cfg_notifier s') = publishers (cfg_notifier s)"
    using store_stored [OF store [unfolded r]] q1 q2 drop_publisher by (simp_all add: s')
qed

text \<open>An update that waits has stored the settings already; no publisher is used up by others.\<close>

lemma update_Pending:
  assumes "update f s = (Pending, s')" "f (cfg_settings s) \<noteq> cfg_settings s"
  shows "cfg_settings s' = f (cfg_settings s)" "stored (cfg_flash s') = Some (f (cfg_settings s))"
    "history (cfg_notifier s') = history (cfg_notifier s)"
    "publishers (cfg_notifier s') = Suc (publishers (cfg_notifier s))"
    "DATA_CAP \<le> backlog (cfg_notifier s)"
proof -
  let ?new = "f (cfg_settings s)"
  obtain r g where store: "storage_store p ss part (settings_entry pc) ?new (cfg_flash s) = (r, g)"
    by fastforce
  note run = assms(1) [unfolded config_update_changed [where f = f, OF refl assms(2) store] Let_def]
  have "r \<noteq> Pending" using store storage_not_pending(1) [of p ss part "settings_entry pc"] by auto
  with run obtain q where r: "r = Ok ()" and q: "ps_publisher ps (cfg_notifier s) = Some q"
    and q': "ps_publish ps ?new q = None"
    and s': "s' = s\<lparr>cfg_settings := ?new, cfg_flash := g, cfg_notifier := q\<rparr>"
    by (auto split: outcome.splits option.splits)
  have "publishers (cfg_notifier s) < DATA_PUBS"
    using publisher_full [of "cfg_notifier s"] q by force
  from publisher_room [OF this] q have q1: "history q = history (cfg_notifier s)"
    "publishers q = Suc (publishers (cfg_notifier s))" "backlog q = backlog (cfg_notifier s)" by auto
  have "DATA_CAP \<le> backlog q" using publish_room [of q ?new] q' by force
  then show "cfg_settings s' = ?new" and "stored (cfg_flash s') = Some ?new"
    and "history (cfg_notifier s') = history (cfg_notifier s)"
    and "publishers (cfg_notifier s') = Suc (publishers (cfg_notifier s))"
    and "DATA_CAP \<le> backlog (cfg_notifier s)"
    using store_stored [OF store [unfolded r]] q1 by (simp_all add: s')
qed

text \<open>Finishing an update publishes the settings once; it can be finished as soon as there is room.\<close>

lemma finish_Ok:
  assumes "(config_update_finish ps :: (('f, 'q) config, unit, unit) act) s = (Ok (), s')"
  shows "cfg_settings s' = cfg_settings s" "cfg_flash s' = cfg_flash s"
    "history (cfg_notifier s') = history (cfg_notifier s) @ [cfg_settings s]"
    "publishers (cfg_notifier s') = publishers (cfg_notifier s) - 1"
proof -
  from assms obtain q where q: "ps_publish ps (cfg_settings s) (cfg_notifier s) = Some q"
    and s': "s' = s\<lparr>cfg_notifier := ps_drop_publisher ps q\<rparr>"
    by (auto simp: config_update_finish_def act_Ok_iff publish_to_def split: option.splits)
  have "backlog (cfg_notifier s) < DATA_CAP" using publish_full [of "cfg_notifier s" "cfg_settings s"] q by force
  from publish_room [OF this, of "cfg_settings s"] q
  show "cfg_settings s' = cfg_settings s" "cfg_flash s' = cfg_flash s"
    "history (cfg_notifier s') = history (cfg_notifier s) @ [cfg_settings s]"
    "publishers (cfg_notifier s') = publishers (cfg_notifier s) - 1"
    by (auto simp: s' drop_publisher)
qed

lemma finish_room:
  assumes "backlog (cfg_notifier s) < DATA_CAP"
  shows "\<exists>s'. (config_update_finish ps :: (('f, 'q) config, unit, unit) act) s = (Ok (), s')"
  using publish_room [OF assms, of "cfg_settings s"]
  by (auto simp: config_update_finish_def act_Ok_iff publish_to_def)

text \<open>A panic comes from the storage or from a publisher that is in use.\<close>

lemma update_Panic:
  assumes "update f s = (Panic, s')"
  shows "f (cfg_settings s) \<noteq> cfg_settings s"
    "(\<exists>g. storage_store p ss part (settings_entry pc) (f (cfg_settings s)) (cfg_flash s) = (Ok (), g))
       \<Longrightarrow> DATA_PUBS \<le> publishers (cfg_notifier s)"
proof -
  let ?new = "f (cfg_settings s)"
  show new: "?new \<noteq> cfg_settings s"
    using assms config_update_same [where 'e = unit, of f s p ss part pc ps] by force
  assume "\<exists>g. storage_store p ss part (settings_entry pc) ?new (cfg_flash s) = (Ok (), g)"
  then obtain g where store: "storage_store p ss part (settings_entry pc) ?new (cfg_flash s) = (Ok (), g)" ..
  have "ps_publisher ps (cfg_notifier s) = None"
    using assms [unfolded config_update_changed [where f = f, OF refl new store] Let_def]
    by (auto split: option.splits)
  then show "DATA_PUBS \<le> publishers (cfg_notifier s)"
    using publisher_room [of "cfg_notifier s"] by force
qed

text \<open>The flash always holds the settings, or nothing while they are the default ones.\<close>

definition persisted :: "('f, 'q) config \<Rightarrow> bool" where
  "persisted s \<longleftrightarrow> (case stored (cfg_flash s) of Some v \<Rightarrow> cfg_settings s = v
      | None \<Rightarrow> cfg_settings s = settings_default)"

lemma init_persisted:
  assumes "config_init p ss part pc ps f = (Ok s, f')"
  shows "persisted s" "cfg_flash s = f'"
    "cfg_settings s = (case stored f of Some v \<Rightarrow> v | None \<Rightarrow> settings_default)"
proof -
  from assms obtain r where fetch: "storage_fetch p ss part (settings_entry pc) f = (Ok r, f')"
    and s: "s = \<lparr>cfg_settings = (case r of Some v \<Rightarrow> v | None \<Rightarrow> settings_default),
      cfg_flash = f', cfg_notifier = ps_new ps\<rparr>"
    by (auto simp: config_init_def act_Ok_iff)
  from fetch_stored [OF fetch] show "persisted s" "cfg_flash s = f'"
    "cfg_settings s = (case stored f of Some v \<Rightarrow> v | None \<Rightarrow> settings_default)"
    by (auto simp: persisted_def s split: option.split)
qed

lemma update_persisted:
  assumes "update f s = (Ok (), s')" "persisted s"
  shows "persisted s'" "cfg_settings s' = f (cfg_settings s)"
proof -
  consider "f (cfg_settings s) = cfg_settings s" | "f (cfg_settings s) \<noteq> cfg_settings s" by blast
  then have "persisted s' \<and> cfg_settings s' = f (cfg_settings s)"
  proof cases
    case 1
    with config_update_same [where 'e = unit, of f s p ss part pc ps, OF 1] assms
    show ?thesis by simp
  next
    case 2
    from update_Ok [OF assms(1) 2] show ?thesis by (simp add: persisted_def)
  qed
  then show "persisted s'" "cfg_settings s' = f (cfg_settings s)" by simp_all
qed

text \<open>An update that waits has kept its promise to the flash.\<close>

lemma waiting_persisted:
  assumes "update f s = (Pending, s')"
  shows "persisted s'" "cfg_settings s' = f (cfg_settings s)"
proof -
  have "f (cfg_settings s) \<noteq> cfg_settings s"
    using assms config_update_same [where 'e = unit, of f s p ss part pc ps] by force
  from update_Pending [OF assms this] show "persisted s'" "cfg_settings s' = f (cfg_settings s)"
    by (simp_all add: persisted_def)
qed

lemma updates_persisted:
  assumes "forA update fs s = (Ok (), s')" "persisted s"
  shows "persisted s' \<and> cfg_settings s' = fold (\<lambda>f. f) fs (cfg_settings s)"
  using assms
proof (induction fs arbitrary: s)
  case (Cons f fs)
  from Cons.prems(1) obtain s1 where "update f s = (Ok (), s1)" "forA update fs s1 = (Ok (), s')"
    by (auto simp: bindA_Ok_iff)
  with update_persisted [OF _ Cons.prems(2), of f s1] Cons.IH [of s1] show ?case by simp
qed simp

lemma reboot:
  assumes "config_init p ss part pc ps f0 = (Ok s0, f1)" "forA update fs s0 = (Ok (), s1)"
    and "config_init p ss part pc ps (cfg_flash s1) = (Ok s2, f2)"
  shows "cfg_settings s2 = fold (\<lambda>f. f) fs (cfg_settings s0)"
proof -
  from updates_persisted [OF assms(2) init_persisted(1) [OF assms(1)]]
  have "persisted s1" "cfg_settings s1 = fold (\<lambda>f. f) fs (cfg_settings s0)" by simp_all
  with init_persisted(3) [OF assms(3)] show ?thesis
    by (auto simp: persisted_def split: option.splits)
qed

end

section \<open>A provider\<close>

text \<open>An encoding of six bytes.\<close>

definition ref_settings_pc :: "settings postcard" where
  "ref_settings_pc = \<lparr>
     pc_to_slice = (\<lambda>v n. if n < 6 then None else
       Some (le_bytes (mv_of (vout_mv v)) @ le_bytes (ma_of (iout_ma v)) @ le_bytes (backoff_ms v))),
     pc_from_bytes = (\<lambda>bs. if length bs \<noteq> 6 then None else
       Some \<lparr>vout_mv = Millivolts (le_word (take 2 bs)),
             iout_ma = Milliamps (le_word (take 2 (drop 2 bs))),
             backoff_ms = le_word (drop 4 bs)\<rparr>)\<rparr>"

lemma millivolts_eta [simp]: "Millivolts (mv_of x) = x"
  by (cases x) simp

lemma milliamps_eta [simp]: "Milliamps (ma_of x) = x"
  by (cases x) simp

interpretation ref_settings_pc: postcard_codec ref_settings_pc
  by unfold_locales (auto simp: ref_settings_pc_def le_word_bytes split: if_splits)

interpretation ref_settings: seq_storage_entry ref_ss "\<lambda>rng f. f rng"
  "settings_entry ref_settings_pc" Release ref_nvs
  by unfold_locales
    (simp_all add: settings_entry_def ref_settings_pc.decode_encode ref_settings_pc.encode_fits)

interpretation ref_config: config_system Release ref_ss ref_nvs ref_settings_pc
  "stored_entry (\<lambda>rng f. f rng) Release ref_nvs (settings_entry ref_settings_pc)"
  ref_ps fst "\<lambda>q. fst (snd q)" "\<lambda>q. snd (snd q)"
  by (intro config_system.intro ref_settings.contract rps.pubsub_axioms)

section \<open>Properties\<close>

lemma config_systemI:
  assumes "seq_map ss items" "postcard_codec pc" "pubsub ps history publishers backlog"
  shows "config_system p ss part pc (stored_entry items p part (settings_entry pc)) ps history publishers backlog"
proof -
  have "seq_storage_entry ss items (settings_entry pc)"
    using assms(1,2) by (intro seq_storage_entryI) (simp_all add: settings_entry_def)
  from config_system.intro [OF seq_storage_entry.contract [OF this] assms(3)] show ?thesis .
qed

lemma config_update_no_error: "config_update p ss part pc ps f s \<noteq> (Err e, s')"
  by (auto simp: config_update_def bindA_def readA_def modifyA_def zoom_def unwrapA_def ret_def
      take_publisher_def publish_to_def split: option.splits outcome.splits prod.splits)

text \<open>C17: What \<open>Config::update\<close> does on every path.  When the function leaves the settings as they are,
  nothing is written to flash and nothing is published.  When it changes them and returns, the new
  settings are in place, stored and published once.  When it waits for its subscribers the new
  settings are in place and stored and nothing is published yet, and the queue was full; once there is room
  again it returns, with the settings published once and the publisher given back.  It never
  fails with an error, and panics only when the settings change and the storage fails or another
  publisher is alive.\<close>

theorem config_update_effects:
  fixes run :: "(('f, 'q) config, unit, unit) act"
  assumes "seq_map ss items" "postcard_codec pc" "pubsub ps history publishers backlog"
    and "run = config_update p ss part pc ps f" "run s = (res, s')"
  defines "saved \<equiv> \<lambda>t. stored_entry items p part (settings_entry pc) (cfg_flash t)"
    and "new \<equiv> f (cfg_settings s)"
  shows "(new = cfg_settings s \<longrightarrow> res = Ok () \<and> s' = s)
    \<and> (new \<noteq> cfg_settings s \<and> res = Ok () \<longrightarrow> cfg_settings s' = new \<and> saved s' = Some new
        \<and> history (cfg_notifier s') = history (cfg_notifier s) @ [new]
        \<and> publishers (cfg_notifier s') = publishers (cfg_notifier s))
    \<and> (res = Pending \<longrightarrow> cfg_settings s' = new \<and> saved s' = Some new
        \<and> history (cfg_notifier s') = history (cfg_notifier s)
        \<and> DATA_CAP \<le> backlog (cfg_notifier s)
        \<and> (\<forall>q. history q = history (cfg_notifier s') \<and> publishers q = publishers (cfg_notifier s') \<and> backlog q < DATA_CAP \<longrightarrow>
            (\<exists>t. (config_update_finish ps :: (('f, 'q) config, unit, unit) act) (s'\<lparr>cfg_notifier := q\<rparr>) = (Ok (), t)
              \<and> cfg_settings t = new \<and> saved t = Some new
              \<and> history (cfg_notifier t) = history (cfg_notifier s) @ [new]
              \<and> publishers (cfg_notifier t) = publishers (cfg_notifier s))))
    \<and> (res = Panic \<longrightarrow> new \<noteq> cfg_settings s
        \<and> ((\<exists>g. storage_store p ss part (settings_entry pc) new (cfg_flash s) = (Ok (), g))
            \<longrightarrow> DATA_PUBS \<le> publishers (cfg_notifier s)))
    \<and> res \<noteq> Err ()"
proof -
  note sys = config_systemI [OF assms(1-3), of p part]
  have upd: "config_update p ss part pc ps f s = (res, s')" using assms(4,5) by simp
  have same: "new = cfg_settings s \<Longrightarrow> res = Ok () \<and> s' = s"
    using config_update_same [where 'e = unit, of f s p ss part pc ps] upd by (simp add: new_def)
  have returned: "cfg_settings s' = new \<and> saved s' = Some new
        \<and> history (cfg_notifier s') = history (cfg_notifier s) @ [new]
        \<and> publishers (cfg_notifier s') = publishers (cfg_notifier s)"
    if "new \<noteq> cfg_settings s" "res = Ok ()"
    using config_system.update_Ok [OF sys, of f s s'] upd that by (simp add: new_def saved_def)
  have waiting: "cfg_settings s' = new \<and> saved s' = Some new \<and> history (cfg_notifier s') = history (cfg_notifier s)
        \<and> DATA_CAP \<le> backlog (cfg_notifier s) \<and> publishers (cfg_notifier s') = Suc (publishers (cfg_notifier s))"
    if "res = Pending"
  proof -
    from same that have "f (cfg_settings s) \<noteq> cfg_settings s" by (auto simp: new_def)
    with config_system.update_Pending [OF sys, of f s s'] upd that
    show ?thesis by (simp add: new_def saved_def)
  qed
  have finished: "\<exists>t. (config_update_finish ps :: (('f, 'q) config, unit, unit) act) (s'\<lparr>cfg_notifier := q\<rparr>) = (Ok (), t)
      \<and> cfg_settings t = new \<and> saved t = Some new \<and> history (cfg_notifier t) = history (cfg_notifier s) @ [new]
      \<and> publishers (cfg_notifier t) = publishers (cfg_notifier s)"
    if "res = Pending" "history q = history (cfg_notifier s')" "publishers q = publishers (cfg_notifier s')" "backlog q < DATA_CAP" for q
  proof -
    from config_system.finish_room [OF sys, of "s'\<lparr>cfg_notifier := q\<rparr>"] that(4)
    obtain t where t: "(config_update_finish ps :: (('f, 'q) config, unit, unit) act) (s'\<lparr>cfg_notifier := q\<rparr>) = (Ok (), t)" by auto
    with config_system.finish_Ok [OF sys t] waiting [OF that(1)] that(2,3) show ?thesis by (simp add: saved_def)
  qed
  have panicked: "new \<noteq> cfg_settings s" "DATA_PUBS \<le> publishers (cfg_notifier s)"
    if "res = Panic" "\<exists>g. storage_store p ss part (settings_entry pc) new (cfg_flash s) = (Ok (), g)"
    using config_system.update_Panic [OF sys, of f s s'] upd that by (simp_all add: new_def)
  have changed: "new \<noteq> cfg_settings s" if "res = Panic"
    using config_system.update_Panic(1) [OF sys, of f s s'] upd that by (simp add: new_def)
  have "res \<noteq> Err ()"
    using upd by (auto simp: config_update_no_error)
  with same returned waiting finished panicked(2) changed show ?thesis
    by (intro conjI impI allI; (elim conjE)?; simp)
qed

text \<open>Two updates on the reference provider, the second one waiting for a subscriber.\<close>

definition ref_raise :: "settings \<Rightarrow> settings" where
  "ref_raise v = v\<lparr>vout_mv := Millivolts 12000\<rparr>"

definition ref_system :: "(ref_flash, settings list \<times> nat \<times> nat) config" where
  "ref_system = \<lparr>cfg_settings = settings_default, cfg_flash = (\<lambda>_ _. None), cfg_notifier = ([], 0, 0)\<rparr>"

lemma ref_settings_store:
  "storage_store Release ref_ss ref_nvs (settings_entry ref_settings_pc) v f =
     (Ok (), f((0x9000, 0xF000) := (f (0x9000, 0xF000))([3] \<mapsto>
        le_bytes (mv_of (vout_mv v)) @ le_bytes (ma_of (iout_ma v)) @ le_bytes (backoff_ms v))))"
  by (simp add: storage_store_def part_range_def ref_nvs_def bindA_def map_errA_def liftR_def ret_def
      ref_ss_def key_serialized settings_entry_def value_serialize_into_def ref_settings_pc_def
      del: key_serialize_into.simps)

lemma ref_update_Ok:
  assumes "f settings_default \<noteq> settings_default"
  shows "\<exists>s'. (config_update Release ref_ss ref_nvs ref_settings_pc ref_ps f ::
      ((ref_flash, settings list \<times> nat \<times> nat) config, 'e, unit) act) ref_system = (Ok (), s')"
proof -
  have "f (cfg_settings ref_system) \<noteq> cfg_settings ref_system"
    using assms by (simp add: ref_system_def)
  from config_update_changed [where 'e = 'e and f = f, OF refl this ref_settings_store, of ref_ps]
  show ?thesis by (simp add: Let_def ref_ps_def ref_system_def)
qed

lemma ref_raise_changes: "ref_raise settings_default \<noteq> settings_default"
  by (simp add: ref_raise_def settings_default_def)

theorem config_update_effects_witness:
  "\<exists>s'. stored_entry (\<lambda>rng f. f rng) Release ref_nvs (settings_entry ref_settings_pc) (cfg_flash s') =
        Some (ref_raise settings_default)
    \<and> fst (cfg_notifier s') = [ref_raise settings_default]
    \<and> (config_update Release ref_ss ref_nvs ref_settings_pc ref_ps ref_raise ::
      ((ref_flash, settings list \<times> nat \<times> nat) config, unit, unit) act) ref_system = (Ok (), s')"
proof -
  obtain s' where run: "(config_update Release ref_ss ref_nvs ref_settings_pc ref_ps ref_raise ::
      ((ref_flash, settings list \<times> nat \<times> nat) config, unit, unit) act) ref_system = (Ok (), s')"
    using ref_update_Ok [of ref_raise] ref_raise_changes by blast
  have "ref_raise (cfg_settings ref_system) \<noteq> cfg_settings ref_system"
    by (simp add: ref_raise_def ref_system_def settings_default_def)
  with config_update_effects [OF rss.seq_map_axioms ref_settings_pc.postcard_codec_axioms
      rps.pubsub_axioms refl run] run
  show ?thesis by (auto simp: ref_system_def)
qed

text \<open>Settings survive a restart: after \<open>init\<close> and any sequence of updates that returned, an \<open>init\<close>
  on the flash they left starts with exactly the settings those updates gave, starting from what
  the first \<open>init\<close> found.\<close>

theorem config_survives_restart:
  fixes upd :: "(settings \<Rightarrow> settings) \<Rightarrow> (('f, 'q) config, unit, unit) act"
  assumes "seq_map ss items" "postcard_codec pc" "pubsub ps history publishers backlog"
    and "upd = config_update p ss part pc ps"
    and "config_init p ss part pc ps f0 = (Ok s0, f1)" "forA upd fs s0 = (Ok (), s1)"
    and "config_init p ss part pc ps (cfg_flash s1) = (Ok s2, f2)"
  shows "cfg_settings s2 = fold (\<lambda>f. f) fs (cfg_settings s0)"
  using config_system.reboot [OF config_systemI [OF assms(1-3)] assms(5) _ assms(7)] assms(4,6)
  by blast

lemma ref_init:
  "(config_init Release ref_ss ref_nvs ref_settings_pc ref_ps ::
      (ref_flash, unit, (ref_flash, settings list \<times> nat \<times> nat) config) act) f =
   (case f (0x9000, 0xF000) [3] of
      None \<Rightarrow> (Ok \<lparr>cfg_settings = settings_default, cfg_flash = f, cfg_notifier = ([], 0, 0)\<rparr>, f)
    | Some bs \<Rightarrow> (case pc_from_bytes ref_settings_pc bs of
          None \<Rightarrow> (Panic, f)
        | Some v \<Rightarrow> (Ok \<lparr>cfg_settings = v, cfg_flash = f, cfg_notifier = ([], 0, 0)\<rparr>, f)))"
  by (simp add: config_init_def storage_fetch_def part_range_def ref_nvs_def bindA_def map_errA_def
      liftR_def ret_def fail_def unwrapA_def readA_def ref_ss_def key_serialized settings_entry_def
      value_deserialize_from_def ref_ps_def
      split: option.split del: key_serialize_into.simps)

theorem config_survives_restart_witness:
  "\<exists>s1 s2 f2. (config_update Release ref_ss ref_nvs ref_settings_pc ref_ps ref_raise ::
      ((ref_flash, settings list \<times> nat \<times> nat) config, unit, unit) act) ref_system = (Ok (), s1)
    \<and> (config_init Release ref_ss ref_nvs ref_settings_pc ref_ps ::
      (ref_flash, unit, (ref_flash, settings list \<times> nat \<times> nat) config) act) (cfg_flash s1) = (Ok s2, f2)
    \<and> cfg_settings s2 = ref_raise settings_default"
proof -
  let ?upd = "config_update Release ref_ss ref_nvs ref_settings_pc ref_ps ::
    (settings \<Rightarrow> settings) \<Rightarrow> ((ref_flash, settings list \<times> nat \<times> nat) config, unit, unit) act"
  let ?init = "config_init Release ref_ss ref_nvs ref_settings_pc ref_ps ::
      (ref_flash, unit, (ref_flash, settings list \<times> nat \<times> nat) config) act"
  have start: "?init (\<lambda>_ _. None) = (Ok ref_system, \<lambda>_ _. None)"
    by (simp add: ref_init ref_system_def)
  obtain s1 where upd: "?upd ref_raise ref_system = (Ok (), s1)" using ref_update_Ok [of ref_raise] ref_raise_changes by blast
  then have upds: "forA ?upd [ref_raise] ref_system = (Ok (), s1)" by simp
  have new: "ref_raise (cfg_settings ref_system) \<noteq> cfg_settings ref_system"
    by (simp add: ref_raise_def ref_system_def settings_default_def)
  from upd [unfolded config_update_changed [where f = ref_raise, OF refl new ref_settings_store]]
  obtain bs where flash: "cfg_flash s1 (0x9000, 0xF000) [3] = Some bs"
    by (auto simp: Let_def ref_ps_def ref_system_def)
  have "stored_entry (\<lambda>rng f. f rng) Release ref_nvs (settings_entry ref_settings_pc) (cfg_flash s1) =
      Some (ref_raise (cfg_settings ref_system))"
    using ref_config.update_Ok(2) [OF upd new] .
  with flash have "pc_from_bytes ref_settings_pc bs = Some (ref_raise (cfg_settings ref_system))"
    by (simp add: stored_entry_def part_range_def ref_nvs_def settings_entry_def)
  with flash obtain s2 where again: "?init (cfg_flash s1) = (Ok s2, cfg_flash s1)"
    by (simp add: ref_init)
  from config_survives_restart [OF rss.seq_map_axioms ref_settings_pc.postcard_codec_axioms
      rps.pubsub_axioms refl start upds again]
  have "cfg_settings s2 = ref_raise settings_default" by (simp add: ref_system_def)
  with upd again show ?thesis by blast
qed

text \<open>A settings message changes exactly the fields it holds, and receiving it again, however
  often, does nothing: no flash is written and nothing is published.\<close>

theorem repeated_settings_message:
  fixes upd :: "(settings \<Rightarrow> settings) \<Rightarrow> (('f, 'q) config, unit, unit) act"
  assumes "seq_map ss items" "postcard_codec pc" "pubsub ps history publishers backlog"
    and "upd = config_update p ss part pc ps" "upd (settings_integrate m) s = (Ok (), s')"
  shows "forA upd (replicate n (settings_integrate m)) s' = (Ok (), s')
    \<and> vout_mv (cfg_settings s') = (case builder_vout_mv m of Some x \<Rightarrow> x | None \<Rightarrow> vout_mv (cfg_settings s))
    \<and> iout_ma (cfg_settings s') = (case builder_iout_ma m of Some x \<Rightarrow> x | None \<Rightarrow> iout_ma (cfg_settings s))
    \<and> backoff_ms (cfg_settings s') = (case builder_backoff_ms m of Some x \<Rightarrow> x | None \<Rightarrow> backoff_ms (cfg_settings s))"
proof -
  note sys = config_systemI [OF assms(1-3), of p part]
  have s': "cfg_settings s' = settings_integrate m (cfg_settings s)"
  proof (cases "settings_integrate m (cfg_settings s) = cfg_settings s")
    case True
    with config_update_same [where 'e = unit, of "settings_integrate m" s p ss part pc ps] assms(4,5)
    show ?thesis by simp
  next
    case False
    from config_system.update_Ok(1) [OF sys, of "settings_integrate m" s s'] False assms(4,5)
    show ?thesis by blast
  qed
  then have "settings_integrate m (cfg_settings s') = cfg_settings s'"
    by (simp add: settings_integrate_def Let_def split: option.split)
  then have "upd (settings_integrate m) s' = (Ok (), s')"
    using config_update_same [where 'e = unit, of "settings_integrate m" s' p ss part pc ps] assms(4) by simp
  then have "forA upd (replicate n (settings_integrate m)) s' = (Ok (), s')"
    by (induction n) (simp_all add: ret_def bindA_def)
  then show ?thesis by (simp add: s' settings_integrate_def Let_def split: option.split)
qed

theorem repeated_settings_message_witness:
  "\<exists>s'. (config_update Release ref_ss ref_nvs ref_settings_pc ref_ps
        (settings_integrate \<lparr>builder_vout_mv = None, builder_iout_ma = Some (Milliamps 3000), builder_backoff_ms = None\<rparr>) ::
      ((ref_flash, settings list \<times> nat \<times> nat) config, unit, unit) act) ref_system = (Ok (), s')
    \<and> iout_ma (cfg_settings s') = Milliamps 3000 \<and> vout_mv (cfg_settings s') = Millivolts 9000"
proof -
  let ?m = "\<lparr>builder_vout_mv = None, builder_iout_ma = Some (Milliamps 3000), builder_backoff_ms = None\<rparr>"
  have "settings_integrate ?m settings_default \<noteq> settings_default"
    by (simp add: settings_integrate_def settings_default_def)
  with ref_update_Ok [of "settings_integrate ?m"]
  obtain s' where run: "(config_update Release ref_ss ref_nvs ref_settings_pc ref_ps (settings_integrate ?m) ::
      ((ref_flash, settings list \<times> nat \<times> nat) config, unit, unit) act) ref_system = (Ok (), s')"
    by blast
  with repeated_settings_message [OF rss.seq_map_axioms ref_settings_pc.postcard_codec_axioms
      rps.pubsub_axioms refl run, of 1]
  show ?thesis by (auto simp: ref_system_def settings_default_def)
qed

end
