(* ===== verification/Record_Log.thy ===== *)
theory Record_Log
  imports Storage Embassy
begin

text \<open>
  \<open>systems/record.rs\<close>: counters of overcurrent events, logged by the monitor of the output and
  written to flash some time later by a task of their own.  The state of a \<open>Record\<close>, its
  operations, and the machine made of its callers and of \<open>sync_task\<close>, whose program counter
  stands at the \<open>await\<close>s of the task.
\<close>

section \<open>State and operations\<close>

definition SYNC_PERIOD_SECS :: nat where "SYNC_PERIOD_SECS = 10"
definition RECORD_PUSH_SECS :: nat where "RECORD_PUSH_SECS = 10"
definition NOTIFY_CAP :: nat where "NOTIFY_CAP = 1"

record record_data =
  overcurrent_count :: u64
  overcurrent_secs :: u64

definition record_data_default :: record_data where
  "record_data_default = \<lparr>overcurrent_count = 0, overcurrent_secs = 0\<rparr>"

definition record_entry :: "record_data postcard \<Rightarrow> record_data storage_entry" where
  "record_entry pc = \<lparr>entry_key = KRecordData, entry_pc = pc\<rparr>"

text \<open>The two fields of \<open>Inner\<close>, the storage, the channel to the task and the one to consumers.\<close>

record ('f, 'c, 'q) record_sys =
  rec_data :: record_data
  rec_sync_at :: "instant option"
  rec_flash :: 'f
  rec_sync_notifier :: 'c
  rec_data_notifier :: 'q

definition record_init :: "profile \<Rightarrow> ('f, 'se) seq_storage \<Rightarrow> partition_entry \<Rightarrow>
    record_data postcard \<Rightarrow> ('c, unit) channel_ops \<Rightarrow> ('q, record_data) pubsub_ops \<Rightarrow>
    ('f, 'e, ('f, 'c, 'q) record_sys) act" where
  "record_init p ss part pc ch ps =
     bindA (unwrapA (storage_fetch p ss part (record_entry pc))) (\<lambda>data.
     bindA (readA (\<lambda>f. f)) (\<lambda>f.
       ret \<lparr>rec_data = (case data of Some v \<Rightarrow> v | None \<Rightarrow> record_data_default),
            rec_sync_at = None, rec_flash = f,
            rec_sync_notifier = ch_new ch, rec_data_notifier = ps_new ps\<rparr>))"

definition record_publish_immediate ::
  "('q, record_data) pubsub_ops \<Rightarrow> (('f, 'c, 'q) record_sys, 'e, unit) act" where
  "record_publish_immediate ps =
     modifyA (\<lambda>s. s\<lparr>rec_data_notifier := ps_publish_immediate ps (rec_data s) (rec_data_notifier s)\<rparr>)"

text \<open>Both run while the caller holds the lock.  \<open>now\<close> is the reading of the clock.\<close>

definition record_schedule_sync :: "time_ops \<Rightarrow> ('c, unit) channel_ops \<Rightarrow>
    ('q, record_data) pubsub_ops \<Rightarrow> instant \<Rightarrow> (('f, 'c, 'q) record_sys, 'e, unit) act" where
  "record_schedule_sync tm ch ps now =
     seqA (record_publish_immediate ps) (
     bindA (readA rec_sync_at) (\<lambda>sync_at.
       if sync_at = None then
         seqA (modifyA (\<lambda>s. s\<lparr>rec_sync_at := Some (now + from_secs tm SYNC_PERIOD_SECS)\<rparr>))
              (zoom rec_sync_notifier (\<lambda>c s. s\<lparr>rec_sync_notifier := c\<rparr>) (send_to ch ()))
       else ret ()))"

definition record_log_overcurrent :: "profile \<Rightarrow> time_ops \<Rightarrow> ('c, unit) channel_ops \<Rightarrow>
    ('q, record_data) pubsub_ops \<Rightarrow> instant \<Rightarrow> u64 \<Rightarrow> (('f, 'c, 'q) record_sys, 'e, unit) act" where
  "record_log_overcurrent p tm ch ps now duration_secs =
     bindA (readA (overcurrent_count \<circ> rec_data)) (\<lambda>c.
     bindA (unwrapO (rust_add p c 1)) (\<lambda>c'.
     seqA (modifyA (\<lambda>s. s\<lparr>rec_data := (rec_data s)\<lparr>overcurrent_count := c'\<rparr>\<rparr>)) (
     bindA (readA (overcurrent_secs \<circ> rec_data)) (\<lambda>t.
     bindA (unwrapO (rust_add p t duration_secs)) (\<lambda>t'.
     seqA (modifyA (\<lambda>s. s\<lparr>rec_data := (rec_data s)\<lparr>overcurrent_secs := t'\<rparr>\<rparr>))
          (record_schedule_sync tm ch ps now))))))"

section \<open>The task that writes the data\<close>

text \<open>
  Where \<open>sync_task\<close> stands: waiting for a notification; about to lock and read the time of the
  sync; asleep until that time; about to lock and take the data; about to store what it took.
\<close>

datatype sync_pc = SyncReceive | SyncRead | SyncSleep instant | SyncTake | SyncStore record_data

fun sync_task_step :: "profile \<Rightarrow> ('f, 'se) seq_storage \<Rightarrow> partition_entry \<Rightarrow> record_data postcard \<Rightarrow>
    ('c, unit) channel_ops \<Rightarrow> sync_pc \<Rightarrow> instant \<Rightarrow> (('f, 'c, 'q) record_sys, 'e, sync_pc) act" where
  "sync_task_step p ss part pc ch SyncReceive now =
     seqA (zoom rec_sync_notifier (\<lambda>c s. s\<lparr>rec_sync_notifier := c\<rparr>) (receive_from ch))
          (ret SyncRead)"
| "sync_task_step p ss part pc ch SyncRead now =
     bindA (readA rec_sync_at) (\<lambda>sync_at.
     bindA (unwrapO sync_at) (\<lambda>at. ret (SyncSleep at)))"
| "sync_task_step p ss part pc ch (SyncSleep at) now =
     (if at \<le> now then ret SyncTake else pending)"
| "sync_task_step p ss part pc ch SyncTake now =
     seqA (modifyA (\<lambda>s. s\<lparr>rec_sync_at := None\<rparr>))
          (bindA (readA rec_data) (\<lambda>data. ret (SyncStore data)))"
| "sync_task_step p ss part pc ch (SyncStore data) now =
     seqA (zoom rec_flash (\<lambda>f s. s\<lparr>rec_flash := f\<rparr>) (unwrapA (storage_store p ss part (record_entry pc) data)))
          (ret SyncReceive)"

text \<open>
  The machine: the system, the task, the clock, and the number of stores that were completed
  (for the statements only).  \<open>RecordPublish\<close> is a caller of \<open>publish_immediate\<close>, the timer of
  \<open>push_task\<close> among them.
\<close>

record ('f, 'c, 'q) record_world =
  rw_sys :: "('f, 'c, 'q) record_sys"
  rw_pc :: sync_pc
  rw_now :: instant
  rw_writes :: nat

datatype record_event = RecordLog u64 | RecordSync | RecordPublish | RecordTick nat

fun is_store :: "sync_pc \<Rightarrow> bool" where
  "is_store (SyncStore _) = True"
| "is_store _ = False"

abbreviation on_sys :: "(('f, 'c, 'q) record_sys, 'e, 'a) act \<Rightarrow> (('f, 'c, 'q) record_world, 'e, 'a) act" where
  "on_sys \<equiv> zoom rw_sys (\<lambda>s w. w\<lparr>rw_sys := s\<rparr>)"

fun record_exec :: "profile \<Rightarrow> time_ops \<Rightarrow> ('f, 'se) seq_storage \<Rightarrow> partition_entry \<Rightarrow>
    record_data postcard \<Rightarrow> ('c, unit) channel_ops \<Rightarrow> ('q, record_data) pubsub_ops \<Rightarrow>
    record_event \<Rightarrow> (('f, 'c, 'q) record_world, unit, unit) act" where
  "record_exec p tm ss part pc ch ps (RecordLog d) w =
     on_sys (record_log_overcurrent p tm ch ps (rw_now w) d) w"
| "record_exec p tm ss part pc ch ps RecordSync w =
     bindA (on_sys (sync_task_step p ss part pc ch (rw_pc w) (rw_now w)))
       (\<lambda>pc'. modifyA (\<lambda>w'. w'\<lparr>rw_pc := pc',
          rw_writes := rw_writes w + (if is_store (rw_pc w) then 1 else 0)\<rparr>)) w"
| "record_exec p tm ss part pc ch ps RecordPublish w = on_sys (record_publish_immediate ps) w"
| "record_exec p tm ss part pc ch ps (RecordTick n) w = (Ok (), w\<lparr>rw_now := rw_now w + n\<rparr>)"

definition record_start :: "('f, 'c, 'q) record_sys \<Rightarrow> instant \<Rightarrow> ('f, 'c, 'q) record_world" where
  "record_start s t = \<lparr>rw_sys = s, rw_pc = SyncReceive, rw_now = t, rw_writes = 0\<rparr>"

text \<open>The states that \<open>init\<close> and any order of the events lead to.\<close>

inductive record_reachable :: "profile \<Rightarrow> time_ops \<Rightarrow> ('f, 'se) seq_storage \<Rightarrow> partition_entry \<Rightarrow>
    record_data postcard \<Rightarrow> ('c, unit) channel_ops \<Rightarrow> ('q, record_data) pubsub_ops \<Rightarrow>
    ('f, 'c, 'q) record_world \<Rightarrow> bool"
  for p tm ss part pc ch ps where
  init: "(record_init p ss part pc ch ps :: ('f, unit, ('f, 'c, 'q) record_sys) act) f = (Ok s, f') \<Longrightarrow>
    record_reachable p tm ss part pc ch ps (record_start s t)"
| step: "record_reachable p tm ss part pc ch ps w \<Longrightarrow>
    record_exec p tm ss part pc ch ps ev w = (Ok (), w') \<Longrightarrow>
    record_reachable p tm ss part pc ch ps w'"

section \<open>What the operations do\<close>

definition data_saved :: "('f \<Rightarrow> record_data option) \<Rightarrow> 'f \<Rightarrow> record_data" where
  "data_saved stored f = (case stored f of Some d \<Rightarrow> d | None \<Rightarrow> record_data_default)"

definition log_data :: "u64 \<Rightarrow> record_data \<Rightarrow> record_data" where
  "log_data d r = r\<lparr>overcurrent_count := overcurrent_count r + 1,
     overcurrent_secs := overcurrent_secs r + d\<rparr>"

definition log_overflows :: "profile \<Rightarrow> u64 \<Rightarrow> record_data \<Rightarrow> bool" where
  "log_overflows p d r \<longleftrightarrow>
     rust_add p (overcurrent_count r) 1 = None \<or> rust_add p (overcurrent_secs r) d = None"

lemma rust_add_Some: "rust_add p a b = Some c \<Longrightarrow> c = a + b"
  by (auto simp: rust_add_def split: if_splits)

lemma log_run:
  assumes "\<not> log_overflows p d (rec_data s)"
  shows "record_log_overcurrent p tm ch ps now d s =
    record_schedule_sync tm ch ps now (s\<lparr>rec_data := log_data d (rec_data s)\<rparr>)"
proof -
  from assms obtain c t where add: "rust_add p (overcurrent_count (rec_data s)) 1 = Some c"
    "rust_add p (overcurrent_secs (rec_data s)) d = Some t"
    by (auto simp: log_overflows_def)
  with rust_add_Some [OF add(1)] rust_add_Some [OF add(2)] show ?thesis
    by (simp add: record_log_overcurrent_def bindA_def readA_def modifyA_def ret_def unwrapO_def log_data_def)
qed

lemma log_overflow_panics:
  assumes "log_overflows p d (rec_data s)"
  shows "\<exists>s'. record_log_overcurrent p tm ch ps now d s = (Panic, s')"
  using assms
  by (auto simp: record_log_overcurrent_def bindA_def readA_def modifyA_def ret_def unwrapO_def
      panic_def log_overflows_def split: option.split)

lemma schedule_run:
  "record_schedule_sync tm ch ps now s =
    (let s1 = s\<lparr>rec_data_notifier := ps_publish_immediate ps (rec_data s) (rec_data_notifier s)\<rparr> in
     if rec_sync_at s \<noteq> None then (Ok (), s1)
     else let s2 = s1\<lparr>rec_sync_at := Some (now + from_secs tm SYNC_PERIOD_SECS)\<rparr> in
       case ch_send ch () (rec_sync_notifier s) of
         None \<Rightarrow> (Pending, s2)
       | Some c \<Rightarrow> (Ok (), s2\<lparr>rec_sync_notifier := c\<rparr>))"
  by (simp add: record_schedule_sync_def record_publish_immediate_def bindA_def readA_def modifyA_def
      ret_def zoom_def send_to_def Let_def split: option.split)

text \<open>
  The system over parameters that keep their contracts: the entry of the storage, the channel of
  capacity one to the task, the channel to the consumers, the clock.
\<close>

locale record_system =
  kv_entry "storage_fetch p ss part (record_entry pc)" "storage_store p ss part (record_entry pc)" stored +
  bounded_channel ch queued NOTIFY_CAP + pubsub ps history publishers backlog + embassy_time tm
  for p and ss :: "('f, 'se) seq_storage" and part pc and stored :: "'f \<Rightarrow> record_data option"
    and ch :: "('c, unit) channel_ops" and queued
    and ps :: "('q, record_data) pubsub_ops" and history publishers backlog and tm
begin

abbreviation period :: duration where
  "period \<equiv> from_secs tm SYNC_PERIOD_SECS"

abbreviation exec :: "record_event \<Rightarrow> (('f, 'c, 'q) record_world, unit, unit) act" where
  "exec \<equiv> record_exec p tm ss part pc ch ps"

abbreviation reachable :: "('f, 'c, 'q) record_world \<Rightarrow> bool" where
  "reachable \<equiv> record_reachable p tm ss part pc ch ps"

text \<open>
  The notification, the time of the sync and the task are in step: a time is set exactly while
  a notification is on its way to the task or the task is dealing with one.
\<close>

definition notified :: "('f, 'c, 'q) record_sys \<Rightarrow> bool" where
  "notified s \<longleftrightarrow> queued (rec_sync_notifier s) = (if rec_sync_at s = None then [] else [()])"

definition linked :: "('f, 'c, 'q) record_world \<Rightarrow> bool" where
  "linked w \<longleftrightarrow> (let s = rw_sys w; idle = (queued (rec_sync_notifier s) = []) in
     case rw_pc w of
       SyncReceive \<Rightarrow> notified s
     | SyncStore _ \<Rightarrow> notified s
     | SyncRead \<Rightarrow> rec_sync_at s \<noteq> None \<and> idle
     | SyncSleep at \<Rightarrow> rec_sync_at s = Some at \<and> idle
     | SyncTake \<Rightarrow> (\<exists>at. rec_sync_at s = Some at \<and> at \<le> rw_now w) \<and> idle)"

text \<open>What was logged is in flash, or on its way there, or a sync is due.\<close>

definition lossless :: "('f, 'c, 'q) record_world \<Rightarrow> bool" where
  "lossless w \<longleftrightarrow> (rec_sync_at (rw_sys w) = None \<longrightarrow>
     (case rw_pc w of SyncStore d \<Rightarrow> d = rec_data (rw_sys w)
      | _ \<Rightarrow> data_saved stored (rec_flash (rw_sys w)) = rec_data (rw_sys w)))"

text \<open>The stores, the one under way included, took a period each; the next one will.\<close>

definition taken :: "('f, 'c, 'q) record_world \<Rightarrow> nat" where
  "taken w = rw_writes w + (if is_store (rw_pc w) then 1 else 0)"

definition paced :: "('f, 'c, 'q) record_world \<Rightarrow> bool" where
  "paced w \<longleftrightarrow> taken w * period \<le> rw_now w \<and>
     (\<forall>t. rec_sync_at (rw_sys w) = Some t \<longrightarrow> Suc (taken w) * period \<le> t \<and> t \<le> rw_now w + period)"

text \<open>While the link holds, logging does not wait.\<close>

lemma linked_notified:
  assumes "linked w" "rec_sync_at (rw_sys w) = None"
  shows "queued (rec_sync_notifier (rw_sys w)) = []"
  using assms by (auto simp: linked_def notified_def Let_def split: sync_pc.splits)

lemma log_step:
  assumes "linked w" "\<not> log_overflows p d (rec_data (rw_sys w))"
  obtains c q where "exec (RecordLog d) w = (Ok (), w\<lparr>rw_sys := (rw_sys w)\<lparr>
        rec_data := log_data d (rec_data (rw_sys w)),
        rec_sync_at := Some (case rec_sync_at (rw_sys w) of None \<Rightarrow> rw_now w + period | Some t \<Rightarrow> t),
        rec_sync_notifier := c, rec_data_notifier := q\<rparr>\<rparr>)"
    "queued c = (if rec_sync_at (rw_sys w) = None then [()] else queued (rec_sync_notifier (rw_sys w)))"
proof (cases "rec_sync_at (rw_sys w)")
  case None
  from send_room [of "rec_sync_notifier (rw_sys w)" "()"] linked_notified [OF assms(1) None] obtain c
    where c: "ch_send ch () (rec_sync_notifier (rw_sys w)) = Some c" "queued c = [()]"
    by (auto simp: NOTIFY_CAP_def)
  let ?q = "ps_publish_immediate ps (log_data d (rec_data (rw_sys w))) (rec_data_notifier (rw_sys w))"
  show thesis
    by (rule that [where c = c and q = ?q]) (use c None in \<open>simp_all add: zoom_def log_run [OF assms(2)] schedule_run Let_def\<close>)
next
  case (Some t)
  let ?q = "ps_publish_immediate ps (log_data d (rec_data (rw_sys w))) (rec_data_notifier (rw_sys w))"
  show thesis
    by (rule that [where c = "rec_sync_notifier (rw_sys w)" and q = ?q])
      (use Some in \<open>simp_all add: zoom_def log_run [OF assms(2)] schedule_run Let_def\<close>)
qed

text \<open>An event that is taken keeps the three invariants.\<close>

lemma log_Ok:
  assumes "exec (RecordLog d) w = (Ok (), w')"
  shows "\<not> log_overflows p d (rec_data (rw_sys w))"
proof
  assume "log_overflows p d (rec_data (rw_sys w))"
  then obtain s' where "(record_log_overcurrent p tm ch ps (rw_now w) d :: (('f, 'c, 'q) record_sys, unit, unit) act)
      (rw_sys w) = (Panic, s')"
    using log_overflow_panics by blast
  with assms show False by (simp add: zoom_def)
qed

lemma log_keeps:
  assumes "exec (RecordLog d) w = (Ok (), w')" "linked w" "lossless w" "paced w"
  shows "linked w' \<and> lossless w' \<and> paced w'"
proof -
  obtain c q where
    run: "exec (RecordLog d) w = (Ok (), w\<lparr>rw_sys := (rw_sys w)\<lparr>
        rec_data := log_data d (rec_data (rw_sys w)),
        rec_sync_at := Some (case rec_sync_at (rw_sys w) of None \<Rightarrow> rw_now w + period | Some t \<Rightarrow> t),
        rec_sync_notifier := c, rec_data_notifier := q\<rparr>\<rparr>)"
    and c: "queued c = (if rec_sync_at (rw_sys w) = None then [()] else queued (rec_sync_notifier (rw_sys w)))"
    by (rule log_step [OF assms(2) log_Ok [OF assms(1)]])
  from run assms(1) have w': "w' = w\<lparr>rw_sys := (rw_sys w)\<lparr>
        rec_data := log_data d (rec_data (rw_sys w)),
        rec_sync_at := Some (case rec_sync_at (rw_sys w) of None \<Rightarrow> rw_now w + period | Some t \<Rightarrow> t),
        rec_sync_notifier := c, rec_data_notifier := q\<rparr>\<rparr>"
    by (simp only: prod.inject)
  have "linked w'"
    using assms(2) c
    by (cases "rw_pc w") (auto simp: w' linked_def notified_def Let_def split: option.splits if_splits)
  moreover have "lossless w'" by (simp add: w' lossless_def)
  moreover have "paced w'"
    using assms(4) by (auto simp: w' paced_def taken_def split: option.split)
  ultimately show ?thesis by simp
qed

lemma publish_keeps:
  assumes "exec RecordPublish w = (Ok (), w')" "linked w" "lossless w" "paced w"
  shows "linked w' \<and> lossless w' \<and> paced w'"
proof -
  have w': "w' = w\<lparr>rw_sys := (rw_sys w)\<lparr>rec_data_notifier :=
      ps_publish_immediate ps (rec_data (rw_sys w)) (rec_data_notifier (rw_sys w))\<rparr>\<rparr>"
    using assms(1) by (simp add: zoom_def record_publish_immediate_def modifyA_def)
  show ?thesis using assms(2-4)
    by (simp add: w' linked_def notified_def lossless_def paced_def taken_def Let_def cong: sync_pc.case_cong)
qed

lemma tick_keeps:
  assumes "exec (RecordTick n) w = (Ok (), w')" "linked w" "lossless w" "paced w"
  shows "linked w' \<and> lossless w' \<and> paced w'"
proof -
  have w': "w' = w\<lparr>rw_now := rw_now w + n\<rparr>" using assms(1) by simp
  have "linked w'" using assms(2)
    by (auto simp: w' linked_def notified_def Let_def split: sync_pc.splits)
  moreover have "lossless w'" using assms(3)
    by (cases "rw_pc w") (simp_all add: w' lossless_def)
  moreover have "paced w'" using assms(4) by (auto simp: w' paced_def taken_def)
  ultimately show ?thesis by simp
qed

lemma sync_keeps:
  assumes "exec RecordSync w = (Ok (), w')" "linked w" "lossless w" "paced w"
  shows "linked w' \<and> lossless w' \<and> paced w'"
proof (cases "rw_pc w")
  case SyncReceive
  with assms(1) obtain u c where recv: "ch_receive ch (rec_sync_notifier (rw_sys w)) = Some (u, c)"
    and w': "w' = w\<lparr>rw_sys := (rw_sys w)\<lparr>rec_sync_notifier := c\<rparr>, rw_pc := SyncRead\<rparr>"
    by (auto simp: act_Ok_iff receive_from_def split: option.splits)
  from receive_Some [OF recv] assms(2) SyncReceive
  have "rec_sync_at (rw_sys w) \<noteq> None" "queued c = []"
    by (auto simp: linked_def notified_def split: if_splits)
  with assms(4) SyncReceive show ?thesis
    by (auto simp: w' linked_def lossless_def paced_def taken_def)
next
  case SyncRead
  with assms(1) obtain at where at: "rec_sync_at (rw_sys w) = Some at"
    and w': "w' = w\<lparr>rw_pc := SyncSleep at\<rparr>"
    by (auto simp: act_Ok_iff)
  with assms(2,4) SyncRead show ?thesis
    by (simp add: w' linked_def lossless_def paced_def taken_def Let_def)
next
  case (SyncSleep at)
  with assms(1) have "at \<le> rw_now w" and w': "w' = w\<lparr>rw_pc := SyncTake\<rparr>"
    by (auto simp: act_Ok_iff split: if_splits)
  with assms(2,4) SyncSleep show ?thesis
    by (simp add: w' linked_def lossless_def paced_def taken_def Let_def)
next
  case SyncTake
  with assms(1) have
    w': "w' = w\<lparr>rw_sys := (rw_sys w)\<lparr>rec_sync_at := None\<rparr>, rw_pc := SyncStore (rec_data (rw_sys w))\<rparr>"
    by (auto simp: act_Ok_iff)
  from assms(2) SyncTake obtain at where "rec_sync_at (rw_sys w) = Some at" "at \<le> rw_now w"
    and "queued (rec_sync_notifier (rw_sys w)) = []"
    by (auto simp: linked_def Let_def)
  with assms(4) SyncTake show ?thesis
    by (simp add: w' linked_def notified_def lossless_def paced_def taken_def Let_def)
next
  case (SyncStore d)
  with assms(1) obtain f where store: "storage_store p ss part (record_entry pc) d (rec_flash (rw_sys w)) = (Ok (), f)"
    and w': "w' = w\<lparr>rw_sys := (rw_sys w)\<lparr>rec_flash := f\<rparr>, rw_pc := SyncReceive, rw_writes := Suc (rw_writes w)\<rparr>"
    by (auto simp: act_Ok_iff)
  have "data_saved stored f = d" using store_stored [OF store] by (simp add: data_saved_def)
  with assms(2-4) SyncStore show ?thesis
    by (auto simp: w' linked_def notified_def lossless_def paced_def taken_def Let_def)
qed

lemma event_keeps:
  assumes "exec ev w = (Ok (), w')" "linked w" "lossless w" "paced w"
  shows "linked w' \<and> lossless w' \<and> paced w'"
  using assms log_keeps sync_keeps publish_keeps tick_keeps by (cases ev) blast+

lemma init_establishes:
  assumes "(record_init p ss part pc ch ps :: ('f, unit, ('f, 'c, 'q) record_sys) act) f = (Ok s, f')"
  shows "linked (record_start s t) \<and> lossless (record_start s t) \<and> paced (record_start s t)"
proof -
  from assms obtain r where fetch: "storage_fetch p ss part (record_entry pc) f = (Ok r, f')"
    and s: "s = \<lparr>rec_data = (case r of Some v \<Rightarrow> v | None \<Rightarrow> record_data_default),
            rec_sync_at = None, rec_flash = f', rec_sync_notifier = ch_new ch, rec_data_notifier = ps_new ps\<rparr>"
    by (auto simp: record_init_def act_Ok_iff)
  from fetch_stored [OF fetch] show ?thesis
    by (simp add: s record_start_def linked_def notified_def lossless_def paced_def taken_def
        new_empty data_saved_def)
qed

lemma reachable_invariants:
  "reachable w \<Longrightarrow> linked w \<and> lossless w \<and> paced w"
  by (induction rule: record_reachable.induct) (simp_all add: init_establishes event_keeps)

text \<open>Who may wait or panic.\<close>

lemma log_outcome:
  assumes "linked w"
  shows "fst (exec (RecordLog d) w) =
    (if log_overflows p d (rec_data (rw_sys w)) then Panic else Ok ())"
proof (cases "log_overflows p d (rec_data (rw_sys w))")
  case True
  then obtain s' where "(record_log_overcurrent p tm ch ps (rw_now w) d :: (('f, 'c, 'q) record_sys, unit, unit) act)
      (rw_sys w) = (Panic, s')"
    using log_overflow_panics by blast
  with True show ?thesis by (simp add: zoom_def)
next
  case False
  obtain w' where "exec (RecordLog d) w = (Ok (), w')" by (rule log_step [OF assms False])
  with False show ?thesis by simp
qed

lemma sync_panic:
  assumes "linked w" "exec RecordSync w = (Panic, w')"
  shows "\<exists>d. rw_pc w = SyncStore d \<and>
    (\<nexists>f. storage_store p ss part (record_entry pc) d (rec_flash (rw_sys w)) = (Ok (), f))"
  using assms
  by (cases "rw_pc w")
    (auto simp: linked_def Let_def bindA_def zoom_def receive_from_def readA_def modifyA_def ret_def
      unwrapA_def pending_def split: option.splits prod.splits outcome.splits if_splits)

text \<open>A scheduled sync ends with the data in flash, if the task gets to run.\<close>

definition flushes :: "nat \<Rightarrow> ('f, 'c, 'q) record_world \<Rightarrow> bool" where
  "flushes n w \<longleftrightarrow> (\<exists>evs w'. length evs \<le> n \<and> set evs \<subseteq> {RecordSync, RecordTick period} \<and>
     forA exec evs w = (Ok (), w') \<and> rw_pc w' = SyncReceive \<and> rec_sync_at (rw_sys w') = None \<and>
     data_saved stored (rec_flash (rw_sys w')) = rec_data (rw_sys w) \<and>
     rec_data (rw_sys w') = rec_data (rw_sys w))"

lemma flushes_step:
  assumes "flushes n w1" "exec ev w = (Ok (), w1)" "ev \<in> {RecordSync, RecordTick period}"
    "rec_data (rw_sys w1) = rec_data (rw_sys w)"
  shows "flushes (Suc n) w"
proof -
  from assms(1) obtain evs w' where evs: "length evs \<le> n" "set evs \<subseteq> {RecordSync, RecordTick period}"
    and run: "forA exec evs w1 = (Ok (), w')" and w': "rw_pc w' = SyncReceive"
      "rec_sync_at (rw_sys w') = None" "data_saved stored (rec_flash (rw_sys w')) = rec_data (rw_sys w1)"
      "rec_data (rw_sys w') = rec_data (rw_sys w1)"
    unfolding flushes_def by blast
  have "forA exec (ev # evs) w = (Ok (), w')" using assms(2) run by (simp add: bindA_Ok)
  with evs w' assms(3,4) show ?thesis
    unfolding flushes_def by (intro exI [of _ "ev # evs"] exI [of _ w']) auto
qed

lemma flushes_mono: "flushes m w \<Longrightarrow> m \<le> n \<Longrightarrow> flushes n w"
  unfolding flushes_def by (meson le_trans)

lemma store_flushes:
  assumes "rw_pc w = SyncStore (rec_data (rw_sys w))" "rec_sync_at (rw_sys w) = None"
    "storage_store p ss part (record_entry pc) (rec_data (rw_sys w)) (rec_flash (rw_sys w)) = (Ok (), f)"
  shows "flushes 1 w"
proof -
  have "exec RecordSync w = (Ok (), w\<lparr>rw_sys := (rw_sys w)\<lparr>rec_flash := f\<rparr>,
      rw_pc := SyncReceive, rw_writes := Suc (rw_writes w)\<rparr>)"
    using assms by (simp add: bindA_def zoom_def unwrapA_def ret_def modifyA_def)
  then show ?thesis unfolding flushes_def using store_stored [OF assms(3)] assms(2)
    by (intro exI [of _ "[RecordSync]"]) (simp add: data_saved_def)
qed

lemma take_flushes:
  assumes "rw_pc w = SyncTake"
    "storage_store p ss part (record_entry pc) (rec_data (rw_sys w)) (rec_flash (rw_sys w)) = (Ok (), f)"
  shows "flushes 2 w"
proof -
  let ?w = "w\<lparr>rw_sys := (rw_sys w)\<lparr>rec_sync_at := None\<rparr>, rw_pc := SyncStore (rec_data (rw_sys w))\<rparr>"
  have "exec RecordSync w = (Ok (), ?w)"
    using assms(1) by (simp add: bindA_def zoom_def readA_def ret_def modifyA_def)
  from flushes_step [OF store_flushes this] assms(2) show ?thesis by (simp add: numeral_2_eq_2)
qed

lemma sleep_flushes:
  assumes "rw_pc w = SyncSleep at" "linked w" "paced w"
    "storage_store p ss part (record_entry pc) (rec_data (rw_sys w)) (rec_flash (rw_sys w)) = (Ok (), f)"
  shows "flushes 4 w"
proof -
  let ?w1 = "w\<lparr>rw_now := rw_now w + period\<rparr>"
  from assms(1-3) have "at \<le> rw_now w + period" by (auto simp: linked_def paced_def Let_def)
  then have "exec RecordSync ?w1 = (Ok (), ?w1\<lparr>rw_pc := SyncTake\<rparr>)"
    using assms(1) by (simp add: bindA_def zoom_def ret_def modifyA_def)
  from flushes_step [OF take_flushes this] assms(4) have "flushes 3 ?w1" by (simp add: numeral_3_eq_3)
  from flushes_step [OF this, of "RecordTick period" w] show ?thesis by simp
qed

lemma read_flushes:
  assumes "rw_pc w = SyncRead" "linked w" "paced w"
    "storage_store p ss part (record_entry pc) (rec_data (rw_sys w)) (rec_flash (rw_sys w)) = (Ok (), f)"
  shows "flushes 5 w"
proof -
  from assms(1,2) obtain at where at: "rec_sync_at (rw_sys w) = Some at"
    and idle: "queued (rec_sync_notifier (rw_sys w)) = []"
    by (auto simp: linked_def Let_def)
  let ?w1 = "w\<lparr>rw_pc := SyncSleep at\<rparr>"
  have run: "exec RecordSync w = (Ok (), ?w1)"
    using assms(1) at by (simp add: bindA_def zoom_def readA_def ret_def modifyA_def)
  have "flushes 4 ?w1"
    by (rule sleep_flushes) (use assms at idle in \<open>simp_all add: linked_def paced_def taken_def Let_def\<close>)
  from flushes_step [OF this run] show ?thesis by simp
qed

lemma receive_flushes:
  assumes "rw_pc w = SyncReceive" "linked w" "paced w" "rec_sync_at (rw_sys w) = Some t"
    "storage_store p ss part (record_entry pc) (rec_data (rw_sys w)) (rec_flash (rw_sys w)) = (Ok (), f)"
  shows "flushes 6 w"
proof -
  from assms(1,2,4) have "queued (rec_sync_notifier (rw_sys w)) = [()]"
    by (simp add: linked_def notified_def)
  from receive_some [OF this] obtain c where c: "ch_receive ch (rec_sync_notifier (rw_sys w)) = Some ((), c)"
    and idle: "queued c = []" by blast
  let ?w1 = "w\<lparr>rw_sys := (rw_sys w)\<lparr>rec_sync_notifier := c\<rparr>, rw_pc := SyncRead\<rparr>"
  have run: "exec RecordSync w = (Ok (), ?w1)"
    using assms(1) c by (simp add: bindA_def zoom_def receive_from_def ret_def modifyA_def)
  have "flushes 5 ?w1"
    by (rule read_flushes) (use assms idle in \<open>simp_all add: linked_def paced_def taken_def Let_def\<close>)
  from flushes_step [OF this run] show ?thesis by simp
qed

lemma scheduled_flushes:
  assumes "linked w" "lossless w" "paced w" "rec_sync_at (rw_sys w) = Some t"
    and stores: "\<And>d g. \<exists>g'. storage_store p ss part (record_entry pc) d g = (Ok (), g')"
  shows "flushes 7 w"
proof -
  from stores obtain f where f: "storage_store p ss part (record_entry pc)
      (rec_data (rw_sys w)) (rec_flash (rw_sys w)) = (Ok (), f)" by blast
  show ?thesis
  proof (cases "rw_pc w")
    case SyncReceive
    from flushes_mono [OF receive_flushes [OF SyncReceive assms(1,3,4) f]] show ?thesis by simp
  next
    case SyncRead
    from flushes_mono [OF read_flushes [OF SyncRead assms(1,3) f]] show ?thesis by simp
  next
    case (SyncSleep at)
    from flushes_mono [OF sleep_flushes [OF SyncSleep assms(1,3) f]] show ?thesis by simp
  next
    case SyncTake
    from flushes_mono [OF take_flushes [OF SyncTake f]] show ?thesis by simp
  next
    case (SyncStore d)
    from stores obtain g where g: "storage_store p ss part (record_entry pc) d (rec_flash (rw_sys w)) = (Ok (), g)"
      by blast
    let ?w1 = "w\<lparr>rw_sys := (rw_sys w)\<lparr>rec_flash := g\<rparr>, rw_pc := SyncReceive, rw_writes := Suc (rw_writes w)\<rparr>"
    have run: "exec RecordSync w = (Ok (), ?w1)"
      using SyncStore g by (simp add: bindA_def zoom_def unwrapA_def ret_def modifyA_def)
    from sync_keeps [OF run assms(1-3)] have "linked ?w1" "paced ?w1" by simp_all
    moreover from stores obtain f' where "storage_store p ss part (record_entry pc)
        (rec_data (rw_sys ?w1)) (rec_flash (rw_sys ?w1)) = (Ok (), f')" by blast
    ultimately have "flushes 6 ?w1" using assms(4) by (intro receive_flushes) simp_all
    from flushes_step [OF this run] show ?thesis by simp
  qed
qed

end

section \<open>A provider\<close>

definition ref_record_pc :: "record_data postcard" where
  "ref_record_pc = \<lparr>
     pc_to_slice = (\<lambda>v n. if n < 16 then None else
       Some (le_bytes (overcurrent_count v) @ le_bytes (overcurrent_secs v))),
     pc_from_bytes = (\<lambda>bs. if length bs \<noteq> 16 then None else
       Some \<lparr>overcurrent_count = le_word (take 8 bs), overcurrent_secs = le_word (drop 8 bs)\<rparr>)\<rparr>"

interpretation ref_record_pc: postcard_codec ref_record_pc
  by unfold_locales (auto simp: ref_record_pc_def le_word_bytes split: if_splits)

interpretation ref_record_entry: seq_storage_entry ref_ss "\<lambda>rng f. f rng"
  "record_entry ref_record_pc" Release ref_nvs
  by unfold_locales (simp_all add: record_entry_def ref_record_pc.decode_encode ref_record_pc.encode_fits)

interpretation ref_notify: bounded_channel "ref_ch NOTIFY_CAP" "\<lambda>c. c" NOTIFY_CAP
  by (rule rch.bounded_channel_axioms)

interpretation ref_record: record_system Release ref_ss ref_nvs ref_record_pc
  "stored_entry (\<lambda>rng f. f rng) Release ref_nvs (record_entry ref_record_pc)"
  "ref_ch NOTIFY_CAP" "\<lambda>c. c" ref_ps fst "\<lambda>q. fst (snd q)" "\<lambda>q. snd (snd q)" ref_tm
  by (intro record_system.intro ref_record_entry.contract rch.bounded_channel_axioms
      rps.pubsub_axioms rtm.embassy_time_axioms)

lemma record_systemI:
  assumes "seq_map ss items" "postcard_codec pc" "bounded_channel ch queued NOTIFY_CAP"
    "pubsub ps history publishers backlog" "embassy_time tm"
  shows "record_system p ss part pc (stored_entry items p part (record_entry pc)) ch queued
    ps history publishers backlog tm"
proof -
  have "seq_storage_entry ss items (record_entry pc)"
    using assms(1,2) by (intro seq_storage_entryI) (simp_all add: record_entry_def)
  from record_system.intro [OF seq_storage_entry.contract [OF this] assms(3-5)] show ?thesis .
qed

type_synonym ref_record_world = "(ref_flash, unit list, record_data list \<times> nat \<times> nat) record_world"

abbreviation ref_exec :: "record_event \<Rightarrow> (ref_record_world, unit, unit) act" where
  "ref_exec \<equiv> record_exec Release ref_tm ref_ss ref_nvs ref_record_pc (ref_ch NOTIFY_CAP) ref_ps"

abbreviation ref_reachable :: "ref_record_world \<Rightarrow> bool" where
  "ref_reachable \<equiv> record_reachable Release ref_tm ref_ss ref_nvs ref_record_pc (ref_ch NOTIFY_CAP) ref_ps"

text \<open>A world on an empty flash, before and after one event of 7 seconds is logged.\<close>

definition ref_world :: ref_record_world where
  "ref_world = record_start \<lparr>rec_data = record_data_default, rec_sync_at = None, rec_flash = (\<lambda>_ _. None),
     rec_sync_notifier = [], rec_data_notifier = ([], 0, 0)\<rparr> 5"

definition ref_logged :: ref_record_world where
  "ref_logged = ref_world\<lparr>rw_sys := (rw_sys ref_world)\<lparr>rec_data := log_data 7 record_data_default,
     rec_sync_at := Some 10000005, rec_sync_notifier := [()],
     rec_data_notifier := ([log_data 7 record_data_default], 0, 1)\<rparr>\<rparr>"

lemma ref_world_reachable: "ref_reachable ref_world"
proof -
  have "(record_init Release ref_ss ref_nvs ref_record_pc (ref_ch NOTIFY_CAP) ref_ps ::
      (ref_flash, unit, (ref_flash, unit list, record_data list \<times> nat \<times> nat) record_sys) act) (\<lambda>_ _. None) =
    (Ok (rw_sys ref_world), \<lambda>_ _. None)"
    by (simp add: record_init_def storage_fetch_def part_range_def ref_nvs_def bindA_def map_errA_def
        liftR_def ret_def unwrapA_def readA_def ref_ss_def key_serialized record_entry_def ref_ps_def
        ref_ch_def ref_world_def record_start_def del: key_serialize_into.simps)
  from record_reachable.init [OF this, of _ 5] show ?thesis
    by (simp add: ref_world_def record_start_def)
qed

lemma ref_log: "ref_exec (RecordLog 7) ref_world = (Ok (), ref_logged)"
proof -
  have "\<not> log_overflows Release 7 (rec_data (rw_sys ref_world))" by (simp add: log_overflows_def)
  then have "ref_exec (RecordLog 7) ref_world = (case record_schedule_sync ref_tm (ref_ch NOTIFY_CAP) ref_ps
      (rw_now ref_world) ((rw_sys ref_world)\<lparr>rec_data := log_data 7 (rec_data (rw_sys ref_world))\<rparr>) of
      (r, s) \<Rightarrow> (r, ref_world\<lparr>rw_sys := s\<rparr>))"
    by (simp add: zoom_def log_run)
  then show ?thesis
    by (simp add: schedule_run Let_def ref_world_def ref_logged_def record_start_def
        ref_tm_def ref_ch_def ref_ps_def NOTIFY_CAP_def SYNC_PERIOD_SECS_def)
qed

lemma ref_logged_reachable: "ref_reachable ref_logged"
  by (rule record_reachable.step [OF ref_world_reachable ref_log])

lemma ref_record_store:
  "\<exists>g'. storage_store Release ref_ss ref_nvs (record_entry ref_record_pc) d g = (Ok (), g')"
  by (simp add: storage_store_def part_range_def ref_nvs_def bindA_def map_errA_def liftR_def ret_def
      ref_ss_def key_serialized record_entry_def value_serialize_into_def ref_record_pc_def
      del: key_serialize_into.simps)

section \<open>Properties\<close>

text \<open>C16: Logging never waits and never finds the notification channel full, whatever the order in which
  callers and \<open>sync_task\<close> run: in every reachable state a call of \<open>log_overcurrent\<close> completes at
  once, with the counters advanced, the new data published and a sync scheduled, unless a counter
  overflows in a build with overflow checks, which panics.  And \<open>sync_at.unwrap()\<close> in the task
  never panics: the task panics only when a store of its data does not succeed.\<close>

theorem record_log_never_waits:
  fixes w :: "('f, 'c, 'q) record_world"
  assumes "seq_map ss items" "postcard_codec pc" "bounded_channel ch queued NOTIFY_CAP"
    "pubsub ps history publishers backlog" "embassy_time tm"
    and "record_reachable p tm ss part pc ch ps w"
  shows "(fst (record_exec p tm ss part pc ch ps (RecordLog d) w) =
        (if log_overflows p d (rec_data (rw_sys w)) then Panic else Ok ()))
    \<and> (\<forall>w'. record_exec p tm ss part pc ch ps (RecordLog d) w = (Ok (), w') \<longrightarrow>
        rec_data (rw_sys w') = log_data d (rec_data (rw_sys w))
        \<and> rec_sync_at (rw_sys w') \<noteq> None)
    \<and> (\<forall>w'. record_exec p tm ss part pc ch ps RecordSync w = (Panic, w') \<longrightarrow>
        (\<exists>data. rw_pc w = SyncStore data \<and> (\<nexists>f. storage_store p ss part (record_entry pc) data
          (rec_flash (rw_sys w)) = (Ok (), f))))"
proof -
  note sys = record_systemI [OF assms(1-5), of p part]
  have linked: "record_system.linked queued w"
    using record_system.reachable_invariants [OF sys assms(6)] by simp
  have "rec_data (rw_sys w') = log_data d (rec_data (rw_sys w)) \<and> rec_sync_at (rw_sys w') \<noteq> None"
    if run: "record_exec p tm ss part pc ch ps (RecordLog d) w = (Ok (), w')" for w'
    by (rule record_system.log_step [OF sys linked record_system.log_Ok [OF sys run]])
      (use run in auto)
  with record_system.log_outcome [OF sys linked] record_system.sync_panic [OF sys linked]
  show ?thesis by blast
qed

theorem record_log_never_waits_witness:
  "fst (ref_exec (RecordLog 3) ref_logged) = Ok () \<and> ref_reachable ref_logged"
  using record_log_never_waits [OF rss.seq_map_axioms ref_record_pc.postcard_codec_axioms
      rch.bounded_channel_axioms rps.pubsub_axioms rtm.embassy_time_axioms ref_logged_reachable, of 3]
    ref_logged_reachable
  by (simp add: log_overflows_def)

text \<open>C3: Nothing that was logged is forgotten.  In every reachable state in which no sync is scheduled,
  the data in flash is the data in memory, or \<open>sync_task\<close> is about to store exactly that; and
  when a sync is scheduled, at most seven more events of the task and the clock bring the data in
  memory to flash, provided that stores succeed.\<close>

theorem record_nothing_lost:
  fixes w :: "('f, 'c, 'q) record_world"
  assumes "seq_map ss items" "postcard_codec pc" "bounded_channel ch queued NOTIFY_CAP"
    "pubsub ps history publishers backlog" "embassy_time tm"
    and "record_reachable p tm ss part pc ch ps w"
    and "\<And>d g. \<exists>g'. storage_store p ss part (record_entry pc) d g = (Ok (), g')"
  defines "saved \<equiv> \<lambda>v. data_saved (stored_entry items p part (record_entry pc)) (rec_flash (rw_sys v))"
  shows "(rec_sync_at (rw_sys w) = None \<longrightarrow>
        rw_pc w = SyncStore (rec_data (rw_sys w)) \<or> saved w = rec_data (rw_sys w))
    \<and> (rec_sync_at (rw_sys w) \<noteq> None \<longrightarrow>
        (\<exists>evs w'. length evs \<le> 7 \<and> set evs \<subseteq> {RecordSync, RecordTick (from_secs tm SYNC_PERIOD_SECS)}
          \<and> forA (record_exec p tm ss part pc ch ps) evs w = (Ok (), w')
          \<and> rec_sync_at (rw_sys w') = None \<and> rw_pc w' = SyncReceive
          \<and> saved w' = rec_data (rw_sys w) \<and> rec_data (rw_sys w') = rec_data (rw_sys w)))"
proof -
  note sys = record_systemI [OF assms(1-5), of p part]
  let ?stored = "stored_entry items p part (record_entry pc)"
  have inv: "record_system.linked queued w" "record_system.lossless ?stored w" "record_system.paced tm w"
    using record_system.reachable_invariants [OF sys assms(6)] by simp_all
  have "rw_pc w = SyncStore (rec_data (rw_sys w)) \<or> saved w = rec_data (rw_sys w)"
    if "rec_sync_at (rw_sys w) = None"
    using inv(2) that
    by (auto simp: record_system.lossless_def [OF sys] saved_def split: sync_pc.splits)
  moreover have "record_system.flushes p ss part pc ?stored ch ps tm 7 w" if "rec_sync_at (rw_sys w) \<noteq> None"
    using record_system.scheduled_flushes [OF sys inv] that assms(7) by blast
  ultimately show ?thesis
    unfolding record_system.flushes_def [OF sys] saved_def by blast
qed

theorem record_nothing_lost_witness:
  "\<exists>evs w'. length evs \<le> 7 \<and> forA ref_exec evs ref_logged = (Ok (), w')
    \<and> stored_entry (\<lambda>rng f. f rng) Release ref_nvs (record_entry ref_record_pc) (rec_flash (rw_sys w'))
        = Some (log_data 7 record_data_default)"
proof -
  have "rec_sync_at (rw_sys ref_logged) \<noteq> None" by (simp add: ref_logged_def)
  with record_nothing_lost [OF rss.seq_map_axioms ref_record_pc.postcard_codec_axioms
      rch.bounded_channel_axioms rps.pubsub_axioms rtm.embassy_time_axioms ref_logged_reachable ref_record_store]
  obtain evs w' where "length evs \<le> 7" "forA ref_exec evs ref_logged = (Ok (), w')"
    and "data_saved (stored_entry (\<lambda>rng f. f rng) Release ref_nvs (record_entry ref_record_pc))
      (rec_flash (rw_sys w')) = log_data 7 record_data_default"
    by (auto simp: ref_logged_def)
  moreover have "log_data 7 record_data_default \<noteq> record_data_default"
    by (simp add: log_data_def record_data_default_def)
  ultimately show ?thesis by (auto simp: data_saved_def split: option.splits)
qed



end
