(* ===== verification/Stusb4500.thy ===== *)
theory Stusb4500
  imports Device_Driver
begin

text \<open>
  The driver of the STUSB4500 USB-PD sink controller: the enumerations and the power data
  object of \<open>drivers/stusb4500/mod.rs\<close>, the register map and bus transactions of
  \<open>drivers/stusb4500/ll.rs\<close>, and the operations of \<open>drivers/stusb4500/hl.rs\<close>.
\<close>

section \<open>Enumerations and power data objects\<close>

datatype ctrl1_op_code =
  ReadSector | LoadPlr | LoadSer | DumpPlr | DumpSer | EraseSectors | WriteSector

fun ctrl1_op_code_bits :: "ctrl1_op_code \<Rightarrow> u8" where
  "ctrl1_op_code_bits ReadSector = 0x00"
| "ctrl1_op_code_bits LoadPlr = 0x01"
| "ctrl1_op_code_bits LoadSer = 0x02"
| "ctrl1_op_code_bits DumpPlr = 0x03"
| "ctrl1_op_code_bits DumpSer = 0x04"
| "ctrl1_op_code_bits EraseSectors = 0x05"
| "ctrl1_op_code_bits WriteSector = 0x06"

datatype policy_engine_fsm_state =
    Init | SoftReset | HardReset | SendSoftReset | CBist
  | SnkStartup | SnkDiscovery | SnkWaitForCapabilities | SnkEvaluateCapabilities
  | SnkSelectCapabilities | SnkTransitionSink | SnkReady | SnkReadySending
  | HardResetShutdown | HardResetRecovery | Errorrecovery

fun fsm_state_bits :: "policy_engine_fsm_state \<Rightarrow> u8" where
  "fsm_state_bits Init = 0x00"
| "fsm_state_bits SoftReset = 0x01"
| "fsm_state_bits HardReset = 0x02"
| "fsm_state_bits SendSoftReset = 0x03"
| "fsm_state_bits CBist = 0x04"
| "fsm_state_bits SnkStartup = 0x12"
| "fsm_state_bits SnkDiscovery = 0x13"
| "fsm_state_bits SnkWaitForCapabilities = 0x14"
| "fsm_state_bits SnkEvaluateCapabilities = 0x15"
| "fsm_state_bits SnkSelectCapabilities = 0x16"
| "fsm_state_bits SnkTransitionSink = 0x17"
| "fsm_state_bits SnkReady = 0x18"
| "fsm_state_bits SnkReadySending = 0x19"
| "fsm_state_bits HardResetShutdown = 0x3A"
| "fsm_state_bits HardResetRecovery = 0x3B"
| "fsm_state_bits Errorrecovery = 0x40"

definition fsm_states :: "policy_engine_fsm_state list" where
  "fsm_states = [Init, SoftReset, HardReset, SendSoftReset, CBist, SnkStartup, SnkDiscovery,
     SnkWaitForCapabilities, SnkEvaluateCapabilities, SnkSelectCapabilities, SnkTransitionSink,
     SnkReady, SnkReadySending, HardResetShutdown, HardResetRecovery, Errorrecovery]"

text \<open>\<open>TryFromPrimitive\<close>: the variant with the discriminant, if there is one.\<close>

definition fsm_state_of :: "u8 \<Rightarrow> policy_engine_fsm_state option" where
  "fsm_state_of x = find (\<lambda>s. fsm_state_bits s = x) fsm_states"

text \<open>
  The \<open>bitfield!\<close> macro makes a setter and a getter of each field of \<open>FixedPdo\<close> from its
  bits, the last one first; the crate's two operations are parameters.
\<close>

record bitfield_ops =
  bf_set :: "nat \<Rightarrow> nat \<Rightarrow> u32 \<Rightarrow> u32 \<Rightarrow> u32"
  bf_get :: "nat \<Rightarrow> nat \<Rightarrow> u32 \<Rightarrow> u32"

locale bitfield_crate =
  fixes bf :: bitfield_ops
  assumes bf_set_bit: "lo \<le> hi \<Longrightarrow> hi < 32 \<Longrightarrow> i < 32 \<Longrightarrow>
      bit (bf_set bf hi lo v x) i = (if lo \<le> i \<and> i \<le> hi then bit v (i - lo) else bit x i)"
    and bf_get_bit: "lo \<le> hi \<Longrightarrow> hi < 32 \<Longrightarrow> i < 32 \<Longrightarrow>
      bit (bf_get bf hi lo x) i = (i \<le> hi - lo \<and> bit x (lo + i))"

datatype fixed_pdo = FixedPdo u32

fun pdo_bits :: "fixed_pdo \<Rightarrow> u32" where "pdo_bits (FixedPdo x) = x"

definition pdo_voltage :: "bitfield_ops \<Rightarrow> fixed_pdo \<Rightarrow> u32" where
  "pdo_voltage bf p = bf_get bf 19 10 (pdo_bits p)"

definition pdo_current :: "bitfield_ops \<Rightarrow> fixed_pdo \<Rightarrow> u32" where
  "pdo_current bf p = bf_get bf 9 0 (pdo_bits p)"

definition pdo_set_voltage :: "bitfield_ops \<Rightarrow> u32 \<Rightarrow> fixed_pdo \<Rightarrow> fixed_pdo" where
  "pdo_set_voltage bf v p = FixedPdo (bf_set bf 19 10 v (pdo_bits p))"

definition pdo_set_current :: "bitfield_ops \<Rightarrow> u32 \<Rightarrow> fixed_pdo \<Rightarrow> fixed_pdo" where
  "pdo_set_current bf v p = FixedPdo (bf_set bf 9 0 v (pdo_bits p))"

definition fixed_pdo_new :: "bitfield_ops \<Rightarrow> u16 \<Rightarrow> u16 \<Rightarrow> fixed_pdo" where
  "fixed_pdo_new bf voltage current =
     pdo_set_current bf (ucast current) (pdo_set_voltage bf (ucast voltage) (FixedPdo 0))"

text \<open>All the fields with their bits; those of one bit are read and set as booleans.\<close>

datatype pdo_field =
    PdoFixed | DualRolePower | HigherCapability | UnconstrainedPower | UsbCommunicationsCapable
  | DualRoleData | FastRoleSwap | PdoReserved | PdoVoltage | PdoCurrent

fun pdo_range :: "pdo_field \<Rightarrow> nat \<times> nat" where
  "pdo_range PdoFixed = (31, 30)"
| "pdo_range DualRolePower = (29, 29)"
| "pdo_range HigherCapability = (28, 28)"
| "pdo_range UnconstrainedPower = (27, 27)"
| "pdo_range UsbCommunicationsCapable = (26, 26)"
| "pdo_range DualRoleData = (25, 25)"
| "pdo_range FastRoleSwap = (24, 23)"
| "pdo_range PdoReserved = (22, 20)"
| "pdo_range PdoVoltage = (19, 10)"
| "pdo_range PdoCurrent = (9, 0)"

definition pdo_get :: "bitfield_ops \<Rightarrow> pdo_field \<Rightarrow> fixed_pdo \<Rightarrow> u32" where
  "pdo_get bf f p = (case pdo_range f of (hi, lo) \<Rightarrow> bf_get bf hi lo (pdo_bits p))"

text \<open>The first and the reserved field have no setter.\<close>

definition pdo_put :: "bitfield_ops \<Rightarrow> pdo_field \<Rightarrow> u32 \<Rightarrow> fixed_pdo \<Rightarrow> fixed_pdo option" where
  "pdo_put bf f v p =
     (if f = PdoFixed \<or> f = PdoReserved then None
      else case pdo_range f of (hi, lo) \<Rightarrow> Some (FixedPdo (bf_set bf hi lo v (pdo_bits p))))"

definition pdo_flag :: "bitfield_ops \<Rightarrow> pdo_field \<Rightarrow> fixed_pdo \<Rightarrow> bool" where
  "pdo_flag bf f p = (pdo_get bf f p \<noteq> 0)"

definition pdo_set_flag :: "bitfield_ops \<Rightarrow> pdo_field \<Rightarrow> bool \<Rightarrow> fixed_pdo \<Rightarrow> fixed_pdo option" where
  "pdo_set_flag bf f b p = pdo_put bf f (of_bool b) p"

datatype pdo_channel = PDO1 | PDO2 | PDO3

section \<open>Register map and bus transactions\<close>

definition STUSB_MAX_TRANSACTION_SIZE :: nat where "STUSB_MAX_TRANSACTION_SIZE = 9"
definition STUSB_ADDRESS :: u8 where "STUSB_ADDRESS = 0x28"

datatype stusb_reg =
    PDCommandCtrl | PolicyEngineFSM | GPIOSwGPIO | DeviceID | TXHeader | DPMPDONUMB
  | DPMSNKPDO1 | DPMSNKPDO2 | DPMSNKPDO3 | RDOStatus | NVMPassword | NVMCtrl0 | NVMCtrl1

fun stusb_address :: "stusb_reg \<Rightarrow> u8" where
  "stusb_address PDCommandCtrl = 0x1A"
| "stusb_address PolicyEngineFSM = 0x29"
| "stusb_address GPIOSwGPIO = 0x2D"
| "stusb_address DeviceID = 0x2F"
| "stusb_address TXHeader = 0x51"
| "stusb_address DPMPDONUMB = 0x70"
| "stusb_address DPMSNKPDO1 = 0x85"
| "stusb_address DPMSNKPDO2 = 0x89"
| "stusb_address DPMSNKPDO3 = 0x8D"
| "stusb_address RDOStatus = 0x91"
| "stusb_address NVMPassword = 0x95"
| "stusb_address NVMCtrl0 = 0x96"
| "stusb_address NVMCtrl1 = 0x97"

fun stusb_size_bits :: "stusb_reg \<Rightarrow> nat" where
  "stusb_size_bits DPMSNKPDO1 = 32"
| "stusb_size_bits DPMSNKPDO2 = 32"
| "stusb_size_bits DPMSNKPDO3 = 32"
| "stusb_size_bits RDOStatus = 32"
| "stusb_size_bits _ = 8"

abbreviation stusb_bytes :: "stusb_reg \<Rightarrow> nat" where
  "stusb_bytes r \<equiv> stusb_size_bits r div 8"

text \<open>The buffer \<open>RWBuffer\<close> of eight bytes.\<close>

definition RWBUFFER_ID :: u32 where "RWBUFFER_ID = 0x53"

datatype stusb_field =
    Cmd_send_command | Fsm_pe_fsm_state | Gpio_sw_gpio | Device_value | Tx_header | Pdo_number
  | Pdo1_value | Pdo2_value | Pdo3_value
  | Rdo_max_current | Rdo_current | Rdo_extended_supported | Rdo_no_usb_suspend
  | Rdo_usb_comms_capable | Rdo_capability_mismatch | Rdo_give_back | Rdo_object_position
  | Nvm_password
  | Ctrl0_sector | Ctrl0_request | Ctrl0_enable | Ctrl0_power | Ctrl0_value
  | Ctrl1_op_code | Ctrl1_erase_sector0 | Ctrl1_erase_sector1 | Ctrl1_erase_sector2
  | Ctrl1_erase_sector3 | Ctrl1_erase_sector4 | Ctrl1_value

fun stusb_layout :: "stusb_field \<Rightarrow> stusb_reg \<times> nat \<times> nat" where
  "stusb_layout Cmd_send_command = (PDCommandCtrl, 0, 6)"
| "stusb_layout Fsm_pe_fsm_state = (PolicyEngineFSM, 0, 8)"
| "stusb_layout Gpio_sw_gpio = (GPIOSwGPIO, 0, 1)"
| "stusb_layout Device_value = (DeviceID, 0, 8)"
| "stusb_layout Tx_header = (TXHeader, 0, 8)"
| "stusb_layout Pdo_number = (DPMPDONUMB, 0, 3)"
| "stusb_layout Pdo1_value = (DPMSNKPDO1, 0, 32)"
| "stusb_layout Pdo2_value = (DPMSNKPDO2, 0, 32)"
| "stusb_layout Pdo3_value = (DPMSNKPDO3, 0, 32)"
| "stusb_layout Rdo_max_current = (RDOStatus, 0, 10)"
| "stusb_layout Rdo_current = (RDOStatus, 10, 20)"
| "stusb_layout Rdo_extended_supported = (RDOStatus, 23, 24)"
| "stusb_layout Rdo_no_usb_suspend = (RDOStatus, 24, 25)"
| "stusb_layout Rdo_usb_comms_capable = (RDOStatus, 25, 26)"
| "stusb_layout Rdo_capability_mismatch = (RDOStatus, 26, 27)"
| "stusb_layout Rdo_give_back = (RDOStatus, 27, 28)"
| "stusb_layout Rdo_object_position = (RDOStatus, 28, 32)"
| "stusb_layout Nvm_password = (NVMPassword, 0, 8)"
| "stusb_layout Ctrl0_sector = (NVMCtrl0, 0, 4)"
| "stusb_layout Ctrl0_request = (NVMCtrl0, 4, 5)"
| "stusb_layout Ctrl0_enable = (NVMCtrl0, 6, 7)"
| "stusb_layout Ctrl0_power = (NVMCtrl0, 7, 8)"
| "stusb_layout Ctrl0_value = (NVMCtrl0, 0, 8)"
| "stusb_layout Ctrl1_op_code = (NVMCtrl1, 0, 3)"
| "stusb_layout Ctrl1_erase_sector0 = (NVMCtrl1, 3, 4)"
| "stusb_layout Ctrl1_erase_sector1 = (NVMCtrl1, 4, 5)"
| "stusb_layout Ctrl1_erase_sector2 = (NVMCtrl1, 5, 6)"
| "stusb_layout Ctrl1_erase_sector3 = (NVMCtrl1, 6, 7)"
| "stusb_layout Ctrl1_erase_sector4 = (NVMCtrl1, 7, 8)"
| "stusb_layout Ctrl1_value = (NVMCtrl1, 0, 8)"

definition stusb_write_register ::
  "('b, 'e) i2c_bus \<Rightarrow> stusb_reg \<Rightarrow> u8 list \<Rightarrow> ('b, 'e, unit) act" where
  "stusb_write_register i2c r data =
     (case frame STUSB_MAX_TRANSACTION_SIZE (stusb_address r) data of
        None \<Rightarrow> panic
      | Some buf \<Rightarrow> liftR (i2c_write i2c STUSB_ADDRESS (take (length data + 1) buf)))"

definition stusb_read_register ::
  "('b, 'e) i2c_bus \<Rightarrow> stusb_reg \<Rightarrow> nat \<Rightarrow> ('b, 'e, u8 list) act" where
  "stusb_read_register i2c r n = liftR (i2c_write_read i2c STUSB_ADDRESS [stusb_address r] n)"

text \<open>
  The buffer functions.  \<open>write\<close> sends the whole nine-byte buffer, whatever the length of the
  data, where \<open>write_register\<close> cuts it.
\<close>

definition stusb_buffer_write ::
  "('b, 'e) i2c_bus \<Rightarrow> u32 \<Rightarrow> u8 list \<Rightarrow> ('b, io_error, nat) act" where
  "stusb_buffer_write i2c addr data =
     (case frame STUSB_MAX_TRANSACTION_SIZE (ucast addr) data of
        None \<Rightarrow> panic
      | Some buf \<Rightarrow>
          bindA (map_errA (\<lambda>_. IoOther) (liftR (i2c_write i2c STUSB_ADDRESS buf)))
            (\<lambda>_. ret (length data)))"

definition stusb_buffer_read ::
  "('b, 'e) i2c_bus \<Rightarrow> u32 \<Rightarrow> nat \<Rightarrow> ('b, io_error, u8 list) act" where
  "stusb_buffer_read i2c addr n =
     map_errA (\<lambda>_. IoOther) (liftR (i2c_write_read i2c STUSB_ADDRESS [ucast addr] n))"

text \<open>The accessors that the macro generates from the map.\<close>

definition stusb_set :: "('b, 'e) dd_ops \<Rightarrow> stusb_field \<Rightarrow> u32 \<Rightarrow> u8 list \<Rightarrow> u8 list" where
  "stusb_set dd f v bs = (case stusb_layout f of (_, lo, hi) \<Rightarrow> dd_store dd lo hi v bs)"

definition stusb_get :: "('b, 'e) dd_ops \<Rightarrow> stusb_field \<Rightarrow> u8 list \<Rightarrow> u32" where
  "stusb_get dd f bs = (case stusb_layout f of (_, lo, hi) \<Rightarrow> dd_load dd lo hi bs)"

abbreviation stusb_set_flag ::
  "('b, 'e) dd_ops \<Rightarrow> stusb_field \<Rightarrow> bool \<Rightarrow> u8 list \<Rightarrow> u8 list" where
  "stusb_set_flag dd f x \<equiv> stusb_set dd f (of_bool x)"

abbreviation stusb_flag :: "('b, 'e) dd_ops \<Rightarrow> stusb_field \<Rightarrow> u8 list \<Rightarrow> bool" where
  "stusb_flag dd f bs \<equiv> stusb_get dd f bs \<noteq> 0"

definition stusb_write :: "('b, 'e) i2c_bus \<Rightarrow> ('b, 'e) dd_ops \<Rightarrow> stusb_reg \<Rightarrow>
    (u8 list \<Rightarrow> u8 list) \<Rightarrow> ('b, 'e, unit) act" where
  "stusb_write i2c dd r f = dd_write dd (stusb_write_register i2c r) (stusb_bytes r) f"

definition stusb_read :: "('b, 'e) i2c_bus \<Rightarrow> ('b, 'e) dd_ops \<Rightarrow> stusb_reg \<Rightarrow>
    ('b, 'e, u8 list) act" where
  "stusb_read i2c dd r = dd_read dd (stusb_read_register i2c r) (stusb_bytes r)"

definition stusb_modify :: "('b, 'e) i2c_bus \<Rightarrow> ('b, 'e) dd_ops \<Rightarrow> stusb_reg \<Rightarrow>
    (u8 list \<Rightarrow> u8 list) \<Rightarrow> ('b, 'e, unit) act" where
  "stusb_modify i2c dd r f =
     dd_modify dd (stusb_read_register i2c r) (stusb_write_register i2c r) (stusb_bytes r) f"

definition rw_buffer_read_exact ::
  "('b, 'e) i2c_bus \<Rightarrow> ('b, 'e) dd_ops \<Rightarrow> nat \<Rightarrow> ('b, io_error, u8 list) act" where
  "rw_buffer_read_exact i2c dd n = dd_read_exact dd (stusb_buffer_read i2c RWBUFFER_ID) n"

definition rw_buffer_write_all ::
  "('b, 'e) i2c_bus \<Rightarrow> ('b, 'e) dd_ops \<Rightarrow> u8 list \<Rightarrow> ('b, io_error, unit) act" where
  "rw_buffer_write_all i2c dd data = dd_write_all dd (stusb_buffer_write i2c RWBUFFER_ID) data"

section \<open>Operations\<close>

datatype 'e hl_error = HlI2C 'e | HlIO | HlDeviceIDMismatch | HlInvalidValue | HlTimeout

text \<open>
  \<open>STUSB4500::new\<close>: the identification register is read, a millisecond apart, until a read
  succeeds or the 100 ms of \<open>with_timeout\<close> are over; \<open>polls\<close> is the number of reads that
  fit in them.
\<close>

fun stusb_poll_id :: "('b, 'e) i2c_bus \<Rightarrow> ('b, 'e) dd_ops \<Rightarrow> nat \<Rightarrow> ('b, 'e hl_error, u32) act" where
  "stusb_poll_id i2c dd 0 b = (Err HlTimeout, b)"
| "stusb_poll_id i2c dd (Suc polls) b =
     (case stusb_read i2c dd DeviceID b of
        (Ok reg, b') \<Rightarrow> (Ok (stusb_get dd Device_value reg), b')
      | (Err e, b') \<Rightarrow> stusb_poll_id i2c dd polls b'
      | (Panic, b') \<Rightarrow> (Panic, b')
      | (Pending, b') \<Rightarrow> (Pending, b'))"

definition stusb_new :: "('b, 'e) i2c_bus \<Rightarrow> ('b, 'e) dd_ops \<Rightarrow> nat \<Rightarrow> ('b, 'e hl_error, unit) act" where
  "stusb_new i2c dd polls =
     bindA (stusb_poll_id i2c dd polls) (\<lambda>device_id.
       if device_id \<noteq> 0x25 then fail HlDeviceIDMismatch else ret ())"

definition stusb_unlock_nvm :: "('b, 'e) i2c_bus \<Rightarrow> ('b, 'e) dd_ops \<Rightarrow> ('b, 'e, unit) act" where
  "stusb_unlock_nvm i2c dd =
     seqA (stusb_write i2c dd NVMPassword (stusb_set dd Nvm_password 0x47))
    (seqA (stusb_write i2c dd NVMCtrl0 (stusb_set dd Ctrl0_value 0x00))
          (stusb_write i2c dd NVMCtrl0
             (stusb_set_flag dd Ctrl0_enable True \<circ> stusb_set_flag dd Ctrl0_power True)))"

definition stusb_issue_pd_reset :: "('b, 'e) i2c_bus \<Rightarrow> ('b, 'e) dd_ops \<Rightarrow> ('b, 'e, unit) act" where
  "stusb_issue_pd_reset i2c dd =
     seqA (stusb_write i2c dd TXHeader (stusb_set dd Tx_header 0x0D))
          (stusb_write i2c dd PDCommandCtrl (stusb_set dd Cmd_send_command 0x26))"

definition stusb_fsm_state :: "('b, 'e) i2c_bus \<Rightarrow> ('b, 'e) dd_ops \<Rightarrow>
    ('b, 'e hl_error, policy_engine_fsm_state) act" where
  "stusb_fsm_state i2c dd =
     bindA (map_errA HlI2C (stusb_read i2c dd PolicyEngineFSM)) (\<lambda>reg.
       case fsm_state_of (ucast (stusb_get dd Fsm_pe_fsm_state reg)) of
         Some s \<Rightarrow> ret s
       | None \<Rightarrow> fail HlInvalidValue)"

definition stusb_gpio_set_level :: "('b, 'e) i2c_bus \<Rightarrow> ('b, 'e) dd_ops \<Rightarrow> bool \<Rightarrow>
    ('b, 'e hl_error, unit) act" where
  "stusb_gpio_set_level i2c dd level =
     map_errA HlI2C (stusb_write i2c dd GPIOSwGPIO (stusb_set_flag dd Gpio_sw_gpio (\<not> level)))"

definition stusb_rdo :: "('b, 'e) i2c_bus \<Rightarrow> ('b, 'e) dd_ops \<Rightarrow> ('b, 'e, u8 list) act" where
  "stusb_rdo i2c dd = stusb_read i2c dd RDOStatus"

definition stusb_set_pdo :: "('b, 'e) i2c_bus \<Rightarrow> ('b, 'e) dd_ops \<Rightarrow> pdo_channel \<Rightarrow> fixed_pdo \<Rightarrow>
    ('b, 'e, unit) act" where
  "stusb_set_pdo i2c dd channel pdo =
     (let bits = pdo_bits pdo in
      case channel of
        PDO1 \<Rightarrow> stusb_write i2c dd DPMSNKPDO1 (stusb_set dd Pdo1_value bits)
      | PDO2 \<Rightarrow> stusb_write i2c dd DPMSNKPDO2 (stusb_set dd Pdo2_value bits)
      | PDO3 \<Rightarrow> stusb_write i2c dd DPMSNKPDO3 (stusb_set dd Pdo3_value bits))"

definition stusb_set_pdo_num :: "('b, 'e) i2c_bus \<Rightarrow> ('b, 'e) dd_ops \<Rightarrow> u8 \<Rightarrow> ('b, 'e, unit) act" where
  "stusb_set_pdo_num i2c dd num =
     stusb_modify i2c dd DPMPDONUMB (stusb_set dd Pdo_number (ucast num))"

subsection \<open>The non-volatile memory\<close>

definition stusb_lock_nvm :: "('b, 'e) i2c_bus \<Rightarrow> ('b, 'e) dd_ops \<Rightarrow> ('b, 'e, unit) act" where
  "stusb_lock_nvm i2c dd =
     seqA (stusb_write i2c dd NVMCtrl0 (stusb_set_flag dd Ctrl0_enable True))
    (seqA (stusb_write i2c dd NVMCtrl1 (stusb_set dd Ctrl1_value 0x00))
          (stusb_write i2c dd NVMPassword (stusb_set dd Nvm_password 0x00)))"

text \<open>
  The loop that waits for the request bit has no timeout in the code; \<open>polls\<close> is the number
  of turns it is given, and it is pending when they are used up.
\<close>

fun stusb_await_request :: "('b, 'e) i2c_bus \<Rightarrow> ('b, 'e) dd_ops \<Rightarrow> nat \<Rightarrow> ('b, 'e, unit) act" where
  "stusb_await_request i2c dd 0 = pending"
| "stusb_await_request i2c dd (Suc polls) =
     bindA (stusb_read i2c dd NVMCtrl0) (\<lambda>reg.
       if \<not> stusb_flag dd Ctrl0_request reg then ret ()
       else stusb_await_request i2c dd polls)"

definition stusb_issue_request_with_sector ::
  "('b, 'e) i2c_bus \<Rightarrow> ('b, 'e) dd_ops \<Rightarrow> nat \<Rightarrow> u8 \<Rightarrow> ('b, 'e, unit) act" where
  "stusb_issue_request_with_sector i2c dd polls sector =
     seqA (stusb_write i2c dd NVMCtrl0
             (stusb_set_flag dd Ctrl0_request True \<circ> stusb_set_flag dd Ctrl0_enable True \<circ>
              stusb_set_flag dd Ctrl0_power True \<circ> stusb_set dd Ctrl0_sector (ucast sector)))
          (stusb_await_request i2c dd polls)"

definition stusb_issue_request ::
  "('b, 'e) i2c_bus \<Rightarrow> ('b, 'e) dd_ops \<Rightarrow> nat \<Rightarrow> ('b, 'e, unit) act" where
  "stusb_issue_request i2c dd polls = stusb_issue_request_with_sector i2c dd polls 0"

definition stusb_set_op_code :: "('b, 'e) dd_ops \<Rightarrow> ctrl1_op_code \<Rightarrow> u8 list \<Rightarrow> u8 list" where
  "stusb_set_op_code dd c = stusb_set dd Ctrl1_op_code (ucast (ctrl1_op_code_bits c))"

definition stusb_erase_sectors ::
  "('b, 'e) i2c_bus \<Rightarrow> ('b, 'e) dd_ops \<Rightarrow> nat \<Rightarrow> ('b, 'e, unit) act" where
  "stusb_erase_sectors i2c dd polls =
     seqA (stusb_write i2c dd NVMCtrl1
             (stusb_set_flag dd Ctrl1_erase_sector4 True \<circ>
              stusb_set_flag dd Ctrl1_erase_sector3 True \<circ>
              stusb_set_flag dd Ctrl1_erase_sector2 True \<circ>
              stusb_set_flag dd Ctrl1_erase_sector1 True \<circ>
              stusb_set_flag dd Ctrl1_erase_sector0 True \<circ> stusb_set_op_code dd LoadSer))
    (seqA (stusb_issue_request i2c dd polls)
    (seqA (stusb_write i2c dd NVMCtrl1 (stusb_set_op_code dd EraseSectors))
          (stusb_issue_request i2c dd polls)))"

definition stusb_read_sector ::
  "('b, 'e) i2c_bus \<Rightarrow> ('b, 'e) dd_ops \<Rightarrow> nat \<Rightarrow> u8 \<Rightarrow> ('b, 'e hl_error, u8 list) act" where
  "stusb_read_sector i2c dd polls sector =
     seqA (map_errA HlI2C (stusb_write i2c dd NVMCtrl1 (stusb_set_op_code dd ReadSector)))
    (seqA (map_errA HlI2C (stusb_issue_request_with_sector i2c dd polls sector))
          (map_errA (\<lambda>_. HlIO) (rw_buffer_read_exact i2c dd 8)))"

definition stusb_write_sector ::
  "('b, 'e) i2c_bus \<Rightarrow> ('b, 'e) dd_ops \<Rightarrow> nat \<Rightarrow> u8 \<Rightarrow> u8 list \<Rightarrow> ('b, 'e hl_error, unit) act" where
  "stusb_write_sector i2c dd polls sector data =
     seqA (map_errA (\<lambda>_. HlIO) (rw_buffer_write_all i2c dd data))
    (seqA (map_errA HlI2C (stusb_write i2c dd NVMCtrl1 (stusb_set_op_code dd LoadPlr)))
    (seqA (map_errA HlI2C (stusb_issue_request i2c dd polls))
    (seqA (map_errA HlI2C (stusb_write i2c dd NVMCtrl1 (stusb_set_op_code dd WriteSector)))
          (map_errA HlI2C (stusb_issue_request_with_sector i2c dd polls sector)))))"

definition NUM_SECTORS :: nat where "NUM_SECTORS = 5"

definition stusb_read_sectors ::
  "('b, 'e) i2c_bus \<Rightarrow> ('b, 'e) dd_ops \<Rightarrow> nat \<Rightarrow> ('b, 'e hl_error, u8 list list) act" where
  "stusb_read_sectors i2c dd polls =
     mapA (\<lambda>i. stusb_read_sector i2c dd polls (of_nat i)) [0..<NUM_SECTORS]"

definition stusb_write_sectors ::
  "('b, 'e) i2c_bus \<Rightarrow> ('b, 'e) dd_ops \<Rightarrow> nat \<Rightarrow> u8 list list \<Rightarrow> ('b, 'e hl_error, unit) act" where
  "stusb_write_sectors i2c dd polls buf =
     seqA (map_errA HlI2C (stusb_erase_sectors i2c dd polls))
          (forA (\<lambda>(i, sector). stusb_write_sector i2c dd polls (of_nat i) sector)
             (enumerate 0 buf))"

section \<open>Facts on the register map\<close>

interpretation stusb_map: register_map stusb_layout stusb_size_bits STUSB_MAX_TRANSACTION_SIZE
proof
  fix f r lo hi
  show "stusb_layout f = (r, lo, hi) \<Longrightarrow> lo < hi \<and> hi \<le> stusb_size_bits r \<and> hi - lo \<le> 32"
    by (cases f) auto
  show "8 * stusb_bytes r = stusb_size_bits r" by (cases r) simp_all
  show "stusb_bytes r < STUSB_MAX_TRANSACTION_SIZE"
    by (cases r) (simp_all add: STUSB_MAX_TRANSACTION_SIZE_def)
qed

lemma stusb_write_register_frame:
  assumes "length data = stusb_bytes r"
  shows "stusb_write_register i2c r data =
    liftR (i2c_write i2c STUSB_ADDRESS (stusb_address r # data))"
  using stusb_map.frame_register [OF assms, of "stusb_address r"]
  by (auto simp: stusb_write_register_def)

abbreviation stusb_send :: "('b, 'e) i2c_bus \<Rightarrow> u8 list \<Rightarrow> ('b, 'e, unit) act" where
  "stusb_send i2c bs \<equiv> liftR (i2c_write i2c STUSB_ADDRESS bs)"

abbreviation stusb_ask :: "('b, 'e) i2c_bus \<Rightarrow> u8 \<Rightarrow> nat \<Rightarrow> ('b, 'e, u8 list) act" where
  "stusb_ask i2c a n \<equiv> liftR (i2c_write_read i2c STUSB_ADDRESS [a] n)"

context device_driver
begin

lemma stusb_set_length [simp]: "length (stusb_set dd f v bs) = length bs"
  by (simp add: stusb_set_def store_length split: prod.split)

lemma stusb_write_wire:
  assumes "\<And>bs. length (f bs) = length bs"
  shows "stusb_write i2c dd r f = stusb_send i2c (stusb_address r # f (replicate (stusb_bytes r) 0))"
  by (simp add: stusb_write_def write_law assms stusb_write_register_frame)

lemma stusb_read_wire:
  "stusb_read i2c dd r = stusb_ask i2c (stusb_address r) (stusb_bytes r)"
  by (simp add: stusb_read_def read_law stusb_read_register_def)

text \<open>The value of a setter on a register of one byte.\<close>

lemma stusb_set_low:
  assumes "stusb_layout f = (r, 0, hi)" "hi \<le> 8" "0 < hi" "unat v < 2 ^ hi"
  shows "stusb_set dd f v [0] = [ucast v]"
  using assms by (simp add: stusb_set_def store_eq field_store_low)

lemma stusb_set_flag_byte:
  assumes "stusb_layout f = (r, k, hi)" "hi = Suc k" "k < 8"
  shows "stusb_set dd f (of_bool x) [b] = [if x then set_bit k b else unset_bit k b]"
  using assms field_store_flag [of k x b] by (simp add: stusb_set_def store_eq)

lemma stusb_set_true_byte:
  assumes "stusb_layout f = (r, k, hi)" "hi = Suc k" "k < 8"
  shows "stusb_set dd f 1 [b] = [set_bit k b]"
  using stusb_set_flag_byte [OF assms, of True b] by simp

lemma stusb_flag_byte:
  assumes "stusb_layout f = (r, k, hi)" "hi = Suc k" "k < 8"
  shows "stusb_get dd f [b] = of_bool (bit b k)"
  using assms by (simp add: stusb_get_def load_eq field_load_flag)

lemma stusb_byte:
  assumes "stusb_layout f = (r, 0, 8)"
  shows "stusb_get dd f [b] = ucast b" and "stusb_set dd f v [0] = [ucast v]"
proof -
  show "stusb_get dd f [b] = ucast b" using assms by (simp add: stusb_get_def load_eq field_load_byte)
  show "stusb_set dd f v [0] = [ucast v]"
    using assms by (auto intro!: bit_word_eqI
      simp: stusb_set_def store_eq field_store_byte bit_ucast_iff)
qed

lemma stusb_set_op_code_byte: "stusb_set_op_code dd c [0] = [ctrl1_op_code_bits c]"
  by (cases c) (simp_all add: stusb_set_op_code_def stusb_set_low)

end

text \<open>The byte that a request writes to the control register 0: sector, power, enable, request.\<close>

definition ctrl0_request_byte :: "u8 \<Rightarrow> u8" where
  "ctrl0_request_byte sector = set_bit 4 (set_bit 6 (set_bit 7 sector))"

context device_driver
begin

lemma wire_unlock:
  "stusb_unlock_nvm i2c dd =
     seqA (stusb_send i2c [0x95, 0x47])
    (seqA (stusb_send i2c [0x96, 0x00]) (stusb_send i2c [0x96, 0xC0]))"
  by (simp add: stusb_unlock_nvm_def stusb_write_wire stusb_set_low
      stusb_set_true_byte set_bit_eq_or)

lemma wire_lock:
  "stusb_lock_nvm i2c dd =
     seqA (stusb_send i2c [0x96, 0x40])
    (seqA (stusb_send i2c [0x97, 0x00]) (stusb_send i2c [0x95, 0x00]))"
  by (simp add: stusb_lock_nvm_def stusb_write_wire stusb_set_low stusb_set_true_byte set_bit_eq_or)

lemma wire_pd_reset:
  "stusb_issue_pd_reset i2c dd =
     seqA (stusb_send i2c [0x51, 0x0D]) (stusb_send i2c [0x1A, 0x26])"
  by (simp add: stusb_issue_pd_reset_def stusb_write_wire stusb_set_low)

lemma wire_gpio:
  "stusb_gpio_set_level i2c dd level =
     map_errA HlI2C (stusb_send i2c [0x2D, of_bool (\<not> level)])"
proof -
  have "stusb_set dd Gpio_sw_gpio (of_bool (\<not> level)) [0] = [of_bool (\<not> level)]"
    using stusb_set_low [of Gpio_sw_gpio GPIOSwGPIO 1 "of_bool (\<not> level)"] by (cases level) simp_all
  then show ?thesis
    by (simp add: stusb_gpio_set_level_def stusb_write_wire del: of_bool_not_iff)
qed

lemma wire_op_code:
  "stusb_write i2c dd NVMCtrl1 (stusb_set_op_code dd c) =
     stusb_send i2c [0x97, ctrl1_op_code_bits c]"
  by (subst stusb_write_wire) (simp_all add: stusb_set_op_code_byte, simp add: stusb_set_op_code_def)

lemma wire_request:
  assumes "unat sector < 16"
  shows "stusb_issue_request_with_sector i2c dd polls sector =
     seqA (stusb_send i2c [0x96, ctrl0_request_byte sector]) (stusb_await_request i2c dd polls)"
proof -
  have "stusb_set dd Ctrl0_sector (ucast sector) [0] = [ucast (ucast sector :: u32)]"
    using assms stusb_set_low [of Ctrl0_sector NVMCtrl0 4 "ucast sector"]
    by (simp add: unat_ucast_widen)
  also have "ucast (ucast sector :: u32) = sector" by (rule bit_word_eqI) (simp add: bit_ucast_iff)
  finally show ?thesis
    by (simp add: stusb_issue_request_with_sector_def stusb_write_wire stusb_set_true_byte
        ctrl0_request_byte_def)
qed

lemma wire_await:
  "stusb_await_request i2c dd (Suc polls) =
     bindA (stusb_ask i2c 0x96 1) (\<lambda>reg.
       if \<not> stusb_flag dd Ctrl0_request reg then ret () else stusb_await_request i2c dd polls)"
  by (simp add: stusb_read_wire)

lemma wire_erase:
  "stusb_erase_sectors i2c dd polls =
     seqA (stusb_send i2c [0x97, 0xFA])
    (seqA (stusb_issue_request i2c dd polls)
    (seqA (stusb_send i2c [0x97, 0x05]) (stusb_issue_request i2c dd polls)))"
proof -
  have len: "length (stusb_set_op_code dd c bs) = length bs" for c bs
    by (simp add: stusb_set_op_code_def)
  show ?thesis
    by (simp add: stusb_erase_sectors_def wire_op_code stusb_write_wire len stusb_set_op_code_byte
        stusb_set_true_byte set_bit_eq_or)
qed

lemma wire_rw_write:
  assumes "length data = 8"
  shows "i2c_write i2c STUSB_ADDRESS (0x53 # data) b = (Inr (), b') \<Longrightarrow>
      rw_buffer_write_all i2c dd data b = (Ok (), b')"
    and "i2c_write i2c STUSB_ADDRESS (0x53 # data) b = (Inl e, b') \<Longrightarrow>
      rw_buffer_write_all i2c dd data b = (Err IoOther, b')"
proof -
  have f: "frame STUSB_MAX_TRANSACTION_SIZE (ucast RWBUFFER_ID) data = Some (0x53 # data)"
    using assms by (simp add: STUSB_MAX_TRANSACTION_SIZE_def frame_Some RWBUFFER_ID_def)
  have ne: "data \<noteq> []" using assms by auto
  show "rw_buffer_write_all i2c dd data b = (Ok (), b')"
    if "i2c_write i2c STUSB_ADDRESS (0x53 # data) b = (Inr (), b')"
    unfolding rw_buffer_write_all_def
    by (rule write_all_all [OF ne])
      (simp add: stusb_buffer_write_def f that bindA_def map_errA_def liftR_def ret_def)
  show "rw_buffer_write_all i2c dd data b = (Err IoOther, b')"
    if "i2c_write i2c STUSB_ADDRESS (0x53 # data) b = (Inl e, b')"
    unfolding rw_buffer_write_all_def
    by (rule write_all_err [OF ne])
      (simp add: stusb_buffer_write_def f that bindA_def map_errA_def liftR_def ret_def)
qed

lemma wire_rw_read:
  assumes "i2c_write_read i2c STUSB_ADDRESS [0x53] 8 b = (Inr bs, b')" "length bs = 8"
  shows "rw_buffer_read_exact i2c dd 8 b = (Ok bs, b')"
  unfolding rw_buffer_read_exact_def using assms
  by (intro read_exact_all)
    (simp_all add: stusb_buffer_read_def RWBUFFER_ID_def map_errA_def liftR_def)

lemmas wires = wire_unlock wire_lock wire_pd_reset wire_gpio wire_erase stusb_read_wire wire_op_code

end

section \<open>Properties\<close>

text \<open>The commands of the driver are, byte for byte, these bus transactions in this order, each
  stopping at the first failing one: \<open>unlock_nvm\<close> writes the password 0x47 to 0x95, clears the
  control register 0x96 and sets its power and enable bits; \<open>lock_nvm\<close> leaves only the enable bit,
  clears 0x97 and the password; \<open>issue_pd_reset\<close> writes 0x0D to 0x51 and then 0x26 to 0x1A;
  \<open>gpio_set_level\<close> writes the inverted level to bit 0 of 0x2D; \<open>erase_sectors\<close> loads the erase mask
  of all five sectors (0xFA) and then the erase command (0x05), each followed by a request on
  sector 0 (0xD0) that is awaited.\<close>

theorem stusb_command_transactions:
  assumes "device_driver dd"
  shows "stusb_unlock_nvm i2c dd =
      seqA (stusb_send i2c [0x95, 0x47])
     (seqA (stusb_send i2c [0x96, 0x00]) (stusb_send i2c [0x96, 0xC0]))
    \<and> stusb_lock_nvm i2c dd =
      seqA (stusb_send i2c [0x96, 0x40])
     (seqA (stusb_send i2c [0x97, 0x00]) (stusb_send i2c [0x95, 0x00]))
    \<and> stusb_issue_pd_reset i2c dd =
      seqA (stusb_send i2c [0x51, 0x0D]) (stusb_send i2c [0x1A, 0x26])
    \<and> stusb_gpio_set_level i2c dd level =
      map_errA HlI2C (stusb_send i2c [0x2D, of_bool (\<not> level)])
    \<and> stusb_erase_sectors i2c dd polls =
      seqA (stusb_send i2c [0x97, 0xFA])
     (seqA (stusb_send i2c [0x96, 0xD0])
     (seqA (stusb_await_request i2c dd polls)
     (seqA (stusb_send i2c [0x97, 0x05])
     (seqA (stusb_send i2c [0x96, 0xD0]) (stusb_await_request i2c dd polls)))))"
  using device_driver.wire_request [OF assms, of 0]
  by (simp add: device_driver.wires [OF assms] stusb_issue_request_def
      ctrl0_request_byte_def set_bit_eq_or bindA_assoc)

theorem stusb_command_transactions_witness:
  "stusb_unlock_nvm recorder ref_dd [] =
    (Ok (), [(0x28, [0x95, 0x47]), (0x28, [0x96, 0x00]), (0x28, [0x96, 0xC0])])"
  using conjunct1 [OF stusb_command_transactions [OF rdd.device_driver_axioms,
        of recorder True 1]]
  by (simp add: recorder_def bindA_def liftR_def STUSB_ADDRESS_def)

lemma fsm_states_all: "s \<in> set fsm_states"
  by (cases s) (simp_all add: fsm_states_def)

lemma fsm_state_bits_inj: "fsm_state_bits s = fsm_state_bits t \<Longrightarrow> s = t"
  by (cases s; cases t) simp_all

lemma fsm_state_of_iff: "fsm_state_of x = Some s \<longleftrightarrow> fsm_state_bits s = x"
proof
  assume "fsm_state_of x = Some s"
  then show "fsm_state_bits s = x" by (auto simp: fsm_state_of_def find_Some_iff)
next
  assume x: "fsm_state_bits s = x"
  then have "fsm_state_of x \<noteq> None"
    using fsm_states_all [of s] by (auto simp: fsm_state_of_def find_None_iff)
  then obtain t where t: "fsm_state_of x = Some t" by blast
  then have "fsm_state_bits t = x" by (auto simp: fsm_state_of_def find_Some_iff)
  with x t fsm_state_bits_inj [of t s] show "fsm_state_of x = Some s" by simp
qed

lemma fsm_state_run:
  assumes "device_driver dd" and "i2c_write_read i2c STUSB_ADDRESS [0x29] 1 b = (Inr [x], b')"
  shows "stusb_fsm_state i2c dd b =
      (case fsm_state_of x of Some s \<Rightarrow> ret s | None \<Rightarrow> fail HlInvalidValue) b'"
proof -
  have "ucast (stusb_get dd Fsm_pe_fsm_state [x]) = x"
    using device_driver.stusb_byte(1) [OF assms(1), of Fsm_pe_fsm_state PolicyEngineFSM x]
    by (auto intro!: bit_word_eqI simp: bit_ucast_iff)
  then show ?thesis
    by (simp add: stusb_fsm_state_def device_driver.stusb_read_wire [OF assms(1)] bindA_def
        map_errA_def liftR_def assms(2) [unfolded One_nat_def])
qed

text \<open>A state register decodes to the variant with that discriminant and to nothing else:
  \<open>TryFromPrimitive\<close> of \<open>PolicyEngineFSMState\<close> is the partial inverse of its discriminants, so
  \<open>fsm_state\<close> on a bus that answers \<open>x\<close> returns the state of \<open>x\<close>, and \<open>InvalidValue\<close> for the 240 bytes
  that are none.\<close>

theorem fsm_state_decodes:
  assumes "device_driver dd" and "i2c_write_read i2c STUSB_ADDRESS [0x29] 1 b = (Inr [x], b')"
  shows "(stusb_fsm_state i2c dd b = (Ok s, b') \<longleftrightarrow> fsm_state_bits s = x)
    \<and> (stusb_fsm_state i2c dd b = (Err HlInvalidValue, b') \<longleftrightarrow> x \<notin> range fsm_state_bits)"
proof -
  note run = fsm_state_run [OF assms]
  show ?thesis
  proof (cases "fsm_state_of x")
    case None
    with fsm_state_of_iff [of x] show ?thesis unfolding run by (auto simp: fail_def)
  next
    case (Some t)
    then have x: "fsm_state_bits t = x" by (simp add: fsm_state_of_iff)
    from run Some have "stusb_fsm_state i2c dd b = (Ok t, b')" by (simp add: ret_def)
    with x show ?thesis by (auto dest: fsm_state_bits_inj)
  qed
qed

theorem fsm_state_decodes_witness:
  "stusb_fsm_state (recorder\<lparr>i2c_write_read := \<lambda>a ws n log. (Inr [0x18], log)\<rparr>) ref_dd [] =
    (Ok SnkReady, [])"
  using fsm_state_decodes [OF rdd.device_driver_axioms,
      of "recorder\<lparr>i2c_write_read := \<lambda>a ws n log. (Inr [0x18], log)\<rparr>" "[]" "0x18" "[]" SnkReady]
  by simp

subsection \<open>Power data objects\<close>

text \<open>The two operations of the bitfield crate, as it documents them.\<close>

definition ref_bf :: bitfield_ops where
  "ref_bf = \<lparr>
     bf_set = (\<lambda>hi lo v x. horner_sum of_bool 2
       (map (\<lambda>i. if lo \<le> i \<and> i \<le> hi then bit v (i - lo) else bit x i) [0..<32])),
     bf_get = (\<lambda>hi lo x. take_bit (Suc hi - lo) (drop_bit lo x))\<rparr>"

interpretation rbf: bitfield_crate ref_bf
  by unfold_locales
    (auto simp: ref_bf_def bit_horner_sum_bit_word_iff bit_take_bit_iff bit_drop_bit_eq)

context bitfield_crate
begin

lemma get_set:
  assumes "lo \<le> hi" "hi < 32"
  shows "bf_get bf hi lo (bf_set bf hi lo v x) = take_bit (Suc hi - lo) v"
  using assms by (intro bit_word_eqI) (auto simp: bf_get_bit bf_set_bit bit_take_bit_iff split: if_splits)

lemma get_set_disjoint:
  assumes "lo \<le> hi" "hi < 32" "lo' \<le> hi'" "hi' < 32" "hi < lo' \<or> hi' < lo"
  shows "bf_get bf hi lo (bf_set bf hi' lo' v x) = bf_get bf hi lo x"
  using assms by (intro bit_word_eqI) (auto simp: bf_get_bit bf_set_bit split: if_splits)

text \<open>A field that is set is what is read, in its width, and setting it leaves every other one.\<close>

lemma pdo_put_get:
  assumes "pdo_put bf f v p = Some q"
  shows "pdo_get bf f q = take_bit (Suc (fst (pdo_range f)) - snd (pdo_range f)) v"
    and "g \<noteq> f \<Longrightarrow> pdo_get bf g q = pdo_get bf g p"
proof -
  show "pdo_get bf f q = take_bit (Suc (fst (pdo_range f)) - snd (pdo_range f)) v"
    using assms by (cases f) (auto simp: pdo_put_def pdo_get_def get_set)
  assume "g \<noteq> f"
  with assms show "pdo_get bf g q = pdo_get bf g p"
    by (cases f; cases g) (auto simp: pdo_put_def pdo_get_def get_set_disjoint)
qed

lemma pdo_flag_set: "fst (pdo_range f) = snd (pdo_range f) \<Longrightarrow> pdo_set_flag bf f b p = Some q \<Longrightarrow> pdo_flag bf f q = b"
  using pdo_put_get(1) [of f "of_bool b" p q] by (cases f) (auto simp: pdo_flag_def pdo_set_flag_def split: if_splits)

end

lemma take_bit_u16_u32:
  fixes x :: u16
  assumes "unat x < 2 ^ n" "n \<le> 16"
  shows "take_bit n (ucast x :: u32) = ucast x"
proof -
  have "unat (take_bit n (ucast x :: u32)) = unat x"
    using assms(1) by (simp add: unsigned_take_bit_eq take_bit_nat_eq_self)
  then show ?thesis by (metis unat_ucast_16_32 word_unat_eq_iff)
qed

text \<open>A fixed supply object made by \<open>FixedPdo::new\<close> carries the voltage and the current it was made
  with in the fields that the controller reads them from, for every value of the ten bits of a
  field; a larger value loses its high bits.\<close>

theorem fixed_pdo_fields:
  assumes "bitfield_crate bf"
  shows "pdo_voltage bf (fixed_pdo_new bf voltage current) = take_bit 10 (ucast voltage)
    \<and> pdo_current bf (fixed_pdo_new bf voltage current) = take_bit 10 (ucast current)
    \<and> (\<forall>i. 20 \<le> i \<longrightarrow> \<not> bit (pdo_bits (fixed_pdo_new bf voltage current)) i)"
proof (intro conjI allI impI)
  note bf = bitfield_crate.get_set [OF assms] bitfield_crate.get_set_disjoint [OF assms]
  show "pdo_voltage bf (fixed_pdo_new bf voltage current) = take_bit 10 (ucast voltage)"
    by (simp add: pdo_voltage_def fixed_pdo_new_def pdo_set_voltage_def pdo_set_current_def bf)
  show "pdo_current bf (fixed_pdo_new bf voltage current) = take_bit 10 (ucast current)"
    by (simp add: pdo_current_def fixed_pdo_new_def pdo_set_voltage_def pdo_set_current_def bf)
  fix i :: nat assume "20 \<le> i"
  show "\<not> bit (pdo_bits (fixed_pdo_new bf voltage current)) i"
  proof (cases "i < 32")
    case True
    with \<open>20 \<le> i\<close> show ?thesis
      by (simp add: fixed_pdo_new_def pdo_set_voltage_def pdo_set_current_def
          bitfield_crate.bf_set_bit [OF assms])
  next
    case False
    then show ?thesis using bit_imp_le_length by fastforce
  qed
qed

theorem fixed_pdo_fields_witness:
  "pdo_voltage ref_bf (fixed_pdo_new ref_bf 400 100) = 400
    \<and> pdo_current ref_bf (fixed_pdo_new ref_bf 400 100) = 100"
  using fixed_pdo_fields [OF rbf.bitfield_crate_axioms, of 400 100] by simp

end
