(* ===== verification/Stusb4500_Nvm.thy ===== *)
theory Stusb4500_Nvm
  imports Stusb4500
begin

text \<open>
  The NVM operations of \<open>drivers/stusb4500/hl.rs\<close> against the chip they talk to.  The chip is not
  code of this repository: it is a parameter, the bus with a view of the memory behind it, and a
  locale states what the vendor documents of that memory.  A simulated chip shows that the
  documented behaviour can be met.
\<close>

section \<open>The memory as the vendor documents it\<close>

text \<open>
  The five sectors; which of them are erased; the read/write buffer at 0x53; the program and
  erase registers that a request loads; the last bytes written to the password and to control
  register 1; how many reads of control register 0 a running request still answers as busy; and
  how often sectors were erased, which wears them.
\<close>

record nvm_chip =
  sectors :: "nat \<Rightarrow> u8 list"
  erased :: "nat \<Rightarrow> bool"
  rw_buf :: "u8 list"
  plr :: "u8 list"
  ser :: u8
  password :: u8
  ctrl1 :: u8
  busy :: nat
  wear :: nat

text \<open>
  A request runs the operation code in the low bits of control register 1.  Bits 3 to 7 of that
  register select the sectors to erase.  Programming a sector that is not erased leaves bytes
  that are not specified, the parameter \<open>garbled\<close>.
\<close>

definition nvm_exec :: "(u8 list \<Rightarrow> u8 list \<Rightarrow> u8 list) \<Rightarrow> nat \<Rightarrow> nvm_chip \<Rightarrow> nvm_chip" where
  "nvm_exec garbled sector c =
     (let op = take_bit 3 (ctrl1 c) in
      if op = 0x00 then c\<lparr>rw_buf := sectors c sector\<rparr>
      else if op = 0x01 then c\<lparr>plr := rw_buf c\<rparr>
      else if op = 0x02 then c\<lparr>ser := ctrl1 c\<rparr>
      else if op = 0x05 then
        c\<lparr>erased := (\<lambda>i. erased c i \<or> i < 5 \<and> bit (ser c) (i + 3)), wear := Suc (wear c)\<rparr>
      else if op = 0x06 then
        c\<lparr>sectors := (sectors c)(sector :=
             (if erased c sector then plr c else garbled (sectors c sector) (plr c))),
          erased := (erased c)(sector := False)\<rparr>
      else c)"

text \<open>
  The transactions: a write sets its register; a write of control register 0 with the request bit
  starts the operation when the password was given, and it is busy for at most \<open>latency\<close> reads
  of that register; a read of the buffer returns it.
\<close>

locale stusb4500_chip =
  fixes i2c :: "('b, 'e) i2c_bus"
    and chip :: "'b \<Rightarrow> nvm_chip"
    and garbled :: "u8 list \<Rightarrow> u8 list \<Rightarrow> u8 list"
    and latency :: nat
  assumes write_password: "i2c_write i2c STUSB_ADDRESS [0x95, x] b = (r, b') \<Longrightarrow>
      r = Inr () \<and> chip b' = (chip b)\<lparr>password := x\<rparr>"
    and write_ctrl1: "i2c_write i2c STUSB_ADDRESS [0x97, x] b = (r, b') \<Longrightarrow>
      r = Inr () \<and> chip b' = (chip b)\<lparr>ctrl1 := x\<rparr>"
    and write_rw: "i2c_write i2c STUSB_ADDRESS (0x53 # bs) b = (r, b') \<Longrightarrow> length bs = 8 \<Longrightarrow>
      r = Inr () \<and> chip b' = (chip b)\<lparr>rw_buf := bs\<rparr>"
    and write_ctrl0: "i2c_write i2c STUSB_ADDRESS [0x96, x] b = (r, b') \<Longrightarrow> \<not> bit x 4 \<Longrightarrow>
      r = Inr () \<and> chip b' = chip b"
    and write_ctrl0_request: "i2c_write i2c STUSB_ADDRESS [0x96, x] b = (r, b') \<Longrightarrow> bit x 4 \<Longrightarrow>
      bit x 6 \<Longrightarrow> bit x 7 \<Longrightarrow> password (chip b) = 0x47 \<Longrightarrow>
      r = Inr () \<and> (\<exists>k \<le> latency. chip b' =
        (nvm_exec garbled (unat (take_bit 4 x)) (chip b))\<lparr>busy := k\<rparr>)"
    and read_ctrl0: "i2c_write_read i2c STUSB_ADDRESS [0x96] 1 b = (q, b') \<Longrightarrow>
      \<exists>x. q = Inr [x] \<and> bit x 4 = (0 < busy (chip b)) \<and>
        chip b' = (chip b)\<lparr>busy := busy (chip b) - 1\<rparr>"
    and read_rw: "i2c_write_read i2c STUSB_ADDRESS [0x53] 8 b = (q, b') \<Longrightarrow>
      q = Inr (rw_buf (chip b)) \<and> chip b' = chip b"

section \<open>The driver over the chip\<close>

text \<open>A call returns \<open>x\<close> and leaves the memory \<open>c\<close>, whatever else is on the bus.\<close>

definition ends_with ::
  "('b \<Rightarrow> 'c) \<Rightarrow> ('b, 'e, 'a) act \<Rightarrow> 'b \<Rightarrow> 'a \<Rightarrow> 'c \<Rightarrow> bool" where
  "ends_with view m b x c \<longleftrightarrow> (\<exists>b'. m b = (Ok x, b') \<and> view b' = c)"

lemma ends_with_bind:
  assumes "ends_with view m b x c"
    and "\<And>b'. view b' = c \<Longrightarrow> ends_with view (f x) b' y d"
  shows "ends_with view (bindA m f) b y d"
  using assms by (auto simp: ends_with_def bindA_def)

lemma ends_with_eq: "ends_with view m b x c \<Longrightarrow> c = d \<Longrightarrow> ends_with view m b x d"
  by simp

lemma ends_with_map_err: "ends_with view (map_errA g m) b x c \<longleftrightarrow> ends_with view m b x c"
  by (auto simp: ends_with_def map_errA_Ok_iff)

lemma ends_with_ret: "ends_with view (ret x) b x (view b)"
  by (simp add: ends_with_def)

lemma ends_with_liftR:
  assumes "\<And>r b'. f b = (r, b') \<Longrightarrow> r = Inr x \<and> view b' = c"
  shows "ends_with view (liftR f) b x c"
  using assms by (cases "f b") (auto simp: ends_with_def liftR_def)

locale stusb4500_nvm = device_driver dd + stusb4500_chip i2c chip garbled latency
  for dd :: "('b, 'e) dd_ops" and i2c :: "('b, 'e) i2c_bus" and chip :: "'b \<Rightarrow> nvm_chip"
    and garbled and latency +
  fixes polls :: nat
  assumes enough_polls: "latency < polls"
begin

abbreviation leaves :: "('b, 'f, 'a) act \<Rightarrow> 'b \<Rightarrow> 'a \<Rightarrow> nvm_chip \<Rightarrow> bool" where
  "leaves \<equiv> ends_with chip"

lemma send_password: "leaves (stusb_send i2c [0x95, x]) b () ((chip b)\<lparr>password := x\<rparr>)"
  by (rule ends_with_liftR) (rule write_password)

lemma send_ctrl1: "leaves (stusb_send i2c [0x97, x]) b () ((chip b)\<lparr>ctrl1 := x\<rparr>)"
  by (rule ends_with_liftR) (rule write_ctrl1)

lemma send_ctrl0: "\<not> bit x 4 \<Longrightarrow> leaves (stusb_send i2c [0x96, x]) b () (chip b)"
  by (rule ends_with_liftR) (rule write_ctrl0)

text \<open>The waiting loop ends as soon as the chip is no longer busy.\<close>

lemma await:
  assumes "busy (chip b) < n"
  shows "leaves (stusb_await_request i2c dd n) b () ((chip b)\<lparr>busy := 0\<rparr>)"
  using assms
proof (induction n arbitrary: b)
  case 0
  then show ?case by simp
next
  case (Suc n)
  obtain r b' where ask: "i2c_write_read i2c STUSB_ADDRESS [0x96] 1 b = (r, b')"
    by (cases "i2c_write_read i2c STUSB_ADDRESS [0x96] 1 b") auto
  from read_ctrl0 [OF ask] obtain x where r: "r = Inr [x]" and x: "bit x 4 = (0 < busy (chip b))"
    and b': "chip b' = (chip b)\<lparr>busy := busy (chip b) - 1\<rparr>" by auto
  have "stusb_ask i2c 0x96 1 b = (Ok [x], b')" by (simp only: liftR_def ask r) simp
  then have turn: "stusb_await_request i2c dd (Suc n) b =
      (if \<not> stusb_flag dd Ctrl0_request [x] then ret () else stusb_await_request i2c dd n) b'"
    unfolding wire_await by (rule bindA_Ok)
  have flag: "stusb_flag dd Ctrl0_request [x] = bit x 4"
  proof -
    have "stusb_get dd Ctrl0_request [x] = of_bool (bit x 4)"
      by (rule stusb_flag_byte) simp_all
    then show ?thesis by (simp only: of_bool_eq_0_iff not_not)
  qed
  show ?case
  proof (cases "busy (chip b) = 0")
    case True
    with x turn flag b' show ?thesis by (simp add: ends_with_def ret_def)
  next
    case False
    with Suc.prems b' have "busy (chip b') < n" by simp
    then have "leaves (stusb_await_request i2c dd n) b' () ((chip b')\<lparr>busy := 0\<rparr>)" by (rule Suc.IH)
    moreover have "(chip b')\<lparr>busy := 0\<rparr> = (chip b)\<lparr>busy := 0\<rparr>" by (simp add: b')
    ultimately show ?thesis using turn flag x False by (simp add: ends_with_def)
  qed
qed

text \<open>A request on a sector: the operation is done when the call returns.\<close>

lemma request:
  assumes "password (chip b) = 0x47" and "s < 16"
  shows "leaves (stusb_issue_request_with_sector i2c dd polls (of_nat s)) b ()
    ((nvm_exec garbled s (chip b))\<lparr>busy := 0\<rparr>)"
proof -
  have s: "unat (of_nat s :: u8) = s" using assms(2) by (simp add: unat_of_nat_small)
  let ?x = "ctrl0_request_byte (of_nat s)"
  have bits: "bit ?x 4" "bit ?x 6" "bit ?x 7"
    by (simp_all add: ctrl0_request_byte_def bit_set_bit_iff)
  have "take_bit 4 ?x = take_bit 4 (of_nat s)"
    by (rule bit_word_eqI) (auto simp: ctrl0_request_byte_def bit_take_bit_iff bit_set_bit_iff)
  then have sector: "unat (take_bit 4 ?x) = s"
    using s assms(2) by (simp add: unsigned_take_bit_eq take_bit_nat_eq_self)
  obtain r b' where send: "i2c_write i2c STUSB_ADDRESS [0x96, ?x] b = (r, b')"
    by (cases "i2c_write i2c STUSB_ADDRESS [0x96, ?x] b") auto
  from write_ctrl0_request [OF send bits assms(1)] sector obtain k where
    r: "r = Inr ()" and k: "k \<le> latency"
    and b': "chip b' = (nvm_exec garbled s (chip b))\<lparr>busy := k\<rparr>" by auto
  from k b' enough_polls have "busy (chip b') < polls" by simp
  from await [OF this] b'
  have "leaves (stusb_await_request i2c dd polls) b' () ((nvm_exec garbled s (chip b))\<lparr>busy := 0\<rparr>)"
    by simp
  with s assms(2) send r show ?thesis
    by (simp add: wire_request ends_with_def bindA_def liftR_def)
qed

lemma request_0:
  assumes "password (chip b) = 0x47"
  shows "leaves (stusb_issue_request i2c dd polls) b () ((nvm_exec garbled 0 (chip b))\<lparr>busy := 0\<rparr>)"
  using request [OF assms, of 0] by (simp add: stusb_issue_request_def)

text \<open>Unlocking and locking touch nothing but the password and control register 1.\<close>

lemma unlock: "leaves (stusb_unlock_nvm i2c dd) b () ((chip b)\<lparr>password := 0x47\<rparr>)"
  unfolding wire_unlock
proof (rule ends_with_bind [OF send_password])
  fix b1 assume b1: "chip b1 = (chip b)\<lparr>password := 0x47\<rparr>"
  show "leaves (seqA (stusb_send i2c [0x96, 0x00]) (stusb_send i2c [0x96, 0xC0])) b1 ()
      ((chip b)\<lparr>password := 0x47\<rparr>)"
  proof (rule ends_with_bind [OF send_ctrl0])
    fix b2 assume "chip b2 = chip b1"
    with b1 show "leaves (stusb_send i2c [0x96, 0xC0]) b2 () ((chip b)\<lparr>password := 0x47\<rparr>)"
      using send_ctrl0 [of "0xC0" b2] by simp
  qed simp
qed

lemma lock: "leaves (stusb_lock_nvm i2c dd) b () ((chip b)\<lparr>ctrl1 := 0, password := 0\<rparr>)"
  unfolding wire_lock
proof (rule ends_with_bind [OF send_ctrl0])
  fix b1 assume b1: "chip b1 = chip b"
  show "leaves (seqA (stusb_send i2c [0x97, 0x00]) (stusb_send i2c [0x95, 0x00])) b1 ()
      ((chip b)\<lparr>ctrl1 := 0, password := 0\<rparr>)"
  proof (rule ends_with_bind [OF send_ctrl1])
    fix b2 assume "chip b2 = (chip b1)\<lparr>ctrl1 := 0\<rparr>"
    with b1 show "leaves (stusb_send i2c [0x95, 0x00]) b2 () ((chip b)\<lparr>ctrl1 := 0, password := 0\<rparr>)"
      using send_password [of 0 b2] by simp
  qed
qed simp

text \<open>Erasing: all five sectors, once.\<close>

lemma erase:
  assumes "password (chip b) = 0x47"
  shows "leaves (stusb_erase_sectors i2c dd polls) b ()
    ((chip b)\<lparr>erased := (\<lambda>i. erased (chip b) i \<or> i < 5), wear := Suc (wear (chip b)),
       ser := 0xFA, ctrl1 := 0x05, busy := 0\<rparr>)"
  unfolding wire_erase
proof (rule ends_with_bind [OF send_ctrl1])
  fix b1 assume b1: "chip b1 = (chip b)\<lparr>ctrl1 := 0xFA\<rparr>"
  let ?c1 = "(chip b)\<lparr>ctrl1 := 0xFA, ser := 0xFA, busy := 0\<rparr>"
  let ?c2 = "(chip b)\<lparr>erased := (\<lambda>i. erased (chip b) i \<or> i < 5), wear := Suc (wear (chip b)),
       ser := 0xFA, ctrl1 := 0x05, busy := 0\<rparr>"
  have mask: "bit (0xFA :: u8) (i + 3)" if "i < 5" for i
    using that by (auto simp: less_Suc_eq numeral_eq_Suc)
  show "leaves (seqA (stusb_issue_request i2c dd polls)
      (seqA (stusb_send i2c [0x97, 0x05]) (stusb_issue_request i2c dd polls))) b1 () ?c2"
  proof (rule ends_with_bind)
    show "leaves (stusb_issue_request i2c dd polls) b1 () ?c1"
      using request_0 [of b1] assms by (simp add: b1 nvm_exec_def)
    fix b2 assume b2: "chip b2 = ?c1"
    show "leaves (seqA (stusb_send i2c [0x97, 0x05]) (stusb_issue_request i2c dd polls)) b2 () ?c2"
    proof (rule ends_with_bind [OF send_ctrl1])
      fix b3 assume b3: "chip b3 = (chip b2)\<lparr>ctrl1 := 0x05\<rparr>"
      have "(\<lambda>i. erased (chip b) i \<or> i < 5 \<and> bit (0xFA :: u8) (i + 3)) =
          (\<lambda>i. erased (chip b) i \<or> i < 5)"
        using mask by blast
      then show "leaves (stusb_issue_request i2c dd polls) b3 () ?c2"
        using assms by (intro ends_with_eq [OF request_0]) (simp_all add: b3 b2 nvm_exec_def)
    qed
  qed
qed

text \<open>Programming an erased sector.\<close>

lemma write_sector:
  assumes "password (chip b) = 0x47" "s < 5" "erased (chip b) s" "length data = 8"
  shows "leaves (stusb_write_sector i2c dd polls (of_nat s) data) b ()
    ((chip b)\<lparr>sectors := (sectors (chip b))(s := data), erased := (erased (chip b))(s := False),
       rw_buf := data, plr := data, ctrl1 := 0x06, busy := 0\<rparr>)"
    (is "leaves _ b () ?c")
  unfolding stusb_write_sector_def wire_op_code
proof (rule ends_with_bind)
  obtain r b' where "i2c_write i2c STUSB_ADDRESS (0x53 # data) b = (r, b')"
    by (cases "i2c_write i2c STUSB_ADDRESS (0x53 # data) b") auto
  note rw = this write_rw [OF this assms(4)]
  then show "leaves (map_errA (\<lambda>_. HlIO) (rw_buffer_write_all i2c dd data)) b ()
      ((chip b)\<lparr>rw_buf := data\<rparr>)"
    using wire_rw_write(1) [OF assms(4)] unfolding ends_with_map_err by (auto simp: ends_with_def)
  fix b1 assume b1: "chip b1 = (chip b)\<lparr>rw_buf := data\<rparr>"
  show "leaves (seqA (map_errA HlI2C (stusb_send i2c [0x97, ctrl1_op_code_bits LoadPlr]))
     (seqA (map_errA HlI2C (stusb_issue_request i2c dd polls))
     (seqA (map_errA HlI2C (stusb_send i2c [0x97, ctrl1_op_code_bits WriteSector]))
       (map_errA HlI2C (stusb_issue_request_with_sector i2c dd polls (of_nat s)))))) b1 () ?c"
  proof (rule ends_with_bind, unfold ends_with_map_err, rule send_ctrl1)
    fix b2 assume b2: "chip b2 = (chip b1)\<lparr>ctrl1 := ctrl1_op_code_bits LoadPlr\<rparr>"
    show "leaves (seqA (map_errA HlI2C (stusb_issue_request i2c dd polls))
       (seqA (map_errA HlI2C (stusb_send i2c [0x97, ctrl1_op_code_bits WriteSector]))
         (map_errA HlI2C (stusb_issue_request_with_sector i2c dd polls (of_nat s))))) b2 () ?c"
    proof (rule ends_with_bind, unfold ends_with_map_err, rule request_0)
      show "password (chip b2) = 0x47" using assms(1) by (simp add: b2 b1)
      fix b3 assume b3: "chip b3 = (nvm_exec garbled 0 (chip b2))\<lparr>busy := 0\<rparr>"
      show "leaves (seqA (map_errA HlI2C (stusb_send i2c [0x97, ctrl1_op_code_bits WriteSector]))
         (map_errA HlI2C (stusb_issue_request_with_sector i2c dd polls (of_nat s)))) b3 () ?c"
      proof (rule ends_with_bind, unfold ends_with_map_err, rule send_ctrl1)
        fix b4 assume b4: "chip b4 = (chip b3)\<lparr>ctrl1 := ctrl1_op_code_bits WriteSector\<rparr>"
        then show "leaves (stusb_issue_request_with_sector i2c dd polls (of_nat s)) b4 () ?c"
          using assms by (intro ends_with_eq [OF request]) (simp_all add: b3 b2 b1 nvm_exec_def)
      qed
    qed
  qed
qed

lemma read_sector:
  assumes "password (chip b) = 0x47" "s < 5" "length (sectors (chip b) s) = 8"
  shows "leaves (stusb_read_sector i2c dd polls (of_nat s)) b (sectors (chip b) s)
    ((chip b)\<lparr>rw_buf := sectors (chip b) s, ctrl1 := 0x00, busy := 0\<rparr>)"
    (is "leaves _ b _ ?c")
  unfolding stusb_read_sector_def wire_op_code
proof (rule ends_with_bind, unfold ends_with_map_err, rule send_ctrl1)
  fix b1 assume b1: "chip b1 = (chip b)\<lparr>ctrl1 := ctrl1_op_code_bits ReadSector\<rparr>"
  show "leaves (seqA (map_errA HlI2C (stusb_issue_request_with_sector i2c dd polls (of_nat s)))
      (map_errA (\<lambda>_. HlIO) (rw_buffer_read_exact i2c dd 8))) b1 (sectors (chip b) s) ?c"
  proof (rule ends_with_bind, unfold ends_with_map_err, rule request)
    show "password (chip b1) = 0x47" using assms(1) by (simp add: b1)
    show "s < 16" using assms(2) by simp
    fix b2 assume b2: "chip b2 = (nvm_exec garbled s (chip b1))\<lparr>busy := 0\<rparr>"
    obtain q b3 where ask: "i2c_write_read i2c STUSB_ADDRESS [0x53] 8 b2 = (q, b3)"
      by (cases "i2c_write_read i2c STUSB_ADDRESS [0x53] 8 b2") auto
    from read_rw [OF ask] have "q = Inr (sectors (chip b) s)" and b3: "chip b3 = ?c"
      by (simp_all add: b2 b1 nvm_exec_def)
    with wire_rw_read [of i2c b2 "sectors (chip b) s" b3] ask assms(3)
    have "rw_buffer_read_exact i2c dd 8 b2 = (Ok (sectors (chip b) s), b3)" by simp
    with b3 show "leaves (rw_buffer_read_exact i2c dd 8) b2 (sectors (chip b) s) ?c"
      by (auto simp: ends_with_def)
  qed
qed

text \<open>The loops over the sectors.\<close>

lemma write_loop:
  assumes "password (chip b) = 0x47" "k + length ds \<le> 5"
    and "\<forall>i. k \<le> i \<and> i < 5 \<longrightarrow> erased (chip b) i" "\<forall>d \<in> set ds. length d = 8"
  shows "\<exists>b'. forA (\<lambda>(i, sector). stusb_write_sector i2c dd polls (of_nat i) sector)
        (enumerate k ds) b = (Ok (), b')
    \<and> (\<forall>i. sectors (chip b') i = (if k \<le> i \<and> i < k + length ds then ds ! (i - k) else sectors (chip b) i))
    \<and> password (chip b') = 0x47 \<and> wear (chip b') = wear (chip b)"
  using assms
proof (induction ds arbitrary: k b)
  case Nil
  then show ?case by (auto simp: ret_def)
next
  case (Cons d ds)
  from Cons.prems have "leaves (stusb_write_sector i2c dd polls (of_nat k) d) b ()
    ((chip b)\<lparr>sectors := (sectors (chip b))(k := d), erased := (erased (chip b))(k := False),
       rw_buf := d, plr := d, ctrl1 := 0x06, busy := 0\<rparr>)"
    by (intro write_sector) simp_all
  then obtain b1 where w: "stusb_write_sector i2c dd polls (of_nat k) d b = (Ok (), b1)"
    and b1: "chip b1 = (chip b)\<lparr>sectors := (sectors (chip b))(k := d),
       erased := (erased (chip b))(k := False), rw_buf := d, plr := d, ctrl1 := 0x06, busy := 0\<rparr>"
    by (auto simp: ends_with_def)
  obtain b' where loop: "forA (\<lambda>(i, sector). stusb_write_sector i2c dd polls (of_nat i) sector)
        (enumerate (Suc k) ds) b1 = (Ok (), b')"
    and b': "\<forall>i. sectors (chip b') i = (if Suc k \<le> i \<and> i < Suc k + length ds
        then ds ! (i - Suc k) else sectors (chip b1) i)"
    and rest: "password (chip b') = 0x47" "wear (chip b') = wear (chip b1)"
    using Cons.IH [of b1 "Suc k"] Cons.prems by (auto simp: b1)
  have "forA (\<lambda>(i, sector). stusb_write_sector i2c dd polls (of_nat i) sector)
        (enumerate k (d # ds)) b = (Ok (), b')"
    using loop by (simp add: bindA_def w)
  moreover have "\<forall>i. sectors (chip b') i = (if k \<le> i \<and> i < k + length (d # ds)
      then (d # ds) ! (i - k) else sectors (chip b) i)"
    using b' by (auto simp: b1 nth_Cons')
  ultimately show ?case using rest by (auto simp: b1)
qed

lemma write_sectors:
  assumes "password (chip b) = 0x47" "length data = 5" "\<forall>d \<in> set data. length d = 8"
  shows "\<exists>b'. stusb_write_sectors i2c dd polls data b = (Ok (), b')
    \<and> map (sectors (chip b')) [0..<5] = data
    \<and> password (chip b') = 0x47 \<and> wear (chip b') = Suc (wear (chip b))"
proof -
  from erase [OF assms(1)] obtain b1 where e: "stusb_erase_sectors i2c dd polls b = (Ok (), b1)"
    and b1: "chip b1 = (chip b)\<lparr>erased := (\<lambda>i. erased (chip b) i \<or> i < 5),
       wear := Suc (wear (chip b)), ser := 0xFA, ctrl1 := 0x05, busy := 0\<rparr>"
    by (auto simp: ends_with_def)
  obtain b' where loop: "forA (\<lambda>(i, sector). stusb_write_sector i2c dd polls (of_nat i) sector)
        (enumerate 0 data) b1 = (Ok (), b')"
    and b': "\<forall>i. sectors (chip b') i = (if i < 5 then data ! i else sectors (chip b1) i)"
    and rest: "password (chip b') = 0x47" "wear (chip b') = wear (chip b1)"
    using write_loop [of b1 0 data] assms by (auto simp: b1)
  from e have "map_errA HlI2C (stusb_erase_sectors i2c dd polls) b = (Ok (), b1)"
    by (simp add: map_errA_Ok_iff)
  then have "stusb_write_sectors i2c dd polls data b = (Ok (), b')"
    using loop by (simp add: stusb_write_sectors_def bindA_Ok)
  moreover have "map (sectors (chip b')) [0..<5] = data"
    using b' assms(2) by (intro nth_equalityI) simp_all
  ultimately show ?thesis using rest by (auto simp: b1)
qed

lemma read_loop:
  assumes "password (chip b) = 0x47" "\<forall>i \<in> set is. i < 5 \<and> length (sectors (chip b) i) = 8"
  shows "\<exists>b'. mapA (\<lambda>i. stusb_read_sector i2c dd polls (of_nat i)) is b =
        (Ok (map (sectors (chip b)) is), b')
    \<and> sectors (chip b') = sectors (chip b) \<and> erased (chip b') = erased (chip b)
    \<and> password (chip b') = 0x47 \<and> wear (chip b') = wear (chip b)"
  using assms
proof (induction "is" arbitrary: b)
  case Nil
  then show ?case by (auto simp: ret_def)
next
  case (Cons i "is")
  from Cons.prems read_sector [of b i] obtain b1 where
    r: "stusb_read_sector i2c dd polls (of_nat i) b = (Ok (sectors (chip b) i), b1)"
    and b1: "chip b1 = (chip b)\<lparr>rw_buf := sectors (chip b) i, ctrl1 := 0x00, busy := 0\<rparr>"
    by (auto simp: ends_with_def)
  from Cons.IH [of b1] Cons.prems obtain b' where
    loop: "mapA (\<lambda>i. stusb_read_sector i2c dd polls (of_nat i)) is b1 =
        (Ok (map (sectors (chip b)) is), b')"
    and rest: "sectors (chip b') = sectors (chip b)" "erased (chip b') = erased (chip b)"
      "password (chip b') = 0x47" "wear (chip b') = wear (chip b)"
    by (auto simp: b1)
  have "mapA (\<lambda>i. stusb_read_sector i2c dd polls (of_nat i)) (i # is) b =
      (Ok (map (sectors (chip b)) (i # is)), b')"
    by (simp add: bindA_def r loop ret_def)
  with rest show ?case by blast
qed

lemma read_sectors:
  assumes "password (chip b) = 0x47" "\<forall>i < 5. length (sectors (chip b) i) = 8"
  shows "\<exists>b'. stusb_read_sectors i2c dd polls b = (Ok (map (sectors (chip b)) [0..<5]), b')
    \<and> sectors (chip b') = sectors (chip b) \<and> erased (chip b') = erased (chip b)
    \<and> password (chip b') = 0x47 \<and> wear (chip b') = wear (chip b)"
  unfolding stusb_read_sectors_def NUM_SECTORS_def
  using assms by (intro read_loop) simp_all

end

section \<open>A simulated chip\<close>

definition sim_write :: "u8 \<Rightarrow> u8 list \<Rightarrow> nvm_chip \<Rightarrow> (unit + unit) \<times> nvm_chip" where
  "sim_write a bs c = (Inr (),
     (if length bs = 2 \<and> bs ! 0 = 0x95 then c\<lparr>password := bs ! 1\<rparr>
      else if length bs = 2 \<and> bs ! 0 = 0x97 then c\<lparr>ctrl1 := bs ! 1\<rparr>
      else if length bs = 9 \<and> bs ! 0 = 0x53 then c\<lparr>rw_buf := tl bs\<rparr>
      else if length bs = 2 \<and> bs ! 0 = 0x96 \<and> bit (bs ! 1) 4 \<and> password c = 0x47
        then (nvm_exec (map2 (OR)) (unat (take_bit 4 (bs ! 1))) c)\<lparr>busy := 3\<rparr>
      else c))"

definition sim_write_read ::
  "u8 \<Rightarrow> u8 list \<Rightarrow> nat \<Rightarrow> nvm_chip \<Rightarrow> (unit + u8 list) \<times> nvm_chip" where
  "sim_write_read a ws n c =
     (if ws = [0x96] \<and> n = 1
        then (Inr [if 0 < busy c then 0x10 else 0x00], c\<lparr>busy := busy c - 1\<rparr>)
      else if ws = [0x53] \<and> n = 8 then (Inr (rw_buf c), c)
      else (Inr (replicate n 0), c))"

definition sim_i2c :: "(nvm_chip, unit) i2c_bus" where
  "sim_i2c = \<lparr>i2c_write = sim_write, i2c_write_read = sim_write_read\<rparr>"

definition sim_blank :: nvm_chip where
  "sim_blank = \<lparr>sectors = (\<lambda>_. replicate 8 0xFF), erased = (\<lambda>_. False), rw_buf = replicate 8 0,
     plr = replicate 8 0, ser = 0, password = 0, ctrl1 = 0, busy = 0, wear = 0\<rparr>"

interpretation sim: stusb4500_nvm ref_dd sim_i2c "\<lambda>c. c" "map2 (OR)" 3 4
proof
  fix x :: u8 and r :: "unit + unit" and b b'
  show "i2c_write sim_i2c STUSB_ADDRESS [0x95, x] b = (r, b') \<Longrightarrow> r = Inr () \<and> b' = b\<lparr>password := x\<rparr>"
    and "i2c_write sim_i2c STUSB_ADDRESS [0x97, x] b = (r, b') \<Longrightarrow> r = Inr () \<and> b' = b\<lparr>ctrl1 := x\<rparr>"
    and "i2c_write sim_i2c STUSB_ADDRESS [0x96, x] b = (r, b') \<Longrightarrow> \<not> bit x 4 \<Longrightarrow> r = Inr () \<and> b' = b"
    by (auto simp: sim_i2c_def sim_write_def)
  show "i2c_write sim_i2c STUSB_ADDRESS (0x53 # bs) b = (r, b') \<Longrightarrow> length bs = 8 \<Longrightarrow>
      r = Inr () \<and> b' = b\<lparr>rw_buf := bs\<rparr>" for bs
    by (auto simp: sim_i2c_def sim_write_def)
  show "i2c_write sim_i2c STUSB_ADDRESS [0x96, x] b = (r, b') \<Longrightarrow> bit x 4 \<Longrightarrow> bit x 6 \<Longrightarrow> bit x 7 \<Longrightarrow>
      password b = 0x47 \<Longrightarrow> r = Inr () \<and>
      (\<exists>k\<le>3. b' = (nvm_exec (map2 (OR)) (unat (take_bit 4 x)) b)\<lparr>busy := k\<rparr>)"
    by (auto simp: sim_i2c_def sim_write_def)
next
  fix q :: "unit + u8 list" and b b'
  show "i2c_write_read sim_i2c STUSB_ADDRESS [0x96] 1 b = (q, b') \<Longrightarrow>
      \<exists>x. q = Inr [x] \<and> bit x 4 = (0 < busy b) \<and> b' = b\<lparr>busy := busy b - 1\<rparr>"
    by (auto simp: sim_i2c_def sim_write_read_def)
  show "i2c_write_read sim_i2c STUSB_ADDRESS [0x53] 8 b = (q, b') \<Longrightarrow> q = Inr (rw_buf b) \<and> b' = b"
    by (auto simp: sim_i2c_def sim_write_read_def)
qed simp

section \<open>Properties\<close>

text \<open>C5: On an unlocked chip whose requests complete within the polls the waiting loop is given,
  \<open>write_sectors\<close> returns, after a single erase, with exactly its argument in the five sectors,
  whatever they held; and \<open>read_sectors\<close> then returns that argument.\<close>

theorem nvm_write_read_roundtrip:
  assumes "stusb4500_nvm dd i2c chip garbled latency polls"
    and "password (chip b) = 0x47" and "length data = 5" and "\<forall>d \<in> set data. length d = 8"
  shows "\<exists>b1 b2. stusb_write_sectors i2c dd polls data b = (Ok (), b1)
    \<and> map (sectors (chip b1)) [0..<5] = data \<and> wear (chip b1) = Suc (wear (chip b))
    \<and> stusb_read_sectors i2c dd polls b1 = (Ok data, b2)"
proof -
  from stusb4500_nvm.write_sectors [OF assms] obtain b1 where
    w: "stusb_write_sectors i2c dd polls data b = (Ok (), b1)"
    and b1: "map (sectors (chip b1)) [0..<5] = data" "password (chip b1) = 0x47"
      "wear (chip b1) = Suc (wear (chip b))" by blast
  have "length (sectors (chip b1) i) = 8" if "i < 5" for i
  proof -
    have "sectors (chip b1) i \<in> set (map (sectors (chip b1)) [0..<5])" using that by simp
    with assms(4) b1(1) show ?thesis by simp
  qed
  then obtain b2 where "stusb_read_sectors i2c dd polls b1 = (Ok data, b2)"
    using stusb4500_nvm.read_sectors [OF assms(1) b1(2)] b1(1) by auto
  with w b1 show ?thesis by blast
qed

theorem nvm_write_read_roundtrip_witness:
  "\<exists>b1 b2. stusb_write_sectors sim_i2c ref_dd 4 (map (\<lambda>i. replicate 8 (of_nat i)) [0..<5])
        (sim_blank\<lparr>password := 0x47\<rparr>) = (Ok (), b1)
    \<and> map (sectors b1) [0..<5] = map (\<lambda>i. replicate 8 (of_nat i)) [0..<5] \<and> wear b1 = 1
    \<and> stusb_read_sectors sim_i2c ref_dd 4 b1 = (Ok (map (\<lambda>i. replicate 8 (of_nat i)) [0..<5]), b2)"
  using nvm_write_read_roundtrip [OF sim.stusb4500_nvm_axioms, of "sim_blank\<lparr>password := 0x47\<rparr>"
      "map (\<lambda>i. replicate 8 (of_nat i)) [0..<5]"]
  by (simp add: sim_blank_def)

end
