(* ===== verification/Usb_Pd.thy ===== *)
theory Usb_Pd
  imports Stusb4500_Nvm
begin

text \<open>
  \<open>systems/usb_pd.rs\<close>: start-up of the USB power delivery controller, with the configuration that
  its memory must hold, and the task that follows its state.
\<close>

section \<open>Start-up\<close>

definition NVM_DATA :: "u8 list list" where
  "NVM_DATA =
    [[0x00, 0x00, 0xB0, 0xAB, 0x00, 0x45, 0x00, 0x00],
     [0x00, 0x40, 0x9C, 0x1C, 0xFF, 0x01, 0x3C, 0xDF],
     [0x02, 0x40, 0x0F, 0x00, 0x32, 0x00, 0xFC, 0xF1],
     [0x00, 0x19, 0x50, 0xAF, 0xF5, 0x35, 0x5F, 0x00],
     [0x00, 0x4B, 0x90, 0x21, 0x43, 0x00, 0x40, 0xFB]]"

text \<open>The reset pin of the controller and the bus it is on.\<close>

record 'b usbpd_bsp =
  reset_pin :: bool
  usb_i2c :: 'b

abbreviation on_usb :: "('b, 'e, 'a) act \<Rightarrow> ('b usbpd_bsp, 'e, 'a) act" where
  "on_usb \<equiv> zoom usb_i2c (\<lambda>b s. s\<lparr>usb_i2c := b\<rparr>)"

text \<open>
  Every result is unwrapped.  \<open>boot\<close> is the number of reads of the identification that fit the
  timeout of \<open>STUSB4500::new\<close>, \<open>polls\<close> the number of polls of each request.
\<close>

definition usbpd_boot :: "('b, 'e) i2c_bus \<Rightarrow> ('b, 'e) dd_ops \<Rightarrow> nat \<Rightarrow> nat \<Rightarrow> ('b, unit, unit) act" where
  "usbpd_boot i2c dd boot polls =
     seqA (unwrapA (stusb_new i2c dd boot)) (
     seqA (unwrapA (stusb_unlock_nvm i2c dd)) (
     bindA (unwrapA (stusb_read_sectors i2c dd polls)) (\<lambda>data.
     seqA (if data \<noteq> NVM_DATA then unwrapA (stusb_write_sectors i2c dd polls NVM_DATA) else ret ())
          (unwrapA (stusb_lock_nvm i2c dd)))))"

definition usbpd_configure :: "('b, 'e) i2c_bus \<Rightarrow> ('b, 'e) dd_ops \<Rightarrow> bitfield_ops \<Rightarrow> ('b, unit, unit) act" where
  "usbpd_configure i2c dd bf =
     seqA (unwrapA (stusb_set_pdo i2c dd PDO2 (fixed_pdo_new bf (20000 div 50) (1000 div 10)))) (
     seqA (unwrapA (stusb_set_pdo_num i2c dd 2))
          (unwrapA (stusb_issue_pd_reset i2c dd)))"

definition usbpd_init :: "('b, 'e) i2c_bus \<Rightarrow> ('b, 'e) dd_ops \<Rightarrow> bitfield_ops \<Rightarrow> nat \<Rightarrow> nat \<Rightarrow>
    ('b usbpd_bsp, unit, unit) act" where
  "usbpd_init i2c dd bf boot polls =
     seqA (modifyA (\<lambda>s. s\<lparr>reset_pin := False\<rparr>)) (
     seqA (on_usb (usbpd_boot i2c dd boot polls))
          (on_usb (usbpd_configure i2c dd bf)))"

definition usbpd_set_pin :: "('b, 'e) i2c_bus \<Rightarrow> ('b, 'e) dd_ops \<Rightarrow> bool \<Rightarrow> ('b, unit, unit) act" where
  "usbpd_set_pin i2c dd level = unwrapA (stusb_gpio_set_level i2c dd level)"

section \<open>The state task\<close>

text \<open>
  A turn of the loop: the state and the request are read, and a change is logged as the old
  state, the new one and the request.  The task makes \<open>n\<close> turns, 50 ms apart.
\<close>

type_synonym fsm_log = "(policy_engine_fsm_state \<times> policy_engine_fsm_state \<times> u8 list) list"

definition usbpd_state_turn :: "('b, 'e) i2c_bus \<Rightarrow> ('b, 'e) dd_ops \<Rightarrow> policy_engine_fsm_state \<Rightarrow>
    ('b, unit, policy_engine_fsm_state \<times> fsm_log) act" where
  "usbpd_state_turn i2c dd prev_state =
     bindA (unwrapA (stusb_fsm_state i2c dd)) (\<lambda>state.
     bindA (unwrapA (stusb_rdo i2c dd)) (\<lambda>rdo.
       ret (if prev_state \<noteq> state then (state, [(prev_state, state, rdo)]) else (prev_state, []))))"

fun usbpd_state_loop :: "('b, 'e) i2c_bus \<Rightarrow> ('b, 'e) dd_ops \<Rightarrow> nat \<Rightarrow> policy_engine_fsm_state \<Rightarrow>
    ('b, unit, policy_engine_fsm_state \<times> fsm_log) act" where
  "usbpd_state_loop i2c dd 0 prev_state = ret (prev_state, [])"
| "usbpd_state_loop i2c dd (Suc n) prev_state =
     bindA (usbpd_state_turn i2c dd prev_state) (\<lambda>(s, log).
     bindA (usbpd_state_loop i2c dd n s) (\<lambda>(s', log'). ret (s', log @ log')))"

definition usbpd_state_task :: "('b, 'e) i2c_bus \<Rightarrow> ('b, 'e) dd_ops \<Rightarrow> nat \<Rightarrow>
    ('b, unit, policy_engine_fsm_state \<times> fsm_log) act" where
  "usbpd_state_task i2c dd n =
     bindA (unwrapA (stusb_fsm_state i2c dd)) (\<lambda>prev_state. usbpd_state_loop i2c dd n prev_state)"

section \<open>Facts on the bytes\<close>

lemma field_store_word: "field_store 0 32 v (replicate 4 0) = le_bytes (v :: u32)"
proof (rule reg_eqI)
  fix i :: nat assume "i < 8 * length (le_bytes v)"
  then have i: "i < 32" by simp
  then have "i div 8 < 4" "8 * (i div 8) + i mod 8 = i" by simp_all
  with i show "reg_bit (field_store 0 32 v (replicate 4 0)) i = reg_bit (le_bytes v) i"
    by (simp add: reg_bit_field_store) (simp add: reg_bit_def le_bytes_def)
qed simp

text \<open>The object for 20 V and 1 A: 400 steps of 50 mV above 100 steps of 10 mA.\<close>

lemma pdo_bits_table:
  "\<forall>i \<in> set [0..<32]. (if i \<le> 9 then bit (100 :: u32) i else if 10 \<le> i \<and> i \<le> 19 then bit (400 :: u32) (i - 10) else False)
     = bit (0x64064 :: u32) i"
  by code_simp

context device_driver
begin

lemma wire_set_pdo2:
  "stusb_set_pdo i2c dd PDO2 pdo = stusb_send i2c (0x89 # le_bytes (pdo_bits pdo))"
  by (simp add: stusb_set_pdo_def stusb_write_wire)
    (simp add: stusb_set_def store_eq field_store_word)

lemma wire_set_pdo_num:
  "stusb_set_pdo_num i2c dd n =
     bindA (stusb_ask i2c 0x70 1) (\<lambda>bs. stusb_write_register i2c DPMPDONUMB (stusb_set dd Pdo_number (ucast n) bs))"
  by (simp add: stusb_set_pdo_num_def stusb_modify_def modify_law stusb_read_register_def)

end

section \<open>The controller\<close>

text \<open>
  Beside the memory: how many more reads of the identification fail while the controller boots,
  and the bytes last written to its other registers.  A write of those leaves the memory alone.
\<close>

definition nvm_addresses :: "u8 set" where
  "nvm_addresses = {0x53, 0x95, 0x96, 0x97}"

locale usbpd_device = stusb4500_nvm dd i2c chip garbled latency polls + bitfield_crate bf
  for dd :: "('b, 'e) dd_ops" and i2c chip garbled latency polls and bf +
  fixes booting :: "'b \<Rightarrow> nat" and written :: "'b \<Rightarrow> u8 \<Rightarrow> u8 list"
  assumes read_id: "i2c_write_read i2c STUSB_ADDRESS [0x2F] 1 b = (q, b') \<Longrightarrow> chip b' = chip b \<and>
      (if booting b = 0 then q = Inr [0x25] else (\<exists>e. q = Inl e) \<and> booting b' = booting b - 1)"
    and write_other: "i2c_write i2c STUSB_ADDRESS (a # bs) b = (r, b') \<Longrightarrow> a \<notin> nvm_addresses \<Longrightarrow>
      r = Inr () \<and> chip b' = chip b \<and> written b' = (written b)(a := bs)"
    and read_other: "i2c_write_read i2c STUSB_ADDRESS [a] n b = (q, b') \<Longrightarrow>
      a \<notin> nvm_addresses \<Longrightarrow> a \<noteq> 0x2F \<Longrightarrow>
      (\<exists>bs. q = Inr bs \<and> length bs = n) \<and> chip b' = chip b \<and> written b' = written b"
begin

lemma poll_id:
  assumes "booting b < n"
  shows "\<exists>b'. stusb_poll_id i2c dd n b = (Ok 0x25, b') \<and> chip b' = chip b"
  using assms
proof (induction n arbitrary: b)
  case (Suc n)
  obtain q b1 where ask: "i2c_write_read i2c STUSB_ADDRESS [0x2F] 1 b = (q, b1)" by fastforce
  note id = read_id [OF ask]
  have wire: "stusb_read i2c dd DeviceID b = (case q of Inl e \<Rightarrow> (Err e, b1) | Inr bs \<Rightarrow> (Ok bs, b1))"
    using ask by (simp add: stusb_read_wire liftR_def)
  show ?case
  proof (cases "booting b = 0")
    case True
    have "stusb_get dd Device_value [0x25] = 0x25" by (simp add: stusb_byte)
    with True id wire show ?thesis by simp
  next
    case False
    with id Suc.prems have "booting b1 < n" "chip b1 = chip b" by simp_all
    with Suc.IH [of b1] id wire False show ?thesis by auto
  qed
qed simp

lemma new:
  assumes "booting b < n"
  shows "\<exists>b'. stusb_new i2c dd n b = (Ok (), b') \<and> chip b' = chip b"
  using poll_id [OF assms] by (auto simp: stusb_new_def bindA_def ret_def)

text \<open>The memory after start-up, and how often it was erased.\<close>

lemma boot_memory:
  assumes "booting b < n" "\<forall>i < 5. length (sectors (chip b) i) = 8"
  shows "\<exists>b'. usbpd_boot i2c dd n polls b = (Ok (), b') \<and> map (sectors (chip b')) [0..<5] = NVM_DATA
    \<and> wear (chip b') = wear (chip b) + (if map (sectors (chip b)) [0..<5] = NVM_DATA then 0 else 1)
    \<and> password (chip b') = 0"
proof -
  obtain b1 where b1: "stusb_new i2c dd n b = (Ok (), b1)" "chip b1 = chip b"
    using new [OF assms(1)] by blast
  obtain b2 where b2: "stusb_unlock_nvm i2c dd b1 = (Ok (), b2)" "chip b2 = (chip b)\<lparr>password := 0x47\<rparr>"
    using unlock [of b1] b1(2) by (auto simp: ends_with_def)
  obtain b3 where b3: "stusb_read_sectors i2c dd polls b2 = (Ok (map (sectors (chip b)) [0..<5]), b3)"
    "sectors (chip b3) = sectors (chip b)" "password (chip b3) = 0x47" "wear (chip b3) = wear (chip b)"
    using read_sectors [of b2] b2(2) assms(2) by auto
  let ?same = "map (sectors (chip b)) [0..<5] = NVM_DATA"
  have "\<exists>b4. (if map (sectors (chip b)) [0..<5] \<noteq> NVM_DATA
        then (unwrapA (stusb_write_sectors i2c dd polls NVM_DATA) :: ('b, unit, unit) act) else ret ()) b3 = (Ok (), b4)
      \<and> map (sectors (chip b4)) [0..<5] = NVM_DATA
      \<and> wear (chip b4) = wear (chip b) + (if ?same then 0 else 1)"
  proof (cases ?same)
    case True
    then show ?thesis using b3 by (simp add: ret_def)
  next
    case False
    have "length NVM_DATA = 5" "\<forall>d \<in> set NVM_DATA. length d = 8" by (simp_all add: NVM_DATA_def)
    from write_sectors [OF b3(3) this] False b3(4) show ?thesis by (auto simp: unwrapA_Ok_iff)
  qed
  then obtain b4 where b4: "(if map (sectors (chip b)) [0..<5] \<noteq> NVM_DATA
        then (unwrapA (stusb_write_sectors i2c dd polls NVM_DATA) :: ('b, unit, unit) act) else ret ()) b3 = (Ok (), b4)"
    "map (sectors (chip b4)) [0..<5] = NVM_DATA" "wear (chip b4) = wear (chip b) + (if ?same then 0 else 1)"
    by blast
  obtain b5 where b5: "stusb_lock_nvm i2c dd b4 = (Ok (), b5)" "chip b5 = (chip b4)\<lparr>ctrl1 := 0, password := 0\<rparr>"
    using lock [of b4] by (auto simp: ends_with_def)
  have "(usbpd_boot i2c dd n polls :: ('b, unit, unit) act) b = (Ok (), b5)"
    unfolding usbpd_boot_def act_Ok_iff using b1(1) b2(1) b3(1) b4(1) b5(1) by (auto simp: unwrapA_Ok_iff)
  with b4 b5(2) show ?thesis by auto
qed

lemma send_other:
  assumes "a \<notin> nvm_addresses"
  shows "\<exists>b'. stusb_send i2c (a # bs) b = (Ok (), b') \<and> chip b' = chip b \<and> written b' = (written b)(a := bs)"
  using write_other [OF _ assms, of bs b] by (auto simp: liftR_def split: prod.split)

lemma set_pdo_num:
  "\<exists>b' x. stusb_set_pdo_num i2c dd n b = (Ok (), b') \<and> chip b' = chip b
    \<and> written b' = (written b)(0x70 := [x]) \<and> take_bit 3 x = take_bit 3 n"
proof -
  obtain q b1 where ask: "i2c_write_read i2c STUSB_ADDRESS [0x70] 1 b = (q, b1)" by fastforce
  with read_other [OF ask] obtain y where y: "q = Inr [y]" and b1: "chip b1 = chip b" "written b1 = written b"
    by (auto simp: nvm_addresses_def length_Suc_conv)
  let ?bs = "stusb_set dd Pdo_number (ucast n) [y]"
  have "length ?bs = Suc 0" by simp
  then obtain x where x: "?bs = [x]" unfolding length_Suc_conv by auto
  have "take_bit 3 x = take_bit 3 n"
  proof (rule bit_word_eqI)
    fix i :: nat assume "i < LENGTH(8)"
    moreover have "reg_bit ?bs i = bit (ucast n :: u32) i" if "i < 3"
      using that store_bit [of 0 3 "[y]" i "ucast n"] by (simp add: stusb_set_def)
    ultimately show "bit (take_bit 3 x) i = bit (take_bit 3 n) i"
      by (auto simp: bit_take_bit_iff x reg_bit_def bit_ucast_iff)
  qed
  moreover obtain b' where "stusb_send i2c (0x70 # [x]) b1 = (Ok (), b')" "chip b' = chip b1"
    "written b' = (written b1)(0x70 := [x])"
    using send_other [of "0x70" "[x]" b1] by (auto simp: nvm_addresses_def)
  moreover have "stusb_set_pdo_num i2c dd n b = stusb_send i2c (0x70 # [x]) b1"
    using ask y x by (simp add: wire_set_pdo_num bindA_def liftR_def stusb_write_register_frame)
  ultimately show ?thesis using b1 by auto
qed

lemma pdo_bytes: "le_bytes (pdo_bits (fixed_pdo_new bf 400 100)) = [0x64, 0x40, 0x06, 0x00]"
proof -
  have pdo: "pdo_bits (fixed_pdo_new bf 400 100) = 0x64064"
  proof (rule bit_word_eqI)
    fix i :: nat assume i: "i < LENGTH(32)"
    then have "i \<in> set [0..<32]" by simp
    from bspec [OF pdo_bits_table this] i
    show "bit (pdo_bits (fixed_pdo_new bf 400 100)) i = bit (0x64064 :: u32) i"
      by (auto simp: fixed_pdo_new_def pdo_set_voltage_def pdo_set_current_def bf_set_bit
          split: if_splits)
  qed
  show ?thesis unfolding pdo by code_simp
qed

lemma configure:
  "\<exists>b' x. usbpd_configure i2c dd bf b = (Ok (), b') \<and> chip b' = chip b
    \<and> written b' = (written b)(0x89 := [0x64, 0x40, 0x06, 0x00], 0x70 := [x], 0x51 := [0x0D], 0x1A := [0x26])
    \<and> take_bit 3 x = 2"
proof -
  obtain b1 where b1: "stusb_set_pdo i2c dd PDO2 (fixed_pdo_new bf 400 100) b = (Ok (), b1)"
    "chip b1 = chip b" "written b1 = (written b)(0x89 := [0x64, 0x40, 0x06, 0x00])"
    using send_other [of "0x89" _ b] by (auto simp: wire_set_pdo2 pdo_bytes nvm_addresses_def)
  obtain b2 x where b2: "stusb_set_pdo_num i2c dd 2 b1 = (Ok (), b2)" "chip b2 = chip b1"
    "written b2 = (written b1)(0x70 := [x])" "take_bit 3 x = (2 :: u8)"
    using set_pdo_num [of 2 b1] by auto
  obtain b3 where b3: "stusb_send i2c [0x51, 0x0D] b2 = (Ok (), b3)" "chip b3 = chip b2"
    "written b3 = (written b2)(0x51 := [0x0D])"
    using send_other [of "0x51" _ b2] by (auto simp: nvm_addresses_def)
  obtain b4 where b4: "stusb_send i2c [0x1A, 0x26] b3 = (Ok (), b4)" "chip b4 = chip b3"
    "written b4 = (written b3)(0x1A := [0x26])"
    using send_other [of "0x1A" _ b3] by (auto simp: nvm_addresses_def)
  have "stusb_issue_pd_reset i2c dd b2 = (Ok (), b4)"
    using b3(1) b4(1) by (simp add: wire_pd_reset bindA_Ok)
  with b1 b2 have "usbpd_configure i2c dd bf b = (Ok (), b4)"
    by (simp add: usbpd_configure_def bindA_Ok unwrapA_Ok_iff)
  with b1 b2 b3 b4 show ?thesis by auto
qed

lemma init:
  assumes "booting (usb_i2c s) < n" "\<forall>i < 5. length (sectors (chip (usb_i2c s)) i) = 8"
  shows "\<exists>s' x. usbpd_init i2c dd bf n polls s = (Ok (), s') \<and> \<not> reset_pin s'
    \<and> map (sectors (chip (usb_i2c s'))) [0..<5] = NVM_DATA
    \<and> wear (chip (usb_i2c s')) = wear (chip (usb_i2c s)) +
        (if map (sectors (chip (usb_i2c s))) [0..<5] = NVM_DATA then 0 else 1)
    \<and> password (chip (usb_i2c s')) = 0
    \<and> written (usb_i2c s') 0x89 = [0x64, 0x40, 0x06, 0x00]
    \<and> written (usb_i2c s') 0x70 = [x] \<and> take_bit 3 x = 2
    \<and> written (usb_i2c s') 0x51 = [0x0D] \<and> written (usb_i2c s') 0x1A = [0x26]"
proof -
  let ?same = "map (sectors (chip (usb_i2c s))) [0..<5] = NVM_DATA"
  obtain b1 where b1: "usbpd_boot i2c dd n polls (usb_i2c s) = (Ok (), b1)"
    "map (sectors (chip b1)) [0..<5] = NVM_DATA" "password (chip b1) = 0"
    "wear (chip b1) = wear (chip (usb_i2c s)) + (if ?same then 0 else 1)"
    using boot_memory [OF assms] by blast
  obtain b2 x where b2: "usbpd_configure i2c dd bf b1 = (Ok (), b2)" "chip b2 = chip b1"
    and w: "written b2 = (written b1)(0x89 := [0x64, 0x40, 0x06, 0x00], 0x70 := [x], 0x51 := [0x0D], 0x1A := [0x26])"
      "take_bit 3 x = 2"
    using configure [of b1] by blast
  have "usbpd_init i2c dd bf n polls s = (Ok (), s\<lparr>reset_pin := False, usb_i2c := b2\<rparr>)"
    using b1(1) b2(1) by (simp add: usbpd_init_def bindA_def modifyA_def zoom_def)
  with b1 b2(2) w show ?thesis
    by (intro exI [of _ "s\<lparr>reset_pin := False, usb_i2c := b2\<rparr>"] exI [of _ x] conjI) simp_all
qed

end

section \<open>A simulated controller\<close>

record sim_pd =
  pd_chip :: nvm_chip
  pd_written :: "u8 \<Rightarrow> u8 list"
  pd_booting :: nat

definition sim_pd_i2c :: "(sim_pd, unit) i2c_bus" where
  "sim_pd_i2c = \<lparr>
     i2c_write = (\<lambda>a bs s. if bs \<noteq> [] \<and> hd bs \<notin> nvm_addresses
        then (Inr (), s\<lparr>pd_written := (pd_written s)(hd bs := tl bs)\<rparr>)
        else (case sim_write a bs (pd_chip s) of (r, c) \<Rightarrow> (r, s\<lparr>pd_chip := c\<rparr>))),
     i2c_write_read = (\<lambda>a ws n s. if ws = [0x2F] \<and> n = 1
        then (if pd_booting s = 0 then (Inr [0x25], s) else (Inl (), s\<lparr>pd_booting := pd_booting s - 1\<rparr>))
        else (case sim_write_read a ws n (pd_chip s) of (r, c) \<Rightarrow> (r, s\<lparr>pd_chip := c\<rparr>)))\<rparr>"

definition sim_pd_blank :: "nat \<Rightarrow> sim_pd" where
  "sim_pd_blank n = \<lparr>pd_chip = sim_blank, pd_written = (\<lambda>_. []), pd_booting = n\<rparr>"

interpretation sim_pd: usbpd_device ref_dd sim_pd_i2c pd_chip "map2 (OR)" 3 4 ref_bf pd_booting pd_written
proof (intro usbpd_device.intro stusb4500_nvm.intro rdd.device_driver_axioms rbf.bitfield_crate_axioms
    stusb4500_chip.intro stusb4500_nvm_axioms.intro usbpd_device_axioms.intro)
  note run = sim_pd_i2c_def sim_write_def sim_write_read_def nvm_addresses_def
  fix x :: u8 and r :: "unit + unit" and b b'
  show "i2c_write sim_pd_i2c STUSB_ADDRESS [0x95, x] b = (r, b') \<Longrightarrow>
      r = Inr () \<and> pd_chip b' = (pd_chip b)\<lparr>password := x\<rparr>"
    and "i2c_write sim_pd_i2c STUSB_ADDRESS [0x97, x] b = (r, b') \<Longrightarrow>
      r = Inr () \<and> pd_chip b' = (pd_chip b)\<lparr>ctrl1 := x\<rparr>"
    and "i2c_write sim_pd_i2c STUSB_ADDRESS [0x96, x] b = (r, b') \<Longrightarrow> \<not> bit x 4 \<Longrightarrow>
      r = Inr () \<and> pd_chip b' = pd_chip b"
    by (auto simp: run)
  show "i2c_write sim_pd_i2c STUSB_ADDRESS (0x53 # bs) b = (r, b') \<Longrightarrow> length bs = 8 \<Longrightarrow>
      r = Inr () \<and> pd_chip b' = (pd_chip b)\<lparr>rw_buf := bs\<rparr>" for bs
    by (auto simp: run)
  show "i2c_write sim_pd_i2c STUSB_ADDRESS [0x96, x] b = (r, b') \<Longrightarrow> bit x 4 \<Longrightarrow> bit x 6 \<Longrightarrow> bit x 7 \<Longrightarrow>
      password (pd_chip b) = 0x47 \<Longrightarrow> r = Inr () \<and>
      (\<exists>k\<le>3. pd_chip b' = (nvm_exec (map2 (OR)) (unat (take_bit 4 x)) (pd_chip b))\<lparr>busy := k\<rparr>)"
    by (auto simp: run)
  show "i2c_write sim_pd_i2c STUSB_ADDRESS (a # bs) b = (r, b') \<Longrightarrow> a \<notin> nvm_addresses \<Longrightarrow>
      r = Inr () \<and> pd_chip b' = pd_chip b \<and> pd_written b' = (pd_written b)(a := bs)" for a bs
    by (auto simp: run)
next
  note run = sim_pd_i2c_def sim_write_def sim_write_read_def nvm_addresses_def
  fix q :: "unit + u8 list" and b b'
  show "i2c_write_read sim_pd_i2c STUSB_ADDRESS [0x96] 1 b = (q, b') \<Longrightarrow>
      \<exists>x. q = Inr [x] \<and> bit x 4 = (0 < busy (pd_chip b)) \<and> pd_chip b' = (pd_chip b)\<lparr>busy := busy (pd_chip b) - 1\<rparr>"
    by (auto simp: run)
  show "i2c_write_read sim_pd_i2c STUSB_ADDRESS [0x53] 8 b = (q, b') \<Longrightarrow>
      q = Inr (rw_buf (pd_chip b)) \<and> pd_chip b' = pd_chip b"
    by (auto simp: run)
  show "i2c_write_read sim_pd_i2c STUSB_ADDRESS [0x2F] 1 b = (q, b') \<Longrightarrow> pd_chip b' = pd_chip b \<and>
      (if pd_booting b = 0 then q = Inr [0x25] else (\<exists>e. q = Inl e) \<and> pd_booting b' = pd_booting b - 1)"
    by (auto simp: run split: if_splits)
  show "i2c_write_read sim_pd_i2c STUSB_ADDRESS [a] n b = (q, b') \<Longrightarrow> a \<notin> nvm_addresses \<Longrightarrow> a \<noteq> 0x2F \<Longrightarrow>
      (\<exists>bs. q = Inr bs \<and> length bs = n) \<and> pd_chip b' = pd_chip b \<and> pd_written b' = pd_written b" for a n
    by (auto simp: run)
qed simp

section \<open>Properties\<close>

text \<open>C14: Start-up provisions the controller: when the controller answers within the boot timeout,
  \<open>Usbpd::init\<close> returns with the five sectors of its memory equal to \<open>NVM_DATA\<close> and the memory
  locked again; the memory was erased once if it differed and not at all if it did not, so a
  provisioned controller is not worn by further starts; and the last writes make PDO2 an object of
  20 V and 1 A, offer two objects, and send the PD reset.\<close>

theorem usbpd_init_provisions:
  assumes "usbpd_device dd i2c chip garbled latency polls bf booting written"
    and "booting (usb_i2c s) < boot" and "\<forall>i < 5. length (sectors (chip (usb_i2c s)) i) = 8"
  shows "\<exists>s' x. usbpd_init i2c dd bf boot polls s = (Ok (), s') \<and> \<not> reset_pin s'
    \<and> map (sectors (chip (usb_i2c s'))) [0..<5] = NVM_DATA
    \<and> wear (chip (usb_i2c s')) = wear (chip (usb_i2c s)) +
        (if map (sectors (chip (usb_i2c s))) [0..<5] = NVM_DATA then 0 else 1)
    \<and> password (chip (usb_i2c s')) = 0
    \<and> written (usb_i2c s') 0x89 = [0x64, 0x40, 0x06, 0x00]
    \<and> written (usb_i2c s') 0x70 = [x] \<and> take_bit 3 x = 2
    \<and> written (usb_i2c s') 0x51 = [0x0D] \<and> written (usb_i2c s') 0x1A = [0x26]"
  using usbpd_device.init [OF assms] .

theorem usbpd_init_provisions_witness:
  "\<exists>s'. usbpd_init sim_pd_i2c ref_dd ref_bf 100 4 \<lparr>reset_pin = True, usb_i2c = sim_pd_blank 2\<rparr> = (Ok (), s')
    \<and> map (sectors (pd_chip (usb_i2c s'))) [0..<5] = NVM_DATA \<and> wear (pd_chip (usb_i2c s')) = 1"
proof -
  let ?s = "\<lparr>reset_pin = True, usb_i2c = sim_pd_blank 2\<rparr>"
  have "map (sectors (pd_chip (sim_pd_blank 2))) [0..<5] \<noteq> NVM_DATA"
  proof
    assume "map (sectors (pd_chip (sim_pd_blank 2))) [0..<5] = NVM_DATA"
    then have "hd (map (sectors (pd_chip (sim_pd_blank 2))) [0..<5] ! 0) = hd (NVM_DATA ! 0)" by simp
    then show False by (simp add: sim_pd_blank_def sim_blank_def NVM_DATA_def)
  qed
  then show ?thesis
    using usbpd_init_provisions [OF sim_pd.usbpd_device_axioms, of ?s 100]
    by (auto simp: sim_pd_blank_def sim_blank_def)
qed

fun fsm_path :: "policy_engine_fsm_state \<Rightarrow> fsm_log \<Rightarrow> policy_engine_fsm_state \<Rightarrow> bool" where
  "fsm_path s [] t = (s = t)"
| "fsm_path s ((a, b, rdo) # log) t = (a = s \<and> b \<noteq> a \<and> fsm_path b log t)"

lemma fsm_path_append: "fsm_path s log t \<Longrightarrow> fsm_path t log' u \<Longrightarrow> fsm_path s (log @ log') u"
  by (induction s log t rule: fsm_path.induct) simp_all

lemma state_turn_path:
  assumes "usbpd_state_turn i2c dd prev b = (Ok (s, log), b')"
  shows "fsm_path prev log s \<and> length log \<le> 1"
  using assms by (auto simp: usbpd_state_turn_def act_Ok_iff split: if_splits)

lemma state_loop_path:
  fixes i2c :: "('b, 'e) i2c_bus"
  assumes "usbpd_state_loop i2c dd n prev b = (Ok (s, log), b')"
  shows "fsm_path prev log s \<and> length log \<le> n"
  using assms
proof (induction n arbitrary: prev b log)
  case (Suc n)
  from Suc.prems obtain s1 l1 b1 l2 where
    turn: "(usbpd_state_turn i2c dd prev :: ('b, unit, policy_engine_fsm_state \<times> fsm_log) act) b = (Ok (s1, l1), b1)"
    and loop: "(usbpd_state_loop i2c dd n s1 :: ('b, unit, policy_engine_fsm_state \<times> fsm_log) act) b1 = (Ok (s, l2), b')"
    and log: "log = l1 @ l2"
    by (auto simp: bindA_Ok_iff)
  from state_turn_path [OF turn] Suc.IH [OF loop] fsm_path_append [of prev l1 s1 l2 s]
  show ?case by (simp add: log)
qed (auto simp: ret_def)

text \<open>What \<open>state_task\<close> logs is the path of the states it read: the log starts at the state read at
  the start, each entry starts where the one before ended and changes the state, the last one
  ends in the current state, and there is at most one entry per turn.  A state byte that is no
  variant of \<open>PolicyEngineFSMState\<close> panics.\<close>

theorem state_task_logs_path:
  fixes i2c :: "('b, 'e) i2c_bus"
  assumes "device_driver dd"
  shows "(\<forall>s log b'. usbpd_state_task i2c dd n b = (Ok (s, log), b') \<longrightarrow>
      (\<exists>s0 b0. stusb_fsm_state i2c dd b = (Ok s0, b0) \<and> fsm_path s0 log s \<and> length log \<le> n))
    \<and> (\<forall>x b'. i2c_write_read i2c STUSB_ADDRESS [0x29] 1 b = (Inr [x], b') \<and> x \<notin> range fsm_state_bits \<longrightarrow>
      usbpd_state_task i2c dd n b = (Panic, b'))"
proof (intro conjI allI impI)
  fix s log b' assume "usbpd_state_task i2c dd n b = (Ok (s, log), b')"
  then obtain s0 b0 where "stusb_fsm_state i2c dd b = (Ok s0, b0)"
    and "(usbpd_state_loop i2c dd n s0 :: ('b, unit, policy_engine_fsm_state \<times> fsm_log) act) b0 = (Ok (s, log), b')"
    by (auto simp: usbpd_state_task_def act_Ok_iff)
  with state_loop_path [of i2c dd n s0 b0 s log b'] show "\<exists>s0 b0. stusb_fsm_state i2c dd b = (Ok s0, b0) \<and> fsm_path s0 log s \<and> length log \<le> n"
    by blast
next
  fix x b' assume x: "i2c_write_read i2c STUSB_ADDRESS [0x29] 1 b = (Inr [x], b') \<and> x \<notin> range fsm_state_bits"
  then have "fsm_state_of x = None" by (metis fsm_state_of_iff not_None_eq rangeI)
  with fsm_state_run [OF assms] x have "stusb_fsm_state i2c dd b = (Err HlInvalidValue, b')"
    by (simp add: fail_def)
  then show "usbpd_state_task i2c dd n b = (Panic, b')"
    by (simp add: usbpd_state_task_def bindA_def unwrapA_def)
qed

theorem state_task_logs_path_witness:
  "usbpd_state_task (recorder\<lparr>i2c_write_read := \<lambda>a ws n log. (Inr (replicate n 0x99), log)\<rparr>) ref_dd 3 [] = (Panic, [])
    \<and> (\<exists>s0 b0. stusb_fsm_state (recorder\<lparr>i2c_write_read := \<lambda>a ws n log. (Inr (replicate n 0x18), log)\<rparr>) ref_dd [] =
        (Ok s0, b0) \<and> fsm_path s0 [] SnkReady)"
proof
  have no: "(0x99 :: u8) \<notin> range fsm_state_bits"
  proof
    assume "(0x99 :: u8) \<in> range fsm_state_bits"
    then obtain s where "fsm_state_bits s = 0x99" by auto
    then show False by (cases s) simp_all
  qed
  let ?bad = "recorder\<lparr>i2c_write_read := \<lambda>a ws n log. (Inr (replicate n 0x99), log)\<rparr>"
  show "usbpd_state_task ?bad ref_dd 3 [] = (Panic, [])"
    using state_task_logs_path [OF rdd.device_driver_axioms, of ?bad 3 "[]"] no by simp
  let ?ready = "recorder\<lparr>i2c_write_read := \<lambda>a ws n log. (Inr (replicate n 0x18), log)\<rparr>"
  have "fsm_state_of 0x18 = Some SnkReady" by (simp add: fsm_state_of_iff)
  with fsm_state_run [OF rdd.device_driver_axioms, of ?ready "[]" "0x18" "[]"]
  have "usbpd_state_task ?ready ref_dd 0 [] = (Ok (SnkReady, []), [])"
    by (simp add: usbpd_state_task_def bindA_def unwrapA_def ret_def)
  with state_task_logs_path [OF rdd.device_driver_axioms, of ?ready 0 "[]"]
  show "\<exists>s0 b0. stusb_fsm_state ?ready ref_dd [] = (Ok s0, b0) \<and> fsm_path s0 [] SnkReady"
    by blast
qed

end
