(* ===== verification/Watchdog.thy ===== *)
theory Watchdog
  imports Prelude
begin

text \<open>
  \<open>systems/watchdog.rs\<close>: the hardware watchdog is fed once every registered ticket was fed
  since the last time.  The bit array that records them is the one of the bitvec crate, a
  parameter; the feeding of the peripheral is counted in the state.
\<close>

section \<open>The bit array\<close>

text \<open>
  \<open>BitArray::default\<close>, \<open>set\<close> on the whole array, and \<open>all\<close> on the slice \<open>[0..n]\<close>; an index
  or a range outside the array panics.
\<close>

record 'm bitarray_ops =
  ba_default :: 'm
  ba_set :: "nat \<Rightarrow> bool \<Rightarrow> 'm \<Rightarrow> 'm option"
  ba_all_upto :: "nat \<Rightarrow> 'm \<Rightarrow> bool option"

locale bitarray =
  fixes ba :: "'m bitarray_ops" and bits :: "'m \<Rightarrow> nat set" and cap :: nat
  assumes default_empty: "bits (ba_default ba) = {}"
    and set_in: "i < cap \<Longrightarrow> \<exists>m'. ba_set ba i True m = Some m' \<and> bits m' = insert i (bits m)"
    and set_out: "cap \<le> i \<Longrightarrow> ba_set ba i True m = None"
    and all_in: "n \<le> cap \<Longrightarrow> ba_all_upto ba n m = Some ({..<n} \<subseteq> bits m)"
    and all_out: "cap < n \<Longrightarrow> ba_all_upto ba n m = None"

text \<open>A provider: one \<open>u16\<close>, bit \<open>i\<close> for index \<open>i\<close>.\<close>

definition ref_ba :: "u16 bitarray_ops" where
  "ref_ba = \<lparr>
     ba_default = 0,
     ba_set = (\<lambda>i x m. if i < 16 then Some (if x then set_bit i m else unset_bit i m) else None),
     ba_all_upto = (\<lambda>n m. if n \<le> 16 then Some (\<forall>i \<in> set [0..<n]. bit m i) else None)\<rparr>"

interpretation rba: bitarray ref_ba "\<lambda>m. {i. bit m i}" 16
  by unfold_locales (auto simp: ref_ba_def bit_set_bit_iff)

section \<open>The watchdog\<close>

definition WATCHDOG_DURATION_SECS :: nat where "WATCHDOG_DURATION_SECS = 30"
definition WATCHDOG_WIGGLE_SECS :: nat where "WATCHDOG_WIGGLE_SECS = 1"

definition WATCHDOG_DEADLINE_SECS :: nat where
  "WATCHDOG_DEADLINE_SECS = WATCHDOG_DURATION_SECS - WATCHDOG_WIGGLE_SECS"

text \<open>The inner state, with the timeout set in the peripheral and the times it was fed.\<close>

record 'm wd_inner =
  peri_timeout :: nat
  peri_feeds :: nat
  mask :: 'm
  count :: nat

definition wd_init :: "'m bitarray_ops \<Rightarrow> 'm wd_inner" where
  "wd_init ba =
     \<lparr>peri_timeout = WATCHDOG_DURATION_SECS, peri_feeds = 0, mask = ba_default ba, count = 0\<rparr>"

definition wd_feed :: "'m bitarray_ops \<Rightarrow> nat \<Rightarrow> ('m wd_inner, 'e, unit) act" where
  "wd_feed ba index s =
     (case ba_set ba index True (mask s) of
        None \<Rightarrow> (Panic, s)
      | Some m \<Rightarrow>
          let s1 = s\<lparr>mask := m\<rparr> in
          case ba_all_upto ba (count s1) (mask s1) of
            None \<Rightarrow> (Panic, s1)
          | Some all \<Rightarrow>
              if all then (Ok (), s1\<lparr>mask := ba_default ba, peri_feeds := peri_feeds s1 + 1\<rparr>)
              else (Ok (), s1))"

text \<open>A ticket is its index; it is fed as soon as it is handed out.\<close>

definition wd_ticket :: "'m bitarray_ops \<Rightarrow> ('m wd_inner, 'e, nat) act" where
  "wd_ticket ba s =
     (let index = count s; s1 = s\<lparr>count := count s + 1\<rparr> in
      bindA (wd_feed ba index) (\<lambda>_. ret index) s1)"

definition wd_ticket_feed :: "'m bitarray_ops \<Rightarrow> nat \<Rightarrow> ('m wd_inner, 'e, unit) act" where
  "wd_ticket_feed ba ticket = wd_feed ba ticket"

section \<open>The abstract watchdog\<close>

text \<open>
  What the mechanism promises: the set of tickets fed since the last feed of the hardware; the
  hardware is fed when the set is complete.
\<close>

record wd_spec =
  tickets :: nat
  seen :: "nat set"
  feeds :: nat

definition spec_feed :: "nat \<Rightarrow> wd_spec \<Rightarrow> wd_spec" where
  "spec_feed i s =
     (if {..<tickets s} \<subseteq> insert i (seen s) then s\<lparr>seen := {}, feeds := Suc (feeds s)\<rparr>
      else s\<lparr>seen := insert i (seen s)\<rparr>)"

definition wd_abs :: "('m \<Rightarrow> nat set) \<Rightarrow> 'm wd_inner \<Rightarrow> wd_spec" where
  "wd_abs bits s = \<lparr>tickets = count s, seen = bits (mask s), feeds = peri_feeds s\<rparr>"

context bitarray
begin

lemma feed_refines:
  assumes "i < cap" "count s \<le> cap"
  shows "\<exists>s'. wd_feed ba i s = (Ok (), s') \<and> wd_abs bits s' = spec_feed i (wd_abs bits s)
    \<and> count s' = count s"
proof -
  from set_in [OF assms(1)] obtain m where "ba_set ba i True (mask s) = Some m"
    and "bits m = insert i (bits (mask s))" by blast
  then show ?thesis
    by (simp add: wd_feed_def Let_def all_in [OF assms(2)] wd_abs_def spec_feed_def default_empty)
qed

lemma ticket_refines:
  assumes "count s < cap"
  shows "\<exists>s'. (wd_ticket ba :: ('m wd_inner, 'e, nat) act) s = (Ok (count s), s') \<and> count s' = Suc (count s)
    \<and> wd_abs bits s' = spec_feed (count s) ((wd_abs bits s)\<lparr>tickets := Suc (count s)\<rparr>)"
proof -
  let ?s = "s\<lparr>count := Suc (count s)\<rparr>"
  from feed_refines [of "count s" ?s] assms obtain s' where
    "(wd_feed ba (count s) :: ('m wd_inner, 'e, unit) act) ?s = (Ok (), s')"
    and "wd_abs bits s' = spec_feed (count s) (wd_abs bits ?s)" and "count s' = count ?s" by auto
  then show ?thesis by (simp add: wd_ticket_def Let_def bindA_def ret_def wd_abs_def)
qed

text \<open>The seventeenth ticket does not fit.\<close>

lemma ticket_panics: "cap \<le> count s \<Longrightarrow> fst (wd_ticket ba s) = Panic"
  by (simp add: wd_ticket_def wd_feed_def Let_def bindA_def set_out)

text \<open>A sequence of feeds of registered tickets runs as its abstraction does.\<close>

lemma feeds_refine:
  assumes "\<forall>i \<in> set is. i < count s" "count s \<le> cap"
  shows "\<exists>s'. (forA (wd_ticket_feed ba) is :: ('m wd_inner, 'e, unit) act) s = (Ok (), s') \<and> count s' = count s
    \<and> wd_abs bits s' = fold spec_feed is (wd_abs bits s)"
  using assms
proof (induction "is" arbitrary: s)
  case Nil
  then show ?case by (simp add: ret_def)
next
  case (Cons i "is")
  then have "i < cap" by auto
  from feed_refines [OF this Cons.prems(2)] obtain s1 where
    1: "(wd_feed ba i :: ('m wd_inner, 'e, unit) act) s = (Ok (), s1)" "count s1 = count s"
      "wd_abs bits s1 = spec_feed i (wd_abs bits s)" by blast
  with Cons.prems Cons.IH [of s1] show ?case by (auto simp: wd_ticket_feed_def bindA_def)
qed

end

subsection \<open>The abstract watchdog is fed when it should be\<close>

text \<open>Some ticket is missing between two operations.\<close>

definition some_missing :: "wd_spec \<Rightarrow> bool" where
  "some_missing s \<longleftrightarrow> \<not> {..<tickets s} \<subseteq> seen s"

lemma spec_feed_missing: "0 < tickets s \<Longrightarrow> some_missing (spec_feed i s)"
  by (auto simp: some_missing_def spec_feed_def)

lemma spec_feed_tickets [simp]: "tickets (spec_feed i s) = tickets s"
  by (simp add: spec_feed_def)

lemma fold_spec_feed_tickets [simp]: "tickets (fold spec_feed is s) = tickets s"
  by (induction "is" arbitrary: s) simp_all

lemma spec_feed_mono: "feeds s \<le> feeds (spec_feed i s)"
  by (simp add: spec_feed_def)

lemma fold_spec_feed_mono: "feeds s \<le> feeds (fold spec_feed is s)"
proof (induction "is" arbitrary: s)
  case (Cons i "is")
  have "feeds s \<le> feeds (spec_feed i s)" by (rule spec_feed_mono)
  also have "\<dots> \<le> feeds (fold spec_feed is (spec_feed i s))" by (rule Cons.IH)
  finally show ?case by simp
qed simp

text \<open>As long as the hardware is not fed, the set grows by what is fed.\<close>

lemma fold_spec_feed_seen:
  "feeds (fold spec_feed is s) = feeds s \<Longrightarrow> seen (fold spec_feed is s) = seen s \<union> set is"
proof (induction "is" arbitrary: s)
  case (Cons i "is")
  from Cons.prems have "feeds (spec_feed i s) = feeds s"
    using spec_feed_mono [of s i] fold_spec_feed_mono [of "spec_feed i s" "is"] by simp
  then have "seen (spec_feed i s) = insert i (seen s)"
    by (auto simp: spec_feed_def split: if_splits)
  with Cons show ?case
    using \<open>feeds (spec_feed i s) = feeds s\<close> by auto
qed simp

lemma fold_spec_feed_missing:
  "0 < tickets s \<Longrightarrow> some_missing s \<Longrightarrow> some_missing (fold spec_feed is s)"
  by (induction "is" arbitrary: s) (simp_all add: spec_feed_missing)

lemma all_fed_feeds:
  assumes "0 < tickets s" "some_missing s" "{..<tickets s} \<subseteq> set is"
  shows "feeds s < feeds (fold spec_feed is s)"
proof (rule ccontr)
  assume "\<not> ?thesis"
  with fold_spec_feed_mono [of s "is"] have same: "feeds (fold spec_feed is s) = feeds s" by simp
  from fold_spec_feed_seen [OF this] assms(3) have "{..<tickets s} \<subseteq> seen (fold spec_feed is s)"
    by auto
  with fold_spec_feed_missing [OF assms(1,2)] show False by (simp add: some_missing_def)
qed

lemma starved_no_feed:
  assumes "j < tickets s" "j \<notin> seen s" "j \<notin> set is"
  shows "feeds (fold spec_feed is s) = feeds s \<and> j \<notin> seen (fold spec_feed is s)"
  using assms
proof (induction "is" arbitrary: s)
  case (Cons i "is")
  then have "spec_feed i s = s\<lparr>seen := insert i (seen s)\<rparr>" by (auto simp: spec_feed_def)
  with Cons.IH [of "spec_feed i s"] Cons.prems show ?case by simp
qed simp

text \<open>What is left in the set allows for one more feed of the hardware at most.\<close>

lemma starved_one_feed:
  assumes "j < tickets s" "j \<notin> set is"
  shows "feeds (fold spec_feed is s) \<le> feeds s + (if j \<in> seen s then 1 else 0)"
  using assms
proof (induction "is" arbitrary: s)
  case (Cons i "is")
  then have IH: "feeds (fold spec_feed is (spec_feed i s))
      \<le> feeds (spec_feed i s) + (if j \<in> seen (spec_feed i s) then 1 else 0)" by simp
  show ?case
  proof (cases "{..<tickets s} \<subseteq> insert i (seen s)")
    case True
    then have "spec_feed i s = s\<lparr>seen := {}, feeds := Suc (feeds s)\<rparr>" by (simp add: spec_feed_def)
    moreover from True Cons.prems have "j \<in> seen s" by auto
    ultimately show ?thesis using IH by simp
  next
    case False
    then have "spec_feed i s = s\<lparr>seen := insert i (seen s)\<rparr>" by (auto simp: spec_feed_def)
    with IH Cons.prems show ?thesis by simp
  qed
qed simp

section \<open>Properties\<close>

text \<open>C4: \<open>WatchdogTicket::feed\<close> implements the abstract watchdog: with at most 16 tickets registered,
  feeding any of them never panics and has the effect of adding it to the set of tickets seen, and
  of feeding the peripheral and emptying the set exactly when this completes it; handing out a
  ticket registers the next index and feeds it at once, and panics from the seventeenth on.\<close>

theorem watchdog_refines_spec:
  assumes "bitarray ba bits 16"
  shows "(i < count s \<and> count s \<le> 16 \<longrightarrow>
      (\<exists>s'. wd_ticket_feed ba i s = (Ok (), s') \<and> count s' = count s
        \<and> wd_abs bits s' = spec_feed i (wd_abs bits s)))
    \<and> (count s < 16 \<longrightarrow>
      (\<exists>s'. wd_ticket ba s = (Ok (count s), s') \<and> count s' = Suc (count s)
        \<and> wd_abs bits s' = spec_feed (count s) ((wd_abs bits s)\<lparr>tickets := Suc (count s)\<rparr>)))
    \<and> (16 \<le> count s \<longrightarrow> fst (wd_ticket ba s) = Panic)"
  using bitarray.feed_refines [OF assms, of i s] bitarray.ticket_refines [OF assms, of s]
    bitarray.ticket_panics [OF assms, of s]
  by (auto simp: wd_ticket_feed_def)

theorem watchdog_refines_spec_witness:
  "\<exists>s'. wd_ticket ref_ba (wd_init ref_ba) = (Ok 0, s') \<and> count s' = 1
    \<and> wd_abs (\<lambda>m. {i. bit m i}) s' =
        spec_feed 0 ((wd_abs (\<lambda>m. {i. bit m i}) (wd_init ref_ba))\<lparr>tickets := 1\<rparr>)"
  using watchdog_refines_spec [OF rba.bitarray_axioms, of 0 "wd_init ref_ba"]
  by (simp add: wd_init_def)

text \<open>A task that stops feeding stops the watchdog: while the ticket \<open>j\<close> has not been fed since the
  last feed of the peripheral and is not fed, no sequence of feeds of the other tickets, in any
  order and of any length, feeds the peripheral.\<close>

theorem starved_ticket_blocks_watchdog:
  assumes "bitarray ba bits 16" "count s \<le> 16" "\<forall>i \<in> set is. i < count s"
    and "j < count s" "j \<notin> bits (mask s)" "j \<notin> set is"
  shows "\<exists>s'. (forA (wd_ticket_feed ba) is :: ('m wd_inner, 'e, unit) act) s = (Ok (), s') \<and> peri_feeds s' = peri_feeds s"
proof -
  from bitarray.feeds_refine [OF assms(1,3,2)] obtain s' where
    run: "(forA (wd_ticket_feed ba) is :: ('m wd_inner, 'e, unit) act) s = (Ok (), s')"
    and abs: "wd_abs bits s' = fold spec_feed is (wd_abs bits s)" by blast
  have "feeds (fold spec_feed is (wd_abs bits s)) = feeds (wd_abs bits s)"
    using starved_no_feed [of j "wd_abs bits s" "is"] assms(4-6) by (simp add: wd_abs_def)
  with abs have "peri_feeds s' = peri_feeds s" by (metis wd_abs_def wd_spec.select_convs(3))
  with run show ?thesis by blast
qed

theorem starved_ticket_blocks_watchdog_witness:
  "\<exists>s'. forA (wd_ticket_feed ref_ba) [0, 0, 0] ((wd_init ref_ba)\<lparr>count := 2\<rparr>) = (Ok (), s')
    \<and> peri_feeds s' = 0"
  using starved_ticket_blocks_watchdog [OF rba.bitarray_axioms, of "(wd_init ref_ba)\<lparr>count := 2\<rparr>" "[0, 0, 0]" 1]
  by (simp add: wd_init_def ref_ba_def)

text \<open>Once every registered ticket is fed, in whatever order and however often, the peripheral has
  been fed: between two feeds of the peripheral there is at most the longest interval in which
  some ticket is not fed, which is what the comment on \<open>WATCHDOG_DEADLINE\<close> promises.\<close>

theorem all_tickets_feed_watchdog:
  assumes "bitarray ba bits 16" "0 < count s" "count s \<le> 16" "\<forall>i \<in> set is. i < count s"
    and "\<not> {..<count s} \<subseteq> bits (mask s)" "{..<count s} \<subseteq> set is"
  shows "\<exists>s'. (forA (wd_ticket_feed ba) is :: ('m wd_inner, 'e, unit) act) s = (Ok (), s') \<and> peri_feeds s < peri_feeds s'
    \<and> \<not> {..<count s'} \<subseteq> bits (mask s')"
proof -
  from bitarray.feeds_refine [OF assms(1,4,3)] obtain s' where
    run: "(forA (wd_ticket_feed ba) is :: ('m wd_inner, 'e, unit) act) s = (Ok (), s')"
    and abs: "wd_abs bits s' = fold spec_feed is (wd_abs bits s)" by blast
  have missing: "some_missing (wd_abs bits s)" and pos: "0 < tickets (wd_abs bits s)"
    using assms(2,5) by (simp_all add: some_missing_def wd_abs_def)
  have "feeds (wd_abs bits s) < feeds (wd_abs bits s')"
    unfolding abs by (rule all_fed_feeds [OF pos missing]) (simp add: wd_abs_def assms(6))
  moreover have "some_missing (wd_abs bits s')"
    unfolding abs by (rule fold_spec_feed_missing [OF pos missing])
  ultimately show ?thesis using run by (simp add: wd_abs_def some_missing_def)
qed

theorem all_tickets_feed_watchdog_witness:
  "\<exists>s'. forA (wd_ticket_feed ref_ba) [1, 0] ((wd_init ref_ba)\<lparr>count := 2\<rparr>) = (Ok (), s')
    \<and> 0 < peri_feeds s' \<and> \<not> {..<count s'} \<subseteq> {i. bit (mask s') i}"
proof -
  have "\<not> {..<2} \<subseteq> {i. bit (0 :: u16) i}" by (simp add: lessThan_empty_iff)
  then show ?thesis
    using all_tickets_feed_watchdog [OF rba.bitarray_axioms, of "(wd_init ref_ba)\<lparr>count := 2\<rparr>" "[1, 0]"]
    by (force simp: wd_init_def ref_ba_def)
qed

end
