(* ===== verification/Power_Ext.thy ===== *)
theory Power_Ext
  imports Tps55289 Config Record_Log Usb_Pd Watchdog
begin

text \<open>
  \<open>systems/power_ext.rs\<close>: the output supply.  Its set-up, the writing of new settings to the
  regulator, and the task that watches the regulator, switches it off after an overcurrent and on
  again after a back-off.  What it calls of the other systems is an interface of its own, whose
  provider at the end of the theory is made of their models.
\<close>

section \<open>State\<close>

datatype power_state = Disabled | Enabled | Enabling | Ocp

record 'b power_inner =
  pi_bus :: 'b
  pi_backoff :: duration
  pi_state :: power_state

text \<open>
  The operations of the other systems: a ticket of the watchdog and its feeding, the pin of the
  USB controller, the log of overcurrents with the reading of the clock it takes, the settings; and the
  timer.
\<close>

record 'w power_env =
  env_ticket :: "('w, unit, nat) act"
  env_feed :: "nat \<Rightarrow> ('w, unit, unit) act"
  env_set_pin :: "bool \<Rightarrow> ('w, unit, unit) act"
  env_log :: "instant \<Rightarrow> u64 \<Rightarrow> ('w, unit, unit) act"
  env_fetch :: "('w, unit, settings) act"
  env_after :: "duration \<Rightarrow> ('w, unit, unit) act"

record ('b, 'w) power_ext =
  px_enable_pin :: bool
  px_inner :: "'b power_inner"
  px_ticket :: nat
  px_peers :: 'w

abbreviation on_inner :: "('b power_inner, 'e, 'a) act \<Rightarrow> (('b, 'w) power_ext, 'e, 'a) act" where
  "on_inner \<equiv> zoom px_inner (\<lambda>i s. s\<lparr>px_inner := i\<rparr>)"

abbreviation on_peers :: "('w, 'e, 'a) act \<Rightarrow> (('b, 'w) power_ext, 'e, 'a) act" where
  "on_peers \<equiv> zoom px_peers (\<lambda>w s. s\<lparr>px_peers := w\<rparr>)"

text \<open>An access to the regulator, its result unwrapped.\<close>

abbreviation on_ll :: "('b, 'e, 'a) act \<Rightarrow> ('b power_inner, unit, 'a) act" where
  "on_ll m \<equiv> zoom pi_bus (\<lambda>b i. i\<lparr>pi_bus := b\<rparr>) (unwrapA m)"

section \<open>Settings\<close>

definition FEEDBACK :: int_fb where "FEEDBACK = Ratio0_0564"
definition CURRENT_SENSE_MILLIOHM :: u32 where "CURRENT_SENSE_MILLIOHM = 20"

definition power_limit_value :: "profile \<Rightarrow> settings \<Rightarrow> u8 option" where
  "power_limit_value p settings = do {
     limit_uv \<leftarrow> rust_mul p (ucast (ma_of (iout_ma settings)) :: u32) CURRENT_SENSE_MILLIOHM;
     q \<leftarrow> rust_div limit_uv 500;
     Some (ucast q) }"

definition power_persist :: "profile \<Rightarrow> time_ops \<Rightarrow> ('b, 'e) i2c_bus \<Rightarrow> ('b, 'e) dd_ops \<Rightarrow>
    settings \<Rightarrow> ('b power_inner, unit, unit) act" where
  "power_persist p tm i2c dd settings =
     bindA (unwrapO (vref_from_feedback p (vout_mv settings) FEEDBACK)) (\<lambda>vref.
     bindA (unwrapO (power_limit_value p settings)) (\<lambda>limit_value.
     seqA (modifyA (\<lambda>i. i\<lparr>pi_backoff := from_millis tm (unat (backoff_ms settings))\<rparr>)) (
     seqA (on_ll (tps_write i2c dd Tps_vref (tps_set dd Vref_vref (ucast (vref_code vref)))))
          (on_ll (tps_modify i2c dd Tps_iout_limit (tps_set dd Iout_limit_setting (ucast limit_value)))))))"

section \<open>Set-up\<close>

text \<open>The mode with the output off and discharged, and with the output on.\<close>

definition mode_off :: "('b, 'e) dd_ops \<Rightarrow> u8 list \<Rightarrow> u8 list" where
  "mode_off dd = tps_set_flag dd Mode_oe False \<circ> tps_set_flag dd Mode_dischg True"

definition mode_on :: "('b, 'e) dd_ops \<Rightarrow> u8 list \<Rightarrow> u8 list" where
  "mode_on dd = tps_set_flag dd Mode_oe True \<circ> tps_set_flag dd Mode_dischg False"

definition power_init :: "profile \<Rightarrow> time_ops \<Rightarrow> ('b, 'e) i2c_bus \<Rightarrow> ('b, 'e) dd_ops \<Rightarrow>
    'w power_env \<Rightarrow> (('b, 'w) power_ext, unit, unit) act" where
  "power_init p tm i2c dd env =
     seqA (modifyA (\<lambda>s. s\<lparr>px_enable_pin := True\<rparr>)) (
     seqA (on_peers (env_after env (from_millis tm 50))) (
     seqA (on_inner (on_ll (tps_modify i2c dd Tps_mode (mode_off dd)))) (
     seqA (on_inner (on_ll (tps_modify i2c dd Tps_vout_fs
              (tps_set dd Vout_fs_intfb (ucast (int_fb_code FEEDBACK)))))) (
     seqA (on_inner (modifyA (\<lambda>i. i\<lparr>pi_backoff := 0, pi_state := Disabled\<rparr>))) (
     bindA (on_peers (env_ticket env)) (\<lambda>ticket.
     seqA (modifyA (\<lambda>s. s\<lparr>px_ticket := ticket\<rparr>)) (
     bindA (on_peers (env_fetch env)) (\<lambda>settings.
       on_inner (power_persist p tm i2c dd settings)))))))))"

definition power_ext_state :: "(('b, 'w) power_ext, 'e, power_state) act" where
  "power_ext_state = readA (pi_state \<circ> px_inner)"

section \<open>The monitor\<close>

fun earliest_deadline :: "instant option list \<Rightarrow> instant option \<Rightarrow> instant option" where
  "earliest_deadline [] res = res"
| "earliest_deadline (None # ds) res = earliest_deadline ds res"
| "earliest_deadline (Some d # ds) res =
     earliest_deadline ds (case res of Some r \<Rightarrow> Some (if r > d then d else r) | None \<Rightarrow> Some d)"

text \<open>The variables of the task.\<close>

record monitor_vars =
  enabled :: bool
  backoff_until :: "instant option"
  stabilized_at :: "instant option"
  ocp_since :: "instant option"

definition monitor_start :: monitor_vars where
  "monitor_start = \<lparr>enabled = False, backoff_until = None, stabilized_at = None, ocp_since = None\<rparr>"

definition STABILIZATION_MILLIS :: nat where "STABILIZATION_MILLIS = 100"

text \<open>\<open>elapsed\<close> panics on an instant in the future.\<close>

definition elapsed_at :: "instant \<Rightarrow> instant \<Rightarrow> duration option" where
  "elapsed_at now since = (if since \<le> now then Some (now - since) else None)"

text \<open>
  What the monitor does on a status, in the three branches of the code.  \<open>now k\<close> is the \<open>k\<close>-th
  reading of the clock in the turn; the log reads it once more for its own use.
\<close>

definition monitor_ocp :: "('b, 'e) i2c_bus \<Rightarrow> ('b, 'e) dd_ops \<Rightarrow> 'w power_env \<Rightarrow> (nat \<Rightarrow> instant) \<Rightarrow>
    monitor_vars \<Rightarrow> (('b, 'w) power_ext, unit, monitor_vars) act" where
  "monitor_ocp i2c dd env now v =
     seqA (on_inner (modifyA (\<lambda>i. i\<lparr>pi_state := Ocp\<rparr>))) (
     seqA (on_inner (on_ll (tps_modify i2c dd Tps_mode (mode_off dd)))) (
     bindA (readA (pi_backoff \<circ> px_inner)) (\<lambda>backoff_duration.
     let v' = v\<lparr>enabled := False, backoff_until := Some (now 0 + backoff_duration),
                stabilized_at := None,
                ocp_since := (if ocp_since v = None then Some (now 1) else ocp_since v)\<rparr>
     in seqA (on_peers (env_set_pin env False)) (ret v'))))"

definition monitor_idle :: "time_ops \<Rightarrow> ('b, 'e) i2c_bus \<Rightarrow> ('b, 'e) dd_ops \<Rightarrow> 'w power_env \<Rightarrow>
    (nat \<Rightarrow> instant) \<Rightarrow> monitor_vars \<Rightarrow> (('b, 'w) power_ext, unit, monitor_vars) act" where
  "monitor_idle tm i2c dd env now v =
     (let activate = (case backoff_until v of Some until \<Rightarrow> until < now 0 | None \<Rightarrow> True) in
      if activate then
        seqA (on_inner (modifyA (\<lambda>i. i\<lparr>pi_state := Enabling\<rparr>))) (
        seqA (on_inner (on_ll (tps_modify i2c dd Tps_mode (mode_on dd)))) (
        seqA (on_peers (env_set_pin env True))
             (ret (v\<lparr>enabled := True, backoff_until := None,
                     stabilized_at := Some (now 1 + from_millis tm STABILIZATION_MILLIS)\<rparr>))))
      else ret v)"

definition monitor_enabled :: "time_ops \<Rightarrow> 'w power_env \<Rightarrow> (nat \<Rightarrow> instant) \<Rightarrow> monitor_vars \<Rightarrow>
    (('b, 'w) power_ext, unit, monitor_vars) act" where
  "monitor_enabled tm env now v =
     (case stabilized_at v of
        None \<Rightarrow> ret v
      | Some at \<Rightarrow>
          if at < now 0 then
            seqA (on_inner (modifyA (\<lambda>i. i\<lparr>pi_state := Enabled\<rparr>)))
              (case ocp_since v of
                 None \<Rightarrow> ret (v\<lparr>stabilized_at := None\<rparr>)
               | Some since \<Rightarrow>
                   bindA (unwrapO (elapsed_at (now 1) since)) (\<lambda>d.
                   seqA (on_peers (env_log env (now 2) (of_nat (as_secs tm d))))
                        (ret (v\<lparr>stabilized_at := None, ocp_since := None\<rparr>))))
          else ret v)"

definition monitor_deadline :: "time_ops \<Rightarrow> instant \<Rightarrow> monitor_vars \<Rightarrow> instant option" where
  "monitor_deadline tm now v =
     earliest_deadline [Some (now + from_secs tm WATCHDOG_DEADLINE_SECS), backoff_until v, stabilized_at v] None"

text \<open>One turn of the loop, up to the instant at which the task is woken if the pin is not.\<close>

definition monitor_turn :: "time_ops \<Rightarrow> ('b, 'e) i2c_bus \<Rightarrow> ('b, 'e) dd_ops \<Rightarrow> 'w power_env \<Rightarrow>
    (nat \<Rightarrow> instant) \<Rightarrow> monitor_vars \<Rightarrow> (('b, 'w) power_ext, unit, monitor_vars \<times> instant) act" where
  "monitor_turn tm i2c dd env now v =
     bindA (on_inner (on_ll (tps_read i2c dd Tps_status))) (\<lambda>status.
     bindA (readA px_ticket) (\<lambda>ticket.
     seqA (on_peers (env_feed env ticket)) (
     bindA (if tps_flag dd Status_ocp status \<or> tps_flag dd Status_scp status
              then monitor_ocp i2c dd env now v
            else if \<not> enabled v then monitor_idle tm i2c dd env now v
            else monitor_enabled tm env now v) (\<lambda>v'.
     bindA (unwrapO (monitor_deadline tm (now 3) v')) (\<lambda>deadline.
       ret (v', deadline))))))"

section \<open>The deadline\<close>

lemma earliest_deadline_Some:
  "earliest_deadline ds res = Some d \<Longrightarrow> (Some d \<in> set ds \<or> res = Some d)
    \<and> (\<forall>t. Some t \<in> set ds \<longrightarrow> d \<le> t) \<and> (\<forall>r. res = Some r \<longrightarrow> d \<le> r)"
proof (induction ds res rule: earliest_deadline.induct)
  case (3 t ds res)
  from 3(2) have "earliest_deadline ds (case res of Some r \<Rightarrow> Some (if r > t then t else r) | None \<Rightarrow> Some t) = Some d"
    by simp
  from 3(1) [OF this] show ?case by (cases res) (auto split: if_splits)
qed auto

lemma earliest_deadline_None:
  "earliest_deadline ds res = None \<longleftrightarrow> res = None \<and> (\<forall>t. Some t \<notin> set ds)"
  by (induction ds res rule: earliest_deadline.induct) (auto split: option.splits)

lemma monitor_deadline_Some:
  "\<exists>d. monitor_deadline tm now v = Some d \<and> d \<le> now + from_secs tm WATCHDOG_DEADLINE_SECS
    \<and> (\<forall>t. backoff_until v = Some t \<longrightarrow> d \<le> t) \<and> (\<forall>t. stabilized_at v = Some t \<longrightarrow> d \<le> t)
    \<and> (d = now + from_secs tm WATCHDOG_DEADLINE_SECS \<or> backoff_until v = Some d \<or> stabilized_at v = Some d)"
  by (cases "backoff_until v"; cases "stabilized_at v") (auto simp: monitor_deadline_def)

section \<open>The regulator\<close>

text \<open>
  The regulator behind the bus: \<open>regs\<close> are its registers, and the status register is read with
  whatever the regulator reports at that time.
\<close>

locale tps_chip = i2c_device i2c
  for i2c :: "('b, 'e) i2c_bus" +
  fixes regs :: "'b \<Rightarrow> u8 \<Rightarrow> u8"
  assumes write_byte: "i2c_write i2c TPS_ADDRESS [a, x] b = (r, b') \<Longrightarrow>
      r = Inr () \<and> regs b' = (regs b)(a := x)"
    and write_pair: "i2c_write i2c TPS_ADDRESS [a, x, y] b = (r, b') \<Longrightarrow>
      r = Inr () \<and> regs b' = (regs b)(a := x, a + 1 := y)"
    and read_byte: "i2c_write_read i2c TPS_ADDRESS [a] 1 b = (q, b') \<Longrightarrow>
      regs b' = regs b \<and> (\<exists>x. q = Inr [x] \<and> (a \<noteq> tps_address Tps_status \<longrightarrow> x = regs b a))"

locale tps_regulator = device_driver dd + tps_chip i2c regs
  for dd :: "('b, 'e) dd_ops" and i2c :: "('b, 'e) i2c_bus" and regs
begin

lemma flag_byte:
  assumes "tps_layout f = (r, k, hi)" "hi = Suc k" "k < 8"
  shows "tps_set_flag dd f x [b] = [if x then set_bit k b else unset_bit k b]"
    and "tps_flag dd f [b] \<longleftrightarrow> bit b k"
  using assms field_store_flag [of k x b] by (simp_all add: tps_set_def store_eq tps_get_def load_eq field_load_flag)

lemma modify_byte:
  assumes "tps_size_bits r = 8" "r \<noteq> Tps_status" "\<And>bs. length (f bs) = length bs"
  shows "\<exists>b'. tps_modify i2c dd r f b = (Ok (), b')
    \<and> regs b' = (regs b)(tps_address r := hd (f [regs b (tps_address r)]))"
proof -
  let ?a = "tps_address r"
  have a: "?a \<noteq> tps_address Tps_status" using assms(2) tps_address_inj by blast
  obtain q b1 where ask: "i2c_write_read i2c TPS_ADDRESS [?a] 1 b = (q, b1)" by fastforce
  from read_byte [OF ask] a have q: "q = Inr [regs b ?a]" and b1: "regs b1 = regs b" by auto
  have "length (f [regs b ?a]) = Suc 0" by (simp add: assms(3))
  then obtain x where x: "f [regs b ?a] = [x]" unfolding length_Suc_conv by auto
  obtain u b2 where send: "i2c_write i2c TPS_ADDRESS [?a, x] b1 = (u, b2)" by fastforce
  from write_byte [OF send] have "u = Inr ()" "regs b2 = (regs b1)(?a := x)" by simp_all
  with ask q send x b1 assms(1) show ?thesis
    by (simp add: tps_modify_wire [OF device_driver_axioms i2c_device_axioms assms(3)] bindA_def liftR_def)
qed

lemma read_status:
  "\<exists>x b'. tps_read i2c dd Tps_status b = (Ok [x], b') \<and> regs b' = regs b"
proof -
  obtain q b1 where ask: "i2c_write_read i2c TPS_ADDRESS [tps_address Tps_status] 1 b = (q, b1)" by fastforce
  from read_byte [OF ask] ask show ?thesis by (auto simp: tps_read_wire liftR_def)
qed

lemma dischg_byte: "tps_set_flag dd Mode_dischg x [b] = [if x then set_bit 4 b else unset_bit 4 b]"
  by (rule flag_byte(1) [of Mode_dischg Tps_mode 4 5]) simp_all

lemma oe_byte: "tps_set_flag dd Mode_oe x [b] = [if x then set_bit 7 b else unset_bit 7 b]"
  by (rule flag_byte(1) [of Mode_oe Tps_mode 7 8]) simp_all

lemma mode_off_byte: "mode_off dd [x] = [unset_bit 7 (set_bit 4 x)]"
  by (simp only: mode_off_def comp_apply dischg_byte oe_byte if_True if_False)

lemma mode_on_byte: "mode_on dd [x] = [set_bit 7 (unset_bit 4 x)]"
  by (simp only: mode_on_def comp_apply dischg_byte oe_byte if_True if_False)

lemma mode_modify:
  "\<exists>b'. tps_modify i2c dd Tps_mode (mode_off dd) b = (Ok (), b')
    \<and> regs b' = (regs b)(6 := unset_bit 7 (set_bit 4 (regs b 6)))"
  "\<exists>b'. tps_modify i2c dd Tps_mode (mode_on dd) b = (Ok (), b')
    \<and> regs b' = (regs b)(6 := set_bit 7 (unset_bit 4 (regs b 6)))"
proof -
  have len: "length (mode_off dd bs) = length bs" "length (mode_on dd bs) = length bs" for bs
    by (simp_all add: mode_off_def mode_on_def)
  show "\<exists>b'. tps_modify i2c dd Tps_mode (mode_off dd) b = (Ok (), b')
      \<and> regs b' = (regs b)(6 := unset_bit 7 (set_bit 4 (regs b 6)))"
    using modify_byte [of Tps_mode "mode_off dd" b, OF _ _ len(1)]
    unfolding mode_off_byte tps_address.simps list.sel by simp
  show "\<exists>b'. tps_modify i2c dd Tps_mode (mode_on dd) b = (Ok (), b')
      \<and> regs b' = (regs b)(6 := set_bit 7 (unset_bit 4 (regs b 6)))"
    using modify_byte [of Tps_mode "mode_on dd" b, OF _ _ len(2)]
    unfolding mode_on_byte tps_address.simps list.sel by simp
qed

end

section \<open>The other systems\<close>

text \<open>
  What the monitor relies on: the calls that return have their effect on the pin and on the
  number of logged overcurrents, and no other; \<open>ready\<close> is a condition, kept by all of them,
  under which they return.
\<close>

locale power_peers =
  fixes env :: "'w power_env" and pin :: "'w \<Rightarrow> bool" and logs :: "'w \<Rightarrow> u64"
    and ready :: "nat \<Rightarrow> 'w \<Rightarrow> bool"
  assumes feed_effect: "env_feed env k w = (Ok (), w') \<Longrightarrow> pin w' = pin w \<and> logs w' = logs w"
    and set_pin_effect: "env_set_pin env x w = (Ok (), w') \<Longrightarrow> pin w' = x \<and> logs w' = logs w"
    and log_effect: "env_log env t d w = (Ok (), w') \<Longrightarrow> pin w' = pin w \<and> logs w' = logs w + 1"
    and feed_returns: "ready k w \<Longrightarrow> \<exists>w'. env_feed env k w = (Ok (), w') \<and> ready k w'"
    and set_pin_returns: "ready k w \<Longrightarrow> \<exists>w'. env_set_pin env x w = (Ok (), w') \<and> ready k w'"
    and log_returns: "ready k w \<Longrightarrow> \<exists>w'. env_log env t d w = (Ok (), w') \<and> ready k w'"

section \<open>An abstract monitor\<close>

text \<open>What can be seen of the output: the state it reports, the output-enable and the discharge bit of
  the regulator, the pin, the number of logs.\<close>

record power_view =
  v_state :: power_state
  v_oe :: bool
  v_dischg :: bool
  v_pin :: bool
  v_logs :: u64

definition power_abs :: "('b \<Rightarrow> u8 \<Rightarrow> u8) \<Rightarrow> ('w \<Rightarrow> bool) \<Rightarrow> ('w \<Rightarrow> u64) \<Rightarrow> ('b, 'w) power_ext \<Rightarrow> power_view" where
  "power_abs regs pin logs s =
     \<lparr>v_state = pi_state (px_inner s), v_oe = bit (regs (pi_bus (px_inner s)) 6) 7,
      v_dischg = bit (regs (pi_bus (px_inner s)) 6) 4, v_pin = pin (px_peers s), v_logs = logs (px_peers s)\<rparr>"

text \<open>
  A turn as a function of what the regulator reports: after a fault the output is off for the
  back-off; then it is on, and called stable when there was no fault for the time of
  stabilization, which is when the fault is logged.
\<close>

definition spec_turn :: "time_ops \<Rightarrow> bool \<Rightarrow> duration \<Rightarrow> (nat \<Rightarrow> instant) \<Rightarrow>
    monitor_vars \<times> power_view \<Rightarrow> monitor_vars \<times> power_view" where
  "spec_turn tm fault backoff now = (\<lambda>(v, o').
     if fault then
       (v\<lparr>enabled := False, backoff_until := Some (now 0 + backoff), stabilized_at := None,
          ocp_since := Some (case ocp_since v of Some t \<Rightarrow> t | None \<Rightarrow> now 1)\<rparr>,
        o'\<lparr>v_state := Ocp, v_oe := False, v_dischg := True, v_pin := False\<rparr>)
     else if \<not> enabled v then
       (if \<forall>u. backoff_until v = Some u \<longrightarrow> u < now 0 then
          (v\<lparr>enabled := True, backoff_until := None,
             stabilized_at := Some (now 1 + from_millis tm STABILIZATION_MILLIS)\<rparr>,
           o'\<lparr>v_state := Enabling, v_oe := True, v_dischg := False, v_pin := True\<rparr>)
        else (v, o'))
     else (case stabilized_at v of
         Some at \<Rightarrow> if at < now 0
           then (v\<lparr>stabilized_at := None, ocp_since := None\<rparr>,
                 o'\<lparr>v_state := Enabled, v_logs := v_logs o' + (if ocp_since v = None then 0 else 1)\<rparr>)
           else (v, o')
       | None \<Rightarrow> (v, o')))"

text \<open>What the status register reports when the turn begins.\<close>

definition turn_fault :: "('b, 'e) i2c_bus \<Rightarrow> ('b, 'e) dd_ops \<Rightarrow> ('b, 'w) power_ext \<Rightarrow> bool" where
  "turn_fault i2c dd s =
     (case tps_read i2c dd Tps_status (pi_bus (px_inner s)) of
        (Ok status, _) \<Rightarrow> tps_flag dd Status_ocp status \<or> tps_flag dd Status_scp status
      | _ \<Rightarrow> False)"

locale power_monitor = tps_regulator dd i2c regs + power_peers env pin logs ready + embassy_time tm
  for dd :: "('b, 'e) dd_ops" and i2c :: "('b, 'e) i2c_bus" and regs
    and env :: "'w power_env" and pin logs ready and tm
begin

abbreviation turn :: "(nat \<Rightarrow> instant) \<Rightarrow> monitor_vars \<Rightarrow> (('b, 'w) power_ext, unit, monitor_vars \<times> instant) act" where
  "turn \<equiv> monitor_turn tm i2c dd env"

abbreviation view :: "('b, 'w) power_ext \<Rightarrow> power_view" where
  "view \<equiv> power_abs regs pin logs"

text \<open>The status is read and the watchdog is fed; both leave the output alone.\<close>

lemma turn_start:
  assumes "env_feed env (px_ticket s) (px_peers s) = (Ok (), w)"
  obtains b1 where "regs b1 = regs (pi_bus (px_inner s))"
    "turn now v s = bindA (if turn_fault i2c dd s then monitor_ocp i2c dd env now v
            else if \<not> enabled v then monitor_idle tm i2c dd env now v
            else monitor_enabled tm env now v) (\<lambda>v'.
          bindA (unwrapO (monitor_deadline tm (now 3) v')) (\<lambda>deadline. ret (v', deadline)))
        (s\<lparr>px_inner := (px_inner s)\<lparr>pi_bus := b1\<rparr>, px_peers := w\<rparr>)"
proof -
  obtain x b1 where read: "tps_read i2c dd Tps_status (pi_bus (px_inner s)) = (Ok [x], b1)"
    "regs b1 = regs (pi_bus (px_inner s))"
    using read_status by blast
  then have "turn_fault i2c dd s \<longleftrightarrow> tps_flag dd Status_ocp [x] \<or> tps_flag dd Status_scp [x]"
    by (simp add: turn_fault_def)
  with read assms show thesis
    by (intro that [of b1]) (simp_all add: monitor_turn_def bindA_def zoom_def unwrapA_def readA_def)
qed

lemma turn_feeds:
  assumes "turn now v s = (Ok r, s')"
  obtains w where "env_feed env (px_ticket s) (px_peers s) = (Ok (), w)"
proof -
  from assms obtain w where "env_feed env (px_ticket s) (px_peers s) = (Ok (), w)"
    unfolding monitor_turn_def by (auto simp: act_Ok_iff)
  then show thesis by (rule that)
qed

text \<open>The three branches.\<close>

lemma ocp_refines:
  assumes "monitor_ocp i2c dd env now v s = (Ok v', s')"
  shows "(v', view s') = spec_turn tm True (pi_backoff (px_inner s)) now (v, view s)"
    "px_ticket s' = px_ticket s" "pi_backoff (px_inner s') = pi_backoff (px_inner s)"
proof -
  obtain b' where off: "tps_modify i2c dd Tps_mode (mode_off dd) (pi_bus (px_inner s)) = (Ok (), b')"
    "regs b' = (regs (pi_bus (px_inner s)))(6 := unset_bit 7 (set_bit 4 (regs (pi_bus (px_inner s)) 6)))"
    using mode_modify(1) by blast
  from assms off(1) obtain w where pin: "env_set_pin env False (px_peers s) = (Ok (), w)"
    and s': "s' = s\<lparr>px_inner := (px_inner s)\<lparr>pi_state := Ocp, pi_bus := b'\<rparr>, px_peers := w\<rparr>"
    and v': "v' = v\<lparr>enabled := False, backoff_until := Some (now 0 + pi_backoff (px_inner s)),
        stabilized_at := None, ocp_since := (if ocp_since v = None then Some (now 1) else ocp_since v)\<rparr>"
    by (auto simp: monitor_ocp_def Let_def act_Ok_iff)
  show "(v', view s') = spec_turn tm True (pi_backoff (px_inner s)) now (v, view s)"
    using set_pin_effect [OF pin] off(2)
    by (auto simp: s' v' power_abs_def spec_turn_def bit_unset_bit_iff bit_set_bit_iff split: option.split)
  show "px_ticket s' = px_ticket s" "pi_backoff (px_inner s') = pi_backoff (px_inner s)"
    by (simp_all add: s')
qed

lemma idle_refines:
  assumes "monitor_idle tm i2c dd env now v s = (Ok v', s')" "\<not> enabled v"
  shows "(v', view s') = spec_turn tm False d now (v, view s)"
    "px_ticket s' = px_ticket s" "pi_backoff (px_inner s') = pi_backoff (px_inner s)"
proof -
  obtain b' where on: "tps_modify i2c dd Tps_mode (mode_on dd) (pi_bus (px_inner s)) = (Ok (), b')"
    "regs b' = (regs (pi_bus (px_inner s)))(6 := set_bit 7 (unset_bit 4 (regs (pi_bus (px_inner s)) 6)))"
    using mode_modify(2) by blast
  have activate: "(case backoff_until v of Some until \<Rightarrow> until < now 0 | None \<Rightarrow> True) \<longleftrightarrow>
      (\<forall>u. backoff_until v = Some u \<longrightarrow> u < now 0)"
    by (simp split: option.split)
  have "(v', view s') = spec_turn tm False d now (v, view s) \<and> px_ticket s' = px_ticket s
    \<and> pi_backoff (px_inner s') = pi_backoff (px_inner s)"
  proof (cases "\<forall>u. backoff_until v = Some u \<longrightarrow> u < now 0")
    case True
    with assms(1) on(1) obtain w where pin: "env_set_pin env True (px_peers s) = (Ok (), w)"
      and s': "s' = s\<lparr>px_inner := (px_inner s)\<lparr>pi_state := Enabling, pi_bus := b'\<rparr>, px_peers := w\<rparr>"
      and v': "v' = v\<lparr>enabled := True, backoff_until := None,
        stabilized_at := Some (now 1 + from_millis tm STABILIZATION_MILLIS)\<rparr>"
      unfolding monitor_idle_def Let_def activate by (auto simp: act_Ok_iff)
    show ?thesis using set_pin_effect [OF pin] on(2) True assms(2)
      by (simp add: s' v' power_abs_def spec_turn_def bit_unset_bit_iff bit_set_bit_iff)
  next
    case False
    with assms(1) have "s' = s" "v' = v" unfolding monitor_idle_def Let_def activate by auto
    with False assms(2) show ?thesis by (simp add: spec_turn_def if_not_P [OF False])
  qed
  then show "(v', view s') = spec_turn tm False d now (v, view s)"
    "px_ticket s' = px_ticket s" "pi_backoff (px_inner s') = pi_backoff (px_inner s)" by simp_all
qed

lemma enabled_refines:
  assumes "monitor_enabled tm env now v s = (Ok v', s')" "enabled v"
  shows "(v', view s') = spec_turn tm False d now (v, view s)"
    "px_ticket s' = px_ticket s" "pi_backoff (px_inner s') = pi_backoff (px_inner s)"
proof -
  have "(v', view s') = spec_turn tm False d now (v, view s) \<and> px_ticket s' = px_ticket s
    \<and> pi_backoff (px_inner s') = pi_backoff (px_inner s)"
  proof (cases "\<exists>at. stabilized_at v = Some at \<and> at < now 0")
    case True
    then obtain at where at: "stabilized_at v = Some at" "at < now 0" by blast
    show ?thesis
    proof (cases "ocp_since v")
      case None
      with assms at have "s' = s\<lparr>px_inner := (px_inner s)\<lparr>pi_state := Enabled\<rparr>\<rparr>" "v' = v\<lparr>stabilized_at := None\<rparr>"
        by (auto simp: monitor_enabled_def act_Ok_iff)
      with None at assms(2) show ?thesis by (simp add: power_abs_def spec_turn_def)
    next
      case (Some since)
      with assms at obtain w e where log: "env_log env (now 2) (of_nat (as_secs tm e)) (px_peers s) = (Ok (), w)"
        and s': "s' = s\<lparr>px_inner := (px_inner s)\<lparr>pi_state := Enabled\<rparr>, px_peers := w\<rparr>"
        and v': "v' = v\<lparr>stabilized_at := None, ocp_since := None\<rparr>"
        by (auto simp: monitor_enabled_def act_Ok_iff)
      from log_effect [OF log] Some at assms(2) show ?thesis
        by (simp add: s' v' power_abs_def spec_turn_def)
    qed
  next
    case False
    with assms have "s' = s" "v' = v" by (auto simp: monitor_enabled_def split: option.splits if_splits)
    with False assms(2) show ?thesis by (auto simp: spec_turn_def split: option.split)
  qed
  then show "(v', view s') = spec_turn tm False d now (v, view s)"
    "px_ticket s' = px_ticket s" "pi_backoff (px_inner s') = pi_backoff (px_inner s)" by simp_all
qed

lemma turn_refines:
  assumes "turn now v s = (Ok (v', d), s')"
  shows "(v', view s') = spec_turn tm (turn_fault i2c dd s) (pi_backoff (px_inner s)) now (v, view s)"
    and "monitor_deadline tm (now 3) v' = Some d"
    and "pi_backoff (px_inner s') = pi_backoff (px_inner s)" "px_ticket s' = px_ticket s"
proof -
  obtain w where feed: "env_feed env (px_ticket s) (px_peers s) = (Ok (), w)"
    by (rule turn_feeds [OF assms])
  obtain b1 where regs: "regs b1 = regs (pi_bus (px_inner s))"
    and turn: "turn now v s = bindA (if turn_fault i2c dd s then monitor_ocp i2c dd env now v
            else if \<not> enabled v then monitor_idle tm i2c dd env now v
            else monitor_enabled tm env now v) (\<lambda>v'.
          bindA (unwrapO (monitor_deadline tm (now 3) v')) (\<lambda>deadline. ret (v', deadline)))
        (s\<lparr>px_inner := (px_inner s)\<lparr>pi_bus := b1\<rparr>, px_peers := w\<rparr>)"
    by (rule turn_start [OF feed])
  let ?s = "s\<lparr>px_inner := (px_inner s)\<lparr>pi_bus := b1\<rparr>, px_peers := w\<rparr>"
  from assms have act: "(if turn_fault i2c dd s then monitor_ocp i2c dd env now v
            else if \<not> enabled v then monitor_idle tm i2c dd env now v
            else monitor_enabled tm env now v) ?s = (Ok v', s')"
    and d: "monitor_deadline tm (now 3) v' = Some d"
    unfolding turn by (auto simp: bindA_Ok_iff unwrapO_Ok_iff)
  have start: "view ?s = view s"
    using feed_effect [OF feed] by (simp add: power_abs_def regs)
  have "(v', view s') = spec_turn tm (turn_fault i2c dd s) (pi_backoff (px_inner s)) now (v, view s)
      \<and> pi_backoff (px_inner s') = pi_backoff (px_inner s) \<and> px_ticket s' = px_ticket s"
  proof (cases "turn_fault i2c dd s")
    case True
    with act have "monitor_ocp i2c dd env now v ?s = (Ok v', s')" by simp
    from ocp_refines [OF this] True start show ?thesis by simp
  next
    case fault: False
    show ?thesis
    proof (cases "enabled v")
      case True
      with act fault have "monitor_enabled tm env now v ?s = (Ok v', s')" by simp
      from enabled_refines [OF this True] fault start show ?thesis by simp
    next
      case False
      with act fault have "monitor_idle tm i2c dd env now v ?s = (Ok v', s')" by simp
      from idle_refines [OF this False] fault start show ?thesis by simp
    qed
  qed
  with d show "(v', view s') = spec_turn tm (turn_fault i2c dd s) (pi_backoff (px_inner s)) now (v, view s)"
    and "monitor_deadline tm (now 3) v' = Some d"
    and "pi_backoff (px_inner s') = pi_backoff (px_inner s)" "px_ticket s' = px_ticket s" by simp_all
qed

end

section \<open>Runs of the monitor\<close>

text \<open>
  The variables and the system between two turns, the time of the last turn, and for the
  statements the end of the last back-off that a fault began, the number of faults that began
  an episode, and the number of logs at the start.
\<close>

record ('b, 'w) monitor_run =
  mr_vars :: monitor_vars
  mr_sys :: "('b, 'w) power_ext"
  mr_time :: instant
  mr_trip :: "instant option"
  mr_episodes :: nat
  mr_logs0 :: u64

definition turn_run :: "('b, 'e) i2c_bus \<Rightarrow> ('b, 'e) dd_ops \<Rightarrow> (nat \<Rightarrow> instant) \<Rightarrow> monitor_vars \<Rightarrow>
    ('b, 'w) power_ext \<Rightarrow> ('b, 'w) monitor_run \<Rightarrow> ('b, 'w) monitor_run" where
  "turn_run i2c dd now v' s' r =
     r\<lparr>mr_vars := v', mr_sys := s', mr_time := now 3,
       mr_trip := (if turn_fault i2c dd (mr_sys r)
         then Some (now 0 + pi_backoff (px_inner (mr_sys r))) else mr_trip r),
       mr_episodes := mr_episodes r +
         (if turn_fault i2c dd (mr_sys r) \<and> ocp_since (mr_vars r) = None then 1 else 0)\<rparr>"

definition start_run :: "('w \<Rightarrow> u64) \<Rightarrow> ('b, 'w) power_ext \<Rightarrow> instant \<Rightarrow> ('b, 'w) monitor_run" where
  "start_run logs s t = \<lparr>mr_vars = monitor_start, mr_sys = s, mr_time = t, mr_trip = None,
     mr_episodes = 0, mr_logs0 = logs (px_peers s)\<rparr>"

text \<open>
  After \<open>init\<close>, turns of the monitor, new settings from \<open>config_task\<close> and whatever the other
  systems do that leaves the pin and the log alone, in any order.
\<close>

inductive monitor_reachable :: "profile \<Rightarrow> time_ops \<Rightarrow> ('b, 'e) i2c_bus \<Rightarrow> ('b, 'e) dd_ops \<Rightarrow>
    'w power_env \<Rightarrow> ('w \<Rightarrow> bool) \<Rightarrow> ('w \<Rightarrow> u64) \<Rightarrow> ('b, 'w) monitor_run \<Rightarrow> bool"
  for p tm i2c dd env pin logs where
  start: "power_init p tm i2c dd env s0 = (Ok (), s) \<Longrightarrow>
    monitor_reachable p tm i2c dd env pin logs (start_run logs s t)"
| turn: "monitor_reachable p tm i2c dd env pin logs r \<Longrightarrow> mono now \<Longrightarrow> mr_time r \<le> now 0 \<Longrightarrow>
    monitor_turn tm i2c dd env now (mr_vars r) (mr_sys r) = (Ok (v', d), s') \<Longrightarrow>
    monitor_reachable p tm i2c dd env pin logs (turn_run i2c dd now v' s' r)"
| persist: "monitor_reachable p tm i2c dd env pin logs r \<Longrightarrow>
    on_inner (power_persist p tm i2c dd settings) (mr_sys r) = (Ok (), s') \<Longrightarrow>
    monitor_reachable p tm i2c dd env pin logs (r\<lparr>mr_sys := s'\<rparr>)"
| others: "monitor_reachable p tm i2c dd env pin logs r \<Longrightarrow>
    pin w = pin (px_peers (mr_sys r)) \<Longrightarrow> logs w = logs (px_peers (mr_sys r)) \<Longrightarrow>
    monitor_reachable p tm i2c dd env pin logs (r\<lparr>mr_sys := (mr_sys r)\<lparr>px_peers := w\<rparr>\<rparr>)"

text \<open>The invariant, on the variables, the view and the three records of the run.\<close>

definition output_inv :: "monitor_vars \<Rightarrow> power_view \<Rightarrow> bool" where
  "output_inv v o' \<longleftrightarrow> v_oe o' = enabled v \<and> v_dischg o' = (\<not> enabled v)
     \<and> enabled v = (v_state o' \<in> {Enabling, Enabled})
     \<and> (stabilized_at v \<noteq> None) = (v_state o' = Enabling)
     \<and> (v_state o' \<noteq> Disabled \<longrightarrow> v_pin o' = enabled v)
     \<and> (v_state o' = Ocp \<longrightarrow> ocp_since v \<noteq> None)
     \<and> (v_state o' \<in> {Disabled, Enabled} \<longrightarrow> ocp_since v = None)"

definition history_inv :: "monitor_vars \<Rightarrow> power_view \<Rightarrow> instant \<Rightarrow> instant option \<Rightarrow> nat \<Rightarrow> u64 \<Rightarrow> bool" where
  "history_inv v o' time trip episodes logs0 \<longleftrightarrow>
     backoff_until v = (if enabled v then None else trip)
     \<and> (\<forall>t. ocp_since v = Some t \<longrightarrow> t \<le> time)
     \<and> v_logs o' + (if ocp_since v = None then 0 else 1) = logs0 + of_nat episodes"

lemma spec_turn_inv:
  assumes "output_inv v o'" "(v', o'') = spec_turn tm fault backoff now (v, o')"
  shows "output_inv v' o''"
  using assms
  by (cases "v_state o'"; cases "stabilized_at v")
    (auto simp: output_inv_def spec_turn_def split: if_splits option.splits)

lemma spec_turn_history:
  assumes "history_inv v o' time trip episodes logs0" "output_inv v o'" "mono now" "time \<le> now 0"
    and "(v', o'') = spec_turn tm fault backoff now (v, o')"
  shows "history_inv v' o'' (now 3) (if fault then Some (now 0 + backoff) else trip)
    (episodes + (if fault \<and> ocp_since v = None then 1 else 0)) logs0"
proof -
  have le: "now 0 \<le> now 3" "now 1 \<le> now 3" using assms(3) by (simp_all add: monoD)
  show ?thesis
  proof (cases fault)
    case True
    with assms le show ?thesis
      by (cases "ocp_since v") (auto simp: history_inv_def spec_turn_def algebra_simps)
  next
    case False
    with assms le show ?thesis
      by (cases "stabilized_at v"; cases "ocp_since v")
        (auto simp: history_inv_def output_inv_def spec_turn_def split: if_splits)
  qed
qed

section \<open>New settings in the regulator\<close>

lemma limit_value:
  "\<exists>l. power_limit_value p s = Some l \<and> unat l = unat (ma_of (iout_ma s)) div 25 mod 256"
proof -
  let ?i = "ucast (ma_of (iout_ma s)) :: u32"
  have "unat ?i * unat CURRENT_SENSE_MILLIOHM < 2 ^ LENGTH(32)"
    using unat_u16_bound [of "ma_of (iout_ma s)"] by (simp add: CURRENT_SENSE_MILLIOHM_def)
  note mul = rust_mul_exact [OF this]
  have "unat (?i * CURRENT_SENSE_MILLIOHM div 500) = unat (ma_of (iout_ma s)) * 20 div 500"
    using mul(2) by (simp add: unat_div CURRENT_SENSE_MILLIOHM_def)
  also have "\<dots> = unat (ma_of (iout_ma s)) div 25" by simp
  finally have "unat (ucast (?i * CURRENT_SENSE_MILLIOHM div 500) :: u8) = unat (ma_of (iout_ma s)) div 25 mod 256"
    by (simp add: unsigned_ucast_eq take_bit_eq_mod)
  with mul(1) show ?thesis by (simp add: power_limit_value_def rust_div_def)
qed

context tps_regulator
begin

lemma write_vref:
  "\<exists>b' x y. tps_write i2c dd Tps_vref (tps_set dd Vref_vref (ucast c)) b = (Ok (), b')
    \<and> regs b' = (regs b)(0 := x, 1 := y) \<and> le_word [x, y] = take_bit 11 (c :: u16)"
proof -
  let ?bs = "tps_set dd Vref_vref (ucast c) (replicate 2 0)"
  have "length ?bs = Suc (Suc 0)" by simp
  then obtain x y where bs: "?bs = [x, y]" unfolding length_Suc_conv by auto
  have bits: "reg_bit [x, y] i \<longleftrightarrow> i < 11 \<and> bit c i" if "i < 16" for i
  proof -
    have "reg_bit ?bs i = (if i < 11 then bit (ucast c :: u32) i else reg_bit (replicate 2 0) i)"
      using that store_bit [of 0 11 "replicate 2 0" i "ucast c"] by (simp add: tps_set_def)
    moreover have "\<not> reg_bit (replicate 2 0) i" using that by (simp add: reg_bit_def less_mult_imp_div_less)
    ultimately show ?thesis using that by (auto simp: bs bit_ucast_iff)
  qed
  have word: "le_word [x, y] = take_bit 11 c"
    by (rule bit_word_eqI) (auto simp: le_word_def bit_horner_sum_bit_word_iff bits bit_take_bit_iff)
  obtain u b' where send: "i2c_write i2c TPS_ADDRESS [0, x, y] b = (u, b')" by fastforce
  from write_pair [OF send] have "u = Inr ()" "regs b' = (regs b)(0 := x, 1 := y)" by simp_all
  with send bs have "tps_write i2c dd Tps_vref (tps_set dd Vref_vref (ucast c)) b = (Ok (), b')"
    "regs b' = (regs b)(0 := x, 1 := y)"
    by (simp_all add: tps_write_wire liftR_def)
  with word show ?thesis by blast
qed

lemma modify_limit:
  "\<exists>b' z. tps_modify i2c dd Tps_iout_limit (tps_set dd Iout_limit_setting (ucast l)) b = (Ok (), b')
    \<and> regs b' = (regs b)(2 := z) \<and> take_bit 7 z = take_bit 7 (l :: u8) \<and> bit z 7 = bit (regs b 2) 7"
proof -
  let ?bs = "tps_set dd Iout_limit_setting (ucast l) [regs b 2]"
  have "length ?bs = Suc 0" by simp
  then obtain z where bs: "?bs = [z]" unfolding length_Suc_conv by auto
  have bits: "bit z i \<longleftrightarrow> (if i < 7 then bit l i else bit (regs b 2) i)" if "i < 8" for i
  proof -
    have "reg_bit ?bs i = (if i < 7 then bit (ucast l :: u32) i else reg_bit [regs b 2] i)"
      using that store_bit [of 0 7 "[regs b 2]" i "ucast l"] by (simp add: tps_set_def)
    then show ?thesis using that by (auto simp: bs reg_bit_def bit_ucast_iff split: if_splits)
  qed
  have "take_bit 7 z = take_bit 7 l"
    by (rule bit_word_eqI) (auto simp: bit_take_bit_iff bits)
  moreover have "bit z 7 = bit (regs b 2) 7" by (simp add: bits)
  moreover have "\<exists>b'. tps_modify i2c dd Tps_iout_limit (tps_set dd Iout_limit_setting (ucast l)) b = (Ok (), b')
      \<and> regs b' = (regs b)(2 := z)"
    using modify_byte [of Tps_iout_limit "tps_set dd Iout_limit_setting (ucast l)" b, OF _ _ tps_set_length] bs
    by simp
  ultimately show ?thesis by blast
qed

lemma persist_run:
  assumes "vref_from_feedback p (vout_mv settings) FEEDBACK = Some v"
  shows "\<exists>b x y z. power_persist p tm i2c dd settings i =
      (Ok (), i\<lparr>pi_backoff := from_millis tm (unat (backoff_ms settings)), pi_bus := b\<rparr>)
    \<and> regs b = (regs (pi_bus i))(0 := x, 1 := y, 2 := z) \<and> le_word [x, y] = take_bit 11 (vref_code v)
    \<and> unat (take_bit 7 z) = unat (ma_of (iout_ma settings)) div 25 mod 128
    \<and> bit z 7 = bit (regs (pi_bus i) 2) 7"
proof -
  obtain l where l: "power_limit_value p settings = Some l" "unat l = unat (ma_of (iout_ma settings)) div 25 mod 256"
    using limit_value by blast
  obtain b1 x y where b1: "tps_write i2c dd Tps_vref (tps_set dd Vref_vref (ucast (vref_code v))) (pi_bus i) = (Ok (), b1)"
    "regs b1 = (regs (pi_bus i))(0 := x, 1 := y)" "le_word [x, y] = take_bit 11 (vref_code v)"
    using write_vref by blast
  obtain b2 z where b2: "tps_modify i2c dd Tps_iout_limit (tps_set dd Iout_limit_setting (ucast l)) b1 = (Ok (), b2)"
    "regs b2 = (regs b1)(2 := z)" "take_bit 7 z = take_bit 7 l" "bit z 7 = bit (regs b1 2) 7"
    using modify_limit by blast
  have "unat (take_bit 7 z) = unat l mod 128" unfolding b2(3) unsigned_take_bit_eq by (simp only: take_bit_eq_mod) simp
  also have "\<dots> = unat (ma_of (iout_ma settings)) div 25 mod 128" by (simp add: l(2) mod_mod_cancel)
  finally have z: "unat (take_bit 7 z) = unat (ma_of (iout_ma settings)) div 25 mod 128" .
  have "power_persist p tm i2c dd settings i =
      (Ok (), i\<lparr>pi_backoff := from_millis tm (unat (backoff_ms settings)), pi_bus := b2\<rparr>)"
    using b1(1) b2(1) by (simp add: power_persist_def assms l(1) bindA_def modifyA_def zoom_def unwrapA_def ret_def)
  moreover have "regs b2 = (regs (pi_bus i))(0 := x, 1 := y, 2 := z)" "bit z 7 = bit (regs (pi_bus i) 2) 7"
    using b1(2) b2(2,4) by simp_all
  ultimately show ?thesis using b1(3) z by blast
qed

lemma persist_panics:
  assumes "vref_from_feedback p (vout_mv settings) FEEDBACK = None"
  shows "power_persist p tm i2c dd settings i = (Panic, i)"
  by (simp add: power_persist_def assms panic_apply)

text \<open>New settings leave the mode of the regulator and the state of the system alone.\<close>

lemma persist_Ok:
  assumes "power_persist p tm i2c dd settings i = (Ok (), i')"
  shows "pi_state i' = pi_state i" "regs (pi_bus i') 6 = regs (pi_bus i) 6"
proof -
  from assms persist_panics [of p settings tm i]
  obtain v where "vref_from_feedback p (vout_mv settings) FEEDBACK = Some v" by fastforce
  from persist_run [OF this, of tm i] assms show "pi_state i' = pi_state i" "regs (pi_bus i') 6 = regs (pi_bus i) 6"
    by auto
qed

end

context power_monitor
begin

lemma init_view:
  assumes "power_init p tm i2c dd env s0 = (Ok (), s)"
  shows "v_state (view s) = Disabled" "\<not> v_oe (view s)" "v_dischg (view s)" "px_enable_pin s"
proof -
  from assms obtain b1 b2 settings i where
    mode: "tps_modify i2c dd Tps_mode (mode_off dd) (pi_bus (px_inner s0)) = (Ok (), b1)"
    and fs: "tps_modify i2c dd Tps_vout_fs (tps_set dd Vout_fs_intfb (ucast (int_fb_code FEEDBACK))) b1 = (Ok (), b2)"
    and persist: "power_persist p tm i2c dd settings ((px_inner s0)\<lparr>pi_bus := b2, pi_backoff := 0, pi_state := Disabled\<rparr>) = (Ok (), i)"
    and s: "px_inner s = i" "px_enable_pin s"
    by (auto simp: power_init_def act_Ok_iff)
  from mode_modify(1) [of "pi_bus (px_inner s0)"] mode
  have b1: "regs b1 6 = unset_bit 7 (set_bit 4 (regs (pi_bus (px_inner s0)) 6))" by auto
  from modify_byte [of Tps_vout_fs "tps_set dd Vout_fs_intfb (ucast (int_fb_code FEEDBACK))" b1, OF _ _ tps_set_length] fs
  have b2: "regs b2 6 = regs b1 6" by auto
  from persist_Ok [OF persist] b1 b2
  show "v_state (view s) = Disabled" "\<not> v_oe (view s)" "v_dischg (view s)" "px_enable_pin s"
    by (simp_all add: s power_abs_def bit_unset_bit_iff bit_set_bit_iff)
qed

lemma reachable_inv:
  assumes "monitor_reachable p tm i2c dd env pin logs r"
  shows "output_inv (mr_vars r) (view (mr_sys r))
    \<and> history_inv (mr_vars r) (view (mr_sys r)) (mr_time r) (mr_trip r) (mr_episodes r) (mr_logs0 r)"
  using assms
proof induction
  case (start s0 s t)
  from init_view [OF start.hyps] show ?case
    by (simp add: start_run_def output_inv_def history_inv_def monitor_start_def)
      (simp add: power_abs_def)
next
  case (turn r now v' d s')
  note ref = turn_refines [OF turn.hyps(4)]
  from turn.IH have out: "output_inv (mr_vars r) (view (mr_sys r))"
    and hist: "history_inv (mr_vars r) (view (mr_sys r)) (mr_time r) (mr_trip r) (mr_episodes r) (mr_logs0 r)"
    by simp_all
  from spec_turn_inv [OF out ref(1)] spec_turn_history [OF hist out turn.hyps(2,3) ref(1)]
  show ?case by (simp add: turn_run_def)
next
  case (persist r settings s')
  then obtain i where i: "power_persist p tm i2c dd settings (px_inner (mr_sys r)) = (Ok (), i)"
    and s': "s' = (mr_sys r)\<lparr>px_inner := i\<rparr>" by (auto simp: zoom_Ok_iff)
  have "view s' = view (mr_sys r)"
    using persist_Ok [OF i] by (simp add: power_abs_def s')
  with persist.IH show ?case by simp
next
  case (others r w)
  then have "view ((mr_sys r)\<lparr>px_peers := w\<rparr>) = view (mr_sys r)" by (simp add: power_abs_def)
  with others.IH show ?case by simp
qed

text \<open>A turn on systems that are ready never panics.\<close>

lemma turn_returns:
  assumes "output_inv v (view s)" "\<forall>t. ocp_since v = Some t \<longrightarrow> t \<le> now 0" "mono now"
    "ready (px_ticket s) (px_peers s)"
  shows "\<exists>v' d s'. turn now v s = (Ok (v', d), s') \<and> ready (px_ticket s') (px_peers s')"
proof -
  obtain w where feed: "env_feed env (px_ticket s) (px_peers s) = (Ok (), w)" and w: "ready (px_ticket s) w"
    using feed_returns [OF assms(4)] by blast
  obtain b1 where turn: "turn now v s = bindA (if turn_fault i2c dd s then monitor_ocp i2c dd env now v
            else if \<not> enabled v then monitor_idle tm i2c dd env now v
            else monitor_enabled tm env now v) (\<lambda>v'.
          bindA (unwrapO (monitor_deadline tm (now 3) v')) (\<lambda>deadline. ret (v', deadline)))
        (s\<lparr>px_inner := (px_inner s)\<lparr>pi_bus := b1\<rparr>, px_peers := w\<rparr>)"
    by (rule turn_start [OF feed])
  let ?s = "s\<lparr>px_inner := (px_inner s)\<lparr>pi_bus := b1\<rparr>, px_peers := w\<rparr>"
  obtain b2 b3 where modes: "tps_modify i2c dd Tps_mode (mode_off dd) b1 = (Ok (), b2)"
    "tps_modify i2c dd Tps_mode (mode_on dd) b1 = (Ok (), b3)"
    using mode_modify by meson
  obtain w2 w3 where pins: "env_set_pin env False w = (Ok (), w2)" "ready (px_ticket s) w2"
    "env_set_pin env True w = (Ok (), w3)" "ready (px_ticket s) w3"
    using set_pin_returns [OF w] by meson
  have ocp: "\<exists>v' s'. monitor_ocp i2c dd env now v ?s = (Ok v', s') \<and> ready (px_ticket s') (px_peers s')"
    using modes(1) pins(1,2)
    by (simp add: monitor_ocp_def Let_def bindA_def modifyA_def zoom_def unwrapA_def readA_def ret_def)
  have idle: "\<exists>v' s'. monitor_idle tm i2c dd env now v ?s = (Ok v', s') \<and> ready (px_ticket s') (px_peers s')"
    using modes(2) pins(3,4) w
    by (simp add: monitor_idle_def Let_def bindA_def modifyA_def zoom_def unwrapA_def readA_def ret_def)
  have on: "\<exists>v' s'. monitor_enabled tm env now v ?s = (Ok v', s') \<and> ready (px_ticket s') (px_peers s')"
  proof (cases "ocp_since v")
    case None
    with w show ?thesis
      by (simp add: monitor_enabled_def bindA_def modifyA_def zoom_def ret_def split: option.split)
  next
    case (Some since)
    with assms(2,3) have "since \<le> now 1" using monoD [OF assms(3), of 0 1] by force
    then have d: "elapsed_at (now 1) since = Some (now 1 - since)" by (simp add: elapsed_at_def)
    obtain w4 where "env_log env (now 2) (of_nat (as_secs tm (now 1 - since))) w = (Ok (), w4)" "ready (px_ticket s) w4"
      using log_returns [OF w] by blast
    with Some d w show ?thesis
      by (simp add: monitor_enabled_def bindA_def modifyA_def zoom_def ret_def split: option.split)
  qed
  from ocp idle on obtain v' s' where act: "(if turn_fault i2c dd s then monitor_ocp i2c dd env now v
            else if \<not> enabled v then monitor_idle tm i2c dd env now v
            else monitor_enabled tm env now v) ?s = (Ok v', s')" "ready (px_ticket s') (px_peers s')"
    by (cases "turn_fault i2c dd s"; cases "enabled v") auto
  obtain d where "monitor_deadline tm (now 3) v' = Some d" using monitor_deadline_Some by blast
  with act show ?thesis by (auto simp: turn bindA_def ret_def)
qed

lemma run_turn:
  assumes "monitor_reachable p tm i2c dd env pin logs r" "mono now" "mr_time r \<le> now 0"
    "ready (px_ticket (mr_sys r)) (px_peers (mr_sys r))"
  obtains v' d s' where "turn now (mr_vars r) (mr_sys r) = (Ok (v', d), s')"
    "monitor_reachable p tm i2c dd env pin logs (turn_run i2c dd now v' s' r)"
    "ready (px_ticket s') (px_peers s')" "pi_backoff (px_inner s') = pi_backoff (px_inner (mr_sys r))"
    "(v', view s') = spec_turn tm (turn_fault i2c dd (mr_sys r)) (pi_backoff (px_inner (mr_sys r))) now
      (mr_vars r, view (mr_sys r))"
proof -
  have "output_inv (mr_vars r) (view (mr_sys r))" "\<forall>t. ocp_since (mr_vars r) = Some t \<longrightarrow> t \<le> now 0"
    using reachable_inv [OF assms(1)] assms(3) by (auto simp: history_inv_def)
  from turn_returns [OF this assms(2,4)] obtain v' d s' where
    t: "turn now (mr_vars r) (mr_sys r) = (Ok (v', d), s')" "ready (px_ticket s') (px_peers s')" by blast
  from that [OF t(1) monitor_reachable.turn [OF assms(1-3) t(1)] t(2) turn_refines(3,1) [OF t(1)]]
  show thesis .
qed

end

section \<open>The models of the other systems provide the interface\<close>

text \<open>
  Neither the log nor the reading of the settings touches the flash; a timer leaves the systems as they
  are.
\<close>

record ('u, 'm, 'f, 'c, 'q, 'g) peers_world =
  pw_usb :: 'u
  pw_watchdog :: "'m wd_inner"
  pw_record :: "('f, 'c, 'q) record_sys"
  pw_config :: "('f, 'g) config"

definition power_env_of :: "time_ops \<Rightarrow> 'm bitarray_ops \<Rightarrow> ('u, 'e) i2c_bus \<Rightarrow> ('u, 'e) dd_ops \<Rightarrow>
    ('c, unit) channel_ops \<Rightarrow> ('q, record_data) pubsub_ops \<Rightarrow> profile \<Rightarrow>
    ('u, 'm, 'f, 'c, 'q, 'g) peers_world power_env" where
  "power_env_of tm ba i2c dd ch ps p =
     \<lparr>env_ticket = zoom pw_watchdog (\<lambda>x w. w\<lparr>pw_watchdog := x\<rparr>) (wd_ticket ba),
      env_feed = (\<lambda>k. zoom pw_watchdog (\<lambda>x w. w\<lparr>pw_watchdog := x\<rparr>) (wd_ticket_feed ba k)),
      env_set_pin = (\<lambda>x. zoom pw_usb (\<lambda>u w. w\<lparr>pw_usb := u\<rparr>) (usbpd_set_pin i2c dd x)),
      env_log = (\<lambda>now d. zoom pw_record (\<lambda>x w. w\<lparr>pw_record := x\<rparr>) (record_log_overcurrent p tm ch ps now d)),
      env_fetch = zoom pw_config (\<lambda>x w. w\<lparr>pw_config := x\<rparr>) config_fetch,
      env_after = (\<lambda>d. ret ())\<rparr>"

definition peers_pin :: "('u \<Rightarrow> u8 \<Rightarrow> u8 list) \<Rightarrow> ('u, 'm, 'f, 'c, 'q, 'g) peers_world \<Rightarrow> bool" where
  "peers_pin written w \<longleftrightarrow> written (pw_usb w) 0x2D = [0]"

definition peers_logs :: "('u, 'm, 'f, 'c, 'q, 'g) peers_world \<Rightarrow> u64" where
  "peers_logs w = overcurrent_count (rec_data (pw_record w))"

definition peers_ready :: "('c \<Rightarrow> unit list) \<Rightarrow> nat \<Rightarrow> ('u, 'm, 'f, 'c, 'q, 'g) peers_world \<Rightarrow> bool" where
  "peers_ready queued k w \<longleftrightarrow> k < count (pw_watchdog w) \<and> count (pw_watchdog w) \<le> 16
     \<and> (rec_sync_at (pw_record w) = None \<longrightarrow> length (queued (rec_sync_notifier (pw_record w))) < NOTIFY_CAP)"

context usbpd_device
begin

lemma set_pin:
  "\<exists>b'. usbpd_set_pin i2c dd level b = (Ok (), b') \<and> written b' = (written b)(0x2D := [of_bool (\<not> level)])"
  using send_other [of "0x2D" "[of_bool (\<not> level)]" b]
  by (auto simp: usbpd_set_pin_def wire_gpio unwrapA_Ok_iff map_errA_Ok_iff nvm_addresses_def)

end

lemma log_release:
  "\<not> log_overflows Release d r"
  by (simp add: log_overflows_def)

lemma log_release_Ok:
  assumes "record_log_overcurrent Release tm ch ps now d s = (Ok (), s')"
  shows "overcurrent_count (rec_data s') = overcurrent_count (rec_data s) + 1"
  using assms unfolding log_run [OF log_release] schedule_run
  by (auto simp: Let_def log_data_def split: if_splits option.splits)

lemma log_release_returns:
  fixes s :: "('f, 'c, 'q) record_sys"
  assumes "bounded_channel ch queued NOTIFY_CAP"
    and "rec_sync_at s = None \<longrightarrow> length (queued (rec_sync_notifier s)) < NOTIFY_CAP"
  shows "\<exists>s'. (record_log_overcurrent Release tm ch ps now d :: (('f, 'c, 'q) record_sys, unit, unit) act) s = (Ok (), s')
    \<and> rec_sync_at s' \<noteq> None"
proof (cases "rec_sync_at s")
  case None
  with assms obtain c where "ch_send ch () (rec_sync_notifier s) = Some c"
    using bounded_channel.send_room [OF assms(1)] by blast
  with None show ?thesis unfolding log_run [OF log_release] schedule_run by (simp add: Let_def)
next
  case (Some t)
  then show ?thesis unfolding log_run [OF log_release] schedule_run by (simp add: Let_def)
qed

lemma power_peersI:
  fixes i2c :: "('u, 'e) i2c_bus"
  assumes "usbpd_device dd i2c chip garbled latency polls bf booting written"
    and "bitarray ba bits 16" and "bounded_channel ch queued NOTIFY_CAP"
  shows "power_peers (power_env_of tm ba i2c dd ch ps Release :: ('u, 'm, 'f, 'c, 'q, 'g) peers_world power_env)
    (peers_pin written) peers_logs (peers_ready queued)"
proof
  let ?env = "power_env_of tm ba i2c dd ch ps Release :: ('u, 'm, 'f, 'c, 'q, 'g) peers_world power_env"
  fix w w' :: "('u, 'm, 'f, 'c, 'q, 'g) peers_world" and k x t d
  show "env_feed ?env k w = (Ok (), w') \<Longrightarrow> peers_pin written w' = peers_pin written w \<and> peers_logs w' = peers_logs w"
    by (auto simp: power_env_of_def zoom_Ok_iff peers_pin_def peers_logs_def)
  show "env_set_pin ?env x w = (Ok (), w') \<Longrightarrow> peers_pin written w' = x \<and> peers_logs w' = peers_logs w"
    using usbpd_device.set_pin [OF assms(1), of x "pw_usb w"]
    by (auto simp: power_env_of_def zoom_Ok_iff peers_pin_def peers_logs_def)
  show "env_log ?env t d w = (Ok (), w') \<Longrightarrow> peers_pin written w' = peers_pin written w \<and> peers_logs w' = peers_logs w + 1"
    by (auto simp: power_env_of_def zoom_Ok_iff peers_pin_def peers_logs_def dest: log_release_Ok)
  assume ready: "peers_ready queued k w"
  from bitarray.feed_refines [OF assms(2), of k "pw_watchdog w"] ready obtain wd where
    "(wd_feed ba k :: ('m wd_inner, unit, unit) act) (pw_watchdog w) = (Ok (), wd)" "count wd = count (pw_watchdog w)"
    unfolding peers_ready_def by (meson le_less_trans less_le_trans)
  with ready show "\<exists>w'. env_feed ?env k w = (Ok (), w') \<and> peers_ready queued k w'"
    by (simp add: power_env_of_def zoom_def wd_ticket_feed_def peers_ready_def)
  from usbpd_device.set_pin [OF assms(1), of x "pw_usb w"] ready
  show "\<exists>w'. env_set_pin ?env x w = (Ok (), w') \<and> peers_ready queued k w'"
    by (auto simp: power_env_of_def zoom_def peers_ready_def)
  from log_release_returns [OF assms(3), of "pw_record w" tm ps t d] ready
  show "\<exists>w'. env_log ?env t d w = (Ok (), w') \<and> peers_ready queued k w'"
    by (auto simp: power_env_of_def zoom_def peers_ready_def)
qed

section \<open>A simulated regulator\<close>

text \<open>A regulator with its output shorted: it reports an overcurrent whenever the output is on.\<close>

type_synonym sim_tps = "u8 \<Rightarrow> u8"

definition sim_tps_i2c :: "(sim_tps, unit) i2c_bus" where
  "sim_tps_i2c = \<lparr>
     i2c_write = (\<lambda>a bs s. (Inr (), case bs of
         [r, x] \<Rightarrow> s(r := x) | [r, x, y] \<Rightarrow> s(r := x, r + 1 := y) | _ \<Rightarrow> s)),
     i2c_write_read = (\<lambda>a ws n s. (Inr (replicate n
       (if ws = [tps_address Tps_status] then (if bit (s 6) 7 then 0x40 else 0) else s (hd ws))), s))\<rparr>"

interpretation sim_tps: tps_chip sim_tps_i2c "\<lambda>s. s"
  by unfold_locales (auto simp: sim_tps_i2c_def split: if_splits list.splits)

interpretation sim_regulator: tps_regulator ref_dd sim_tps_i2c "\<lambda>s. s"
  by (intro tps_regulator.intro rdd.device_driver_axioms sim_tps.tps_chip_axioms)

type_synonym ref_peers = "(sim_pd, u16, ref_flash, unit list, record_data list \<times> nat \<times> nat, settings list \<times> nat \<times> nat) peers_world"

abbreviation ref_env :: "ref_peers power_env" where
  "ref_env \<equiv> power_env_of ref_tm ref_ba sim_pd_i2c ref_dd (ref_ch NOTIFY_CAP) ref_ps Release"

abbreviation ref_ready :: "nat \<Rightarrow> ref_peers \<Rightarrow> bool" where
  "ref_ready \<equiv> peers_ready (\<lambda>c. c)"

interpretation ref_peers: power_peers ref_env "peers_pin pd_written" peers_logs ref_ready
  by (rule power_peersI [OF sim_pd.usbpd_device_axioms rba.bitarray_axioms rch.bounded_channel_axioms])

interpretation ref_monitor: power_monitor ref_dd sim_tps_i2c "\<lambda>s. s" ref_env "peers_pin pd_written" peers_logs ref_ready ref_tm
  by (intro power_monitor.intro sim_regulator.tps_regulator_axioms ref_peers.power_peers_axioms rtm.embassy_time_axioms)

abbreviation sim_dd :: "(sim_tps, unit) dd_ops" where
  "sim_dd \<equiv> ref_dd"

type_synonym ref_power = "(sim_tps, ref_peers) power_ext"

definition ref_boot :: ref_power where
  "ref_boot = \<lparr>px_enable_pin = False, px_inner = \<lparr>pi_bus = (\<lambda>_. 0), pi_backoff = 0, pi_state = Disabled\<rparr>,
     px_ticket = 0,
     px_peers = \<lparr>pw_usb = sim_pd_blank 0, pw_watchdog = wd_init ref_ba, pw_record = rw_sys ref_world,
       pw_config = ref_system\<rparr>\<rparr>"

abbreviation ref_power_init :: "(ref_power, unit, unit) act" where
  "ref_power_init \<equiv> power_init Release ref_tm sim_tps_i2c sim_dd ref_env"

abbreviation ref_turn :: "(nat \<Rightarrow> instant) \<Rightarrow> monitor_vars \<Rightarrow> (ref_power, unit, monitor_vars \<times> instant) act" where
  "ref_turn \<equiv> monitor_turn ref_tm sim_tps_i2c sim_dd ref_env"

abbreviation ref_runs :: "(sim_tps, ref_peers) monitor_run \<Rightarrow> bool" where
  "ref_runs \<equiv> monitor_reachable Release ref_tm sim_tps_i2c sim_dd ref_env (peers_pin pd_written) peers_logs"

abbreviation ref_view :: "ref_power \<Rightarrow> power_view" where
  "ref_view \<equiv> power_abs (\<lambda>s. s) (peers_pin pd_written) peers_logs"

lemma sim_fault: "turn_fault sim_tps_i2c sim_dd s \<longleftrightarrow> v_oe (ref_view s)"
proof -
  have "tps_read sim_tps_i2c sim_dd Tps_status b = (Ok [if bit (b 6) 7 then 0x40 else 0], b)" for b
    by (simp add: rdd.tps_read_wire liftR_def sim_tps_i2c_def)
  moreover have "tps_flag sim_dd Status_ocp [x] = bit x 6" for x
    by (rule sim_regulator.flag_byte(2) [of _ Tps_status _ 7]) simp_all
  moreover have "tps_flag sim_dd Status_scp [x] = bit x 7" for x
    by (rule sim_regulator.flag_byte(2) [of _ Tps_status _ 8]) simp_all
  ultimately show ?thesis by (simp add: turn_fault_def power_abs_def)
qed

text \<open>The start, and three turns: on, off again by the short, on after the back-off of 500 ms.\<close>

lemma ref_start:
  obtains s where "ref_power_init ref_boot = (Ok (), s)" "ref_ready (px_ticket s) (px_peers s)"
    "pi_backoff (px_inner s) = 500000"
proof -
  obtain b1 where b1: "tps_modify sim_tps_i2c sim_dd Tps_mode (mode_off sim_dd) (pi_bus (px_inner ref_boot)) = (Ok (), b1)"
    using sim_regulator.mode_modify(1) [of "pi_bus (px_inner ref_boot)"] by auto
  obtain b2 where b2: "tps_modify sim_tps_i2c sim_dd Tps_vout_fs (tps_set sim_dd Vout_fs_intfb (ucast (int_fb_code FEEDBACK))) b1 = (Ok (), b2)"
    using sim_regulator.modify_byte [of Tps_vout_fs "tps_set sim_dd Vout_fs_intfb (ucast (int_fb_code FEEDBACK))" b1, OF _ _ rdd.tps_set_length]
    by auto
  have "798 \<le> unat (9000 :: u16)" by simp
  from vref_from_feedback_reachable(1) [OF this] obtain v where
    v: "vref_from_feedback Release (vout_mv settings_default) FEEDBACK = Some v"
    by (auto simp: settings_default_def FEEDBACK_def)
  obtain i where i: "power_persist Release ref_tm sim_tps_i2c sim_dd settings_default
      \<lparr>pi_bus = b2, pi_backoff = 0, pi_state = Disabled\<rparr> = (Ok (), i)" "pi_backoff i = 500000"
    using sim_regulator.persist_run [OF v, of ref_tm "\<lparr>pi_bus = b2, pi_backoff = 0, pi_state = Disabled\<rparr>"]
    by (auto simp: settings_default_def ref_tm_def)
  obtain wd where wd: "(wd_ticket ref_ba :: (u16 wd_inner, unit, nat) act) (wd_init ref_ba) = (Ok 0, wd)" "count wd = 1"
    using rba.ticket_refines [of "wd_init ref_ba"] by (auto simp: wd_init_def)
  let ?s = "ref_boot\<lparr>px_enable_pin := True, px_inner := i, px_ticket := 0,
      px_peers := (px_peers ref_boot)\<lparr>pw_watchdog := wd\<rparr>\<rparr>"
  have "ref_power_init ref_boot = (Ok (), ?s)"
    using b1 b2 i(1) wd(1)
    by (simp add: power_init_def ref_boot_def bindA_def modifyA_def zoom_def unwrapA_def readA_def ret_def
        power_env_of_def config_fetch_def ref_system_def)
  moreover have "ref_ready (px_ticket ?s) (px_peers ?s)"
    by (simp add: peers_ready_def wd(2) ref_boot_def ref_world_def record_start_def NOTIFY_CAP_def)
  ultimately show thesis using i(2) by (intro that [of ?s]) simp_all
qed

lemma ref_run_tripped:
  obtains r1 r2 where "ref_runs r1" "ref_ready (px_ticket (mr_sys r1)) (px_peers (mr_sys r1))"
    "v_oe (ref_view (mr_sys r1))" "enabled (mr_vars r1)" "mr_time r1 = 13" "pi_backoff (px_inner (mr_sys r1)) = 500000"
    "ref_runs r2" "ref_ready (px_ticket (mr_sys r2)) (px_peers (mr_sys r2))"
    "\<not> v_oe (ref_view (mr_sys r2))" "mr_time r2 = 23" "mr_trip r2 = Some 500020" "mr_episodes r2 = 1"
    "mr_vars r2 = \<lparr>enabled = False, backoff_until = Some 500020, stabilized_at = None, ocp_since = Some 21\<rparr>"
proof -
  obtain s0 where init: "ref_power_init ref_boot = (Ok (), s0)" and ready: "ref_ready (px_ticket s0) (px_peers s0)"
    and backoff: "pi_backoff (px_inner s0) = 500000" by (rule ref_start)
  let ?r0 = "start_run peers_logs s0 0"
  note r0 = monitor_reachable.start [OF init, of "peers_pin pd_written" peers_logs 0]
  have off: "\<not> v_oe (ref_view s0)" by (rule ref_monitor.init_view(2) [OF init])
  have mono: "mono (\<lambda>k. a + k)" for a :: nat by (rule monoI) simp
  obtain v1 d1 s1 where r1: "ref_runs (turn_run sim_tps_i2c sim_dd (\<lambda>k. 10 + k) v1 s1 ?r0)"
    "ref_ready (px_ticket s1) (px_peers s1)" "pi_backoff (px_inner s1) = 500000"
    "(v1, ref_view s1) = spec_turn ref_tm (turn_fault sim_tps_i2c sim_dd s0) 500000 (\<lambda>k. 10 + k) (monitor_start, ref_view s0)"
    by (rule ref_monitor.run_turn [OF r0 mono [of 10]]) (use ready backoff in \<open>simp_all add: start_run_def\<close>)
  let ?r1 = "turn_run sim_tps_i2c sim_dd (\<lambda>k. 10 + k) v1 s1 ?r0"
  have v1: "enabled v1" "ocp_since v1 = None" and on: "v_oe (ref_view s1)"
    using r1(4) off by (simp_all add: sim_fault spec_turn_def monitor_start_def)
  have e1: "mr_vars ?r1 = v1" "mr_sys ?r1 = s1" "mr_time ?r1 = 13" "mr_episodes ?r1 = 0"
    using off by (simp_all add: turn_run_def start_run_def sim_fault)
  obtain v2 d2 s2 where r2: "ref_runs (turn_run sim_tps_i2c sim_dd (\<lambda>k. 20 + k) v2 s2 ?r1)"
    "ref_ready (px_ticket s2) (px_peers s2)" "pi_backoff (px_inner s2) = 500000"
    "(v2, ref_view s2) = spec_turn ref_tm (turn_fault sim_tps_i2c sim_dd s1) 500000 (\<lambda>k. 20 + k) (v1, ref_view s1)"
    by (rule ref_monitor.run_turn [OF r1(1) mono [of 20]]) (use r1(2,3) in \<open>simp_all add: e1\<close>)
  let ?r2 = "turn_run sim_tps_i2c sim_dd (\<lambda>k. 20 + k) v2 s2 ?r1"
  have v2: "v2 = \<lparr>enabled = False, backoff_until = Some 500020, stabilized_at = None, ocp_since = Some 21\<rparr>"
    and off2: "\<not> v_oe (ref_view s2)"
    using r2(4) on v1 by (simp_all add: sim_fault spec_turn_def)
  have e2: "mr_vars ?r2 = v2" "mr_sys ?r2 = s2" "mr_time ?r2 = 23" "mr_trip ?r2 = Some 500020" "mr_episodes ?r2 = 1"
    using on v1 r1(3) by (simp_all add: turn_run_def [of _ _ _ v2] e1 sim_fault)
  show thesis
    by (rule that [of ?r1 ?r2], unfold e1 e2) (use r1(1-3) r2(1-3) v1 on off2 v2 in simp_all)
qed

section \<open>Properties\<close>

text \<open>C2: A turn of the monitor does what the abstract monitor does: on every path on which it returns,
  the variables of the task, the reported state, the output-enable and discharge bits of the
  regulator, the pin and the number of logs change as \<open>spec_turn\<close> says for what the regulator
  reported; and it neither changes the back-off nor the ticket.\<close>

theorem monitor_turn_refines:
  assumes "power_monitor dd i2c regs env pin logs ready tm"
    and "monitor_turn tm i2c dd env now v s = (Ok (v', d), s')"
  shows "(v', power_abs regs pin logs s') =
      spec_turn tm (turn_fault i2c dd s) (pi_backoff (px_inner s)) now (v, power_abs regs pin logs s)
    \<and> pi_backoff (px_inner s') = pi_backoff (px_inner s) \<and> px_ticket s' = px_ticket s"
  using power_monitor.turn_refines [OF assms] by simp

theorem monitor_turn_refines_witness:
  "\<exists>s v d s'. ref_turn (\<lambda>k. 10 + k) monitor_start s = (Ok (v, d), s')
    \<and> (v, ref_view s') = spec_turn ref_tm (turn_fault sim_tps_i2c sim_dd s) (pi_backoff (px_inner s))
        (\<lambda>k. 10 + k) (monitor_start, ref_view s)"
proof -
  obtain s0 where init: "ref_power_init ref_boot = (Ok (), s0)" and ready: "ref_ready (px_ticket s0) (px_peers s0)"
    by (rule ref_start)
  have mono: "mono (\<lambda>k. 10 + k :: nat)" by (rule monoI) simp
  obtain v d s' where "ref_turn (\<lambda>k. 10 + k) monitor_start s0 = (Ok (v, d), s')"
    by (rule ref_monitor.run_turn [OF monitor_reachable.start [OF init, of "peers_pin pd_written" peers_logs 0] mono])
      (use ready in \<open>simp_all add: start_run_def\<close>)
  with monitor_turn_refines [OF ref_monitor.power_monitor_axioms this] show ?thesis by blast
qed

text \<open>C1: After an overcurrent the output stays off for the whole back-off.  A turn that finds a fault
  leaves the output off and discharged, the pin low and the state \<open>Ocp\<close>; and a turn that switches
  the output on reads a clock past the end of the back-off that the last fault began, whatever
  turns, new settings and other activity came in between.\<close>

theorem monitor_waits_for_backoff:
  assumes "power_monitor dd i2c regs env pin logs ready tm"
    and "monitor_reachable p tm i2c dd env pin logs r" "mono now" "mr_time r \<le> now 0"
    and "monitor_turn tm i2c dd env now (mr_vars r) (mr_sys r) = (Ok (v', d), s')"
  defines "o1 \<equiv> power_abs regs pin logs (mr_sys r)" and "o2 \<equiv> power_abs regs pin logs s'"
  shows "(turn_fault i2c dd (mr_sys r) \<longrightarrow> \<not> v_oe o2 \<and> v_dischg o2 \<and> \<not> v_pin o2 \<and> v_state o2 = Ocp)
    \<and> (\<not> v_oe o1 \<and> v_oe o2 \<longrightarrow> (\<forall>u. mr_trip r = Some u \<longrightarrow> u < now 0))"
proof -
  note ref = power_monitor.turn_refines(1) [OF assms(1,5)]
  have inv: "output_inv (mr_vars r) o1" "history_inv (mr_vars r) o1 (mr_time r) (mr_trip r) (mr_episodes r) (mr_logs0 r)"
    using power_monitor.reachable_inv [OF assms(1,2)] by (simp_all add: o1_def)
  have "u < now 0" if "\<not> v_oe o1" "v_oe o2" "mr_trip r = Some u" for u
  proof -
    from that(1) inv(1) have off: "\<not> enabled (mr_vars r)" by (simp add: output_inv_def)
    with inv(2) that(3) have "backoff_until (mr_vars r) = Some u" by (simp add: history_inv_def)
    with ref off that(1,2) show ?thesis
      by (auto simp: spec_turn_def o1_def [symmetric] o2_def [symmetric] split: if_splits)
  qed
  moreover have "\<not> v_oe o2 \<and> v_dischg o2 \<and> \<not> v_pin o2 \<and> v_state o2 = Ocp" if "turn_fault i2c dd (mr_sys r)"
    using ref that by (simp add: spec_turn_def o2_def)
  ultimately show ?thesis by blast
qed

theorem monitor_waits_for_backoff_witness:
  "\<exists>r v d s'. ref_runs r \<and> mr_trip r = Some 500020 \<and> \<not> v_oe (ref_view (mr_sys r))
    \<and> ref_turn (\<lambda>k. 600000 + k) (mr_vars r) (mr_sys r) = (Ok (v, d), s')
    \<and> v_oe (ref_view s') \<and> (500020 :: nat) < 600000"
proof -
  obtain r1 r where r: "ref_runs r" "ref_ready (px_ticket (mr_sys r)) (px_peers (mr_sys r))"
    "\<not> v_oe (ref_view (mr_sys r))" "mr_time r = 23" "mr_trip r = Some 500020"
    and v: "mr_vars r = \<lparr>enabled = False, backoff_until = Some 500020, stabilized_at = None, ocp_since = Some 21\<rparr>"
    by (rule ref_run_tripped)
  have mono: "mono (\<lambda>k. 600000 + k :: nat)" by (rule monoI) simp
  obtain v' d s' where t: "ref_turn (\<lambda>k. 600000 + k) (mr_vars r) (mr_sys r) = (Ok (v', d), s')"
    and spec: "(v', ref_view s') = spec_turn ref_tm (turn_fault sim_tps_i2c sim_dd (mr_sys r))
      (pi_backoff (px_inner (mr_sys r))) (\<lambda>k. 600000 + k) (mr_vars r, ref_view (mr_sys r))"
    by (rule ref_monitor.run_turn [OF r(1) mono _ r(2)]) (simp_all add: r(4))
  from spec r(3) have on: "v_oe (ref_view s')" by (simp add: sim_fault v spec_turn_def)
  with monitor_waits_for_backoff [OF ref_monitor.power_monitor_axioms r(1) mono _ t] r have "(500020 :: nat) < 600000"
    by simp
  with r t on show ?thesis by blast
qed

text \<open>C23: The reported state tells what the output does.  In every reachable state of the monitor the
  output-enable bit of the regulator is set exactly in the states \<open>Enabling\<close> and \<open>Enabled\<close>, its
  discharge bit exactly in the others, and once the first turn was made the pin of the USB
  controller is high exactly when the output is on.\<close>

theorem power_state_is_truthful:
  assumes "power_monitor dd i2c regs env pin logs ready tm"
    and "monitor_reachable p tm i2c dd env pin logs r"
  defines "o' \<equiv> power_abs regs pin logs (mr_sys r)"
  shows "v_oe o' = (v_state o' \<in> {Enabling, Enabled}) \<and> v_dischg o' = (\<not> v_oe o')
    \<and> (v_state o' \<noteq> Disabled \<longrightarrow> v_pin o' = v_oe o')"
  using power_monitor.reachable_inv [OF assms(1,2)] unfolding o'_def [symmetric] output_inv_def by auto

theorem power_state_is_truthful_witness:
  "\<exists>r. ref_runs r \<and> v_oe (ref_view (mr_sys r)) \<and> v_state (ref_view (mr_sys r)) \<in> {Enabling, Enabled}
    \<and> v_pin (ref_view (mr_sys r))"
proof -
  obtain r where r: "ref_runs r" "v_oe (ref_view (mr_sys r))" using ref_run_tripped by metis
  from power_state_is_truthful [OF ref_monitor.power_monitor_axioms r(1)] r show ?thesis by auto
qed

text \<open>C24: Every overcurrent episode is logged at most once, and only when it is over: an episode begins
  with a fault that finds none under way, further faults before the output was stable belong to
  it, and at any time the logged overcurrents are those of the start and one for each episode but
  the one under way, if there is one.\<close>

theorem one_log_per_episode:
  assumes "power_monitor dd i2c regs env pin logs ready tm"
    and "monitor_reachable p tm i2c dd env pin logs r"
  shows "logs (px_peers (mr_sys r)) + (if ocp_since (mr_vars r) = None then 0 else 1) =
    mr_logs0 r + of_nat (mr_episodes r)"
  using power_monitor.reachable_inv [OF assms(1,2)] by (simp add: history_inv_def power_abs_def)

theorem one_log_per_episode_witness:
  "\<exists>r. ref_runs r \<and> mr_episodes r = 1 \<and> peers_logs (px_peers (mr_sys r)) + 1 = mr_logs0 r + 1"
proof -
  obtain r1 r where r: "ref_runs r" "mr_episodes r = 1"
    "mr_vars r = \<lparr>enabled = False, backoff_until = Some 500020, stabilized_at = None, ocp_since = Some 21\<rparr>"
    by (rule ref_run_tripped)
  from one_log_per_episode [OF ref_monitor.power_monitor_axioms r(1)] r show ?thesis by auto
qed

text \<open>C22: The monitor does not panic and recovers: in every reachable state in which the systems it calls
  are ready, a turn returns, whatever the regulator reports and whatever the (non-decreasing)
  readings of the clock, and leaves them ready; and if the output is off, the regulator reports no
  fault and the back-off is over, the output is on afterwards.\<close>

theorem monitor_recovers:
  assumes "power_monitor dd i2c regs env pin logs ready tm"
    and "monitor_reachable p tm i2c dd env pin logs r" "mono now" "mr_time r \<le> now 0"
    and "ready (px_ticket (mr_sys r)) (px_peers (mr_sys r))"
  shows "\<exists>v' d s'. monitor_turn tm i2c dd env now (mr_vars r) (mr_sys r) = (Ok (v', d), s')
    \<and> ready (px_ticket s') (px_peers s')
    \<and> (\<not> turn_fault i2c dd (mr_sys r) \<and> \<not> v_oe (power_abs regs pin logs (mr_sys r))
        \<and> (\<forall>u. mr_trip r = Some u \<longrightarrow> u < now 0)
       \<longrightarrow> v_oe (power_abs regs pin logs s') \<and> v_state (power_abs regs pin logs s') = Enabling)"
proof -
  obtain v' d s' where t: "monitor_turn tm i2c dd env now (mr_vars r) (mr_sys r) = (Ok (v', d), s')"
    "ready (px_ticket s') (px_peers s')"
    and spec: "(v', power_abs regs pin logs s') = spec_turn tm (turn_fault i2c dd (mr_sys r))
      (pi_backoff (px_inner (mr_sys r))) now (mr_vars r, power_abs regs pin logs (mr_sys r))"
    by (rule power_monitor.run_turn [OF assms])
  have inv: "v_oe (power_abs regs pin logs (mr_sys r)) = enabled (mr_vars r)"
    "backoff_until (mr_vars r) = (if enabled (mr_vars r) then None else mr_trip r)"
    using power_monitor.reachable_inv [OF assms(1,2)] by (simp_all add: output_inv_def history_inv_def)
  from t spec inv show ?thesis by (auto simp: spec_turn_def split: if_splits)
qed

theorem monitor_recovers_witness:
  "\<exists>r v d s'. ref_runs r \<and> \<not> v_oe (ref_view (mr_sys r))
    \<and> ref_turn (\<lambda>k. 600000 + k) (mr_vars r) (mr_sys r) = (Ok (v, d), s') \<and> v_state (ref_view s') = Enabling"
proof -
  obtain r1 r where r: "ref_runs r" "ref_ready (px_ticket (mr_sys r)) (px_peers (mr_sys r))"
    "\<not> v_oe (ref_view (mr_sys r))" "mr_time r = 23" "mr_trip r = Some 500020"
    by (rule ref_run_tripped)
  have mono: "mono (\<lambda>k. 600000 + k :: nat)" by (rule monoI) simp
  from monitor_recovers [OF ref_monitor.power_monitor_axioms r(1) mono _ r(2)] r show ?thesis
    by (force simp: sim_fault)
qed

text \<open>The monitor is never asleep for longer than the deadline of the watchdog: the instant at which
  a turn asks to be woken exists, so the \<open>unwrap\<close> is safe; it is at most 29 seconds after the
  clock was read, at most the end of the back-off and of the stabilization time where there is
  one, and it is one of these three.\<close>

theorem monitor_deadline_bounds:
  "\<exists>d. monitor_deadline tm now v = Some d \<and> d \<le> now + from_secs tm WATCHDOG_DEADLINE_SECS
    \<and> (\<forall>t \<in> set_option (backoff_until v) \<union> set_option (stabilized_at v). d \<le> t)
    \<and> d \<in> {now + from_secs tm WATCHDOG_DEADLINE_SECS} \<union> set_option (backoff_until v) \<union> set_option (stabilized_at v)"
  using monitor_deadline_Some [of tm now v] by auto

theorem monitor_deadline_bounds_witness:
  "\<exists>d. monitor_deadline ref_tm 100 (monitor_start\<lparr>stabilized_at := Some 200\<rparr>) = Some d \<and> d \<le> 200"
  using monitor_deadline_bounds [of ref_tm 100 "monitor_start\<lparr>stabilized_at := Some 200\<rparr>"] by auto

text \<open>C32: New settings reach the regulator: when the target voltage can be converted, \<open>persist\<close> returns,
  with the back-off in place, the low 11 bits of the reference in registers 0 and 1, and the
  current limit in steps of 25 mA, modulo 128, in the low bits of register 2, whose enable bit and
  all other registers are as before; so the limit is the one asked for up to 3199 mA, and a larger
  one wraps around.  When the voltage cannot be converted, \<open>persist\<close> panics before it changes
  anything.\<close>

theorem persist_programs_regulator:
  assumes "tps_regulator dd i2c regs"
  shows "(\<forall>v. vref_from_feedback p (vout_mv settings) FEEDBACK = Some v \<longrightarrow>
      (\<exists>b x y z. power_persist p tm i2c dd settings i =
          (Ok (), i\<lparr>pi_backoff := from_millis tm (unat (backoff_ms settings)), pi_bus := b\<rparr>)
        \<and> regs b = (regs (pi_bus i))(0 := x, 1 := y, 2 := z)
        \<and> le_word [x, y] = take_bit 11 (vref_code v)
        \<and> unat (take_bit 7 z) = unat (ma_of (iout_ma settings)) div 25 mod 128
        \<and> bit z 7 = bit (regs (pi_bus i) 2) 7))
    \<and> (vref_from_feedback p (vout_mv settings) FEEDBACK = None \<longrightarrow>
      power_persist p tm i2c dd settings i = (Panic, i))"
  using tps_regulator.persist_run [OF assms] tps_regulator.persist_panics [OF assms] by blast

theorem persist_programs_regulator_witness:
  "\<exists>i z. power_persist Release ref_tm sim_tps_i2c sim_dd (settings_default\<lparr>iout_ma := Milliamps 3300\<rparr>)
      \<lparr>pi_bus = (\<lambda>_. 0), pi_backoff = 0, pi_state = Disabled\<rparr> = (Ok (), i)
    \<and> pi_bus i 2 = z \<and> unat (take_bit 7 z) = 4"
proof -
  have "798 \<le> unat (9000 :: u16)" by simp
  from vref_from_feedback_reachable(1) [OF this] obtain v where
    "vref_from_feedback Release (vout_mv (settings_default\<lparr>iout_ma := Milliamps 3300\<rparr>)) FEEDBACK = Some v"
    by (auto simp: settings_default_def FEEDBACK_def)
  with persist_programs_regulator [OF sim_regulator.tps_regulator_axioms, of Release "settings_default\<lparr>iout_ma := Milliamps 3300\<rparr>"
      ref_tm "\<lparr>pi_bus = (\<lambda>_. 0), pi_backoff = 0, pi_state = Disabled\<rparr>"]
  show ?thesis by auto
qed

end
