(* ===== verification/Executors.thy ===== *)
theory Executors
  imports Embassy
begin

text \<open>
  \<open>executors/\<close>: the thread-mode executor with its sleep statistics, the interrupt executors, and
  the pender that tells them apart.  The queue of tasks inside an executor is the one of
  embassy-executor: what is modelled of it is whether a woken task is waiting for the next poll.
\<close>

section \<open>Contexts and the pender\<close>

definition THREAD_MODE_CONTEXT :: u8 where "THREAD_MODE_CONTEXT = 16"

text \<open>The context pointer of an executor: on this target a pointer has 32 bits.\<close>

definition thread_context :: "u8 \<Rightarrow> u32" where
  "thread_context core = le_word [THREAD_MODE_CONTEXT, core, 0, 0]"

definition interrupt_context :: "u8 \<Rightarrow> u32" where
  "interrupt_context swi = ucast swi"

text \<open>The signals of the thread-mode executors, one per core, and the raised software interrupts.\<close>

record pend_state =
  signal_work :: "bool list"
  swi_raised :: "nat list"

definition pend_thread_mode :: "nat \<Rightarrow> (pend_state, 'e, unit) act" where
  "pend_thread_mode core s =
     (if core < length (signal_work s) then (Ok (), s\<lparr>signal_work := (signal_work s)[core := True]\<rparr>)
      else (Panic, s))"

definition raise_swi :: "nat \<Rightarrow> (pend_state, 'e, unit) act" where
  "raise_swi n = modifyA (\<lambda>s. s\<lparr>swi_raised := swi_raised s @ [n]\<rparr>)"

definition pender :: "u32 \<Rightarrow> (pend_state, 'e, unit) act" where
  "pender ctx =
     (let context = le_bytes ctx; c0 = context ! 0 in
      if c0 = 0 then raise_swi 0
      else if c0 = 1 then raise_swi 1
      else if c0 = 2 then raise_swi 2
      else if c0 = 3 then raise_swi 3
      else if c0 = THREAD_MODE_CONTEXT then pend_thread_mode (unat (context ! 1))
      else panic)"

section \<open>The thread-mode executor\<close>

text \<open>
  Where \<open>run\<close> stands: about to poll, inside \<open>poll\<close>, about to enter \<open>wait_impl\<close>, asleep in \<open>wfi\<close>
  with interrupts masked since an instant.
\<close>

datatype thread_pc = TLoop | TPolling | TWait | TAsleep instant

text \<open>
  \<open>te_work\<close>: a task was woken since the queue was last drained.  \<open>te_irq\<close>: an interrupt is pending.
  The two counters of the sleep statistics, the clock.
\<close>

record thread_exec =
  te_pc :: thread_pc
  te_signal :: bool
  te_work :: bool
  te_irq :: bool
  te_sleep :: nat
  te_from :: instant
  te_now :: instant

text \<open>Whether \<open>init\<close> spawned tasks, which wakes them.\<close>

definition thread_boot :: "bool \<Rightarrow> instant \<Rightarrow> thread_exec" where
  "thread_boot spawned t = \<lparr>te_pc = TLoop, te_signal = spawned, te_work = spawned, te_irq = False,
     te_sleep = 0, te_from = 0, te_now = t\<rparr>"

text \<open>Waking a task puts it into the queue and calls the pender.\<close>

definition wake_task :: "thread_exec \<Rightarrow> thread_exec" where
  "wake_task s = s\<lparr>te_work := True, te_signal := True\<rparr>"

text \<open>\<open>poll\<close> drains the queue first; a task woken while it runs waits for the next poll.\<close>

definition thread_poll :: "(thread_exec, 'e, unit) act" where
  "thread_poll s = (if te_pc s = TLoop then (Ok (), s\<lparr>te_pc := TPolling, te_work := False\<rparr>) else (Pending, s))"

definition thread_polled :: "(thread_exec, 'e, unit) act" where
  "thread_polled s = (if te_pc s = TPolling then (Ok (), s\<lparr>te_pc := TWait\<rparr>) else (Pending, s))"

text \<open>\<open>wait_impl\<close>, in its critical section: up to \<open>wfi\<close>, and on when an interrupt is pending.\<close>

definition thread_wait :: "(thread_exec, 'e, unit) act" where
  "thread_wait s =
     (if te_pc s = TWait then
        (if te_signal s then (Ok (), s\<lparr>te_signal := False, te_pc := TLoop\<rparr>)
         else (Ok (), s\<lparr>te_pc := TAsleep (te_now s)\<rparr>))
      else (Pending, s))"

definition thread_wakeup :: "(thread_exec, 'e, unit) act" where
  "thread_wakeup s =
     (case te_pc s of
        TAsleep start \<Rightarrow>
          if te_irq s then (Ok (), s\<lparr>te_sleep := te_sleep s + (te_now s - start), te_pc := TLoop\<rparr>)
          else (Pending, s)
      | _ \<Rightarrow> (Pending, s))"

subsection \<open>Sleep statistics\<close>

record sleep_stats =
  st_sleep :: u64
  st_total :: u64

text \<open>The clock is read twice, \<open>later\<close> ticks apart.\<close>

definition current_restart :: "nat \<Rightarrow> (thread_exec, 'e, sleep_stats) act" where
  "current_restart later s =
     (let sleep = te_sleep s; from = te_from s; total = te_now s + later - from in
      (Ok \<lparr>st_sleep = of_nat sleep, st_total = of_nat total\<rparr>,
       s\<lparr>te_sleep := 0, te_from := te_now s, te_now := te_now s + later\<rparr>))"

definition as_permille :: "profile \<Rightarrow> sleep_stats \<Rightarrow> u64 option" where
  "as_permille p s = do {
     x \<leftarrow> rust_mul p (st_sleep s) 1000;
     rust_div x (st_total s) }"

section \<open>The machine\<close>

text \<open>
  The executor, tasks that wake each other or restart the statistics while they are polled,
  interrupts that become pending at any time and are served when they are not masked, with a
  handler that may wake a task, and the clock.
\<close>

datatype thread_event =
    ThPoll | ThPolled | ThWait | ThWakeup
  | ThTaskWakes | ThRestart nat | ThInterrupt | ThServe bool | ThTick nat

fun masked :: "thread_pc \<Rightarrow> bool" where
  "masked (TAsleep _) = True"
| "masked _ = False"

fun thread_event_run :: "thread_event \<Rightarrow> (thread_exec, unit, unit) act" where
  "thread_event_run ThPoll s = thread_poll s"
| "thread_event_run ThPolled s = thread_polled s"
| "thread_event_run ThWait s = thread_wait s"
| "thread_event_run ThWakeup s = thread_wakeup s"
| "thread_event_run ThTaskWakes s = (if te_pc s = TPolling then (Ok (), wake_task s) else (Pending, s))"
| "thread_event_run (ThRestart later) s =
     (if te_pc s = TPolling then seqA (bindA (current_restart later) (\<lambda>_. ret ())) (ret ()) s else (Pending, s))"
| "thread_event_run ThInterrupt s = (Ok (), s\<lparr>te_irq := True\<rparr>)"
| "thread_event_run (ThServe wakes) s =
     (if te_irq s \<and> \<not> masked (te_pc s)
      then (Ok (), (if wakes then wake_task s else s)\<lparr>te_irq := False\<rparr>) else (Pending, s))"
| "thread_event_run (ThTick n) s = (Ok (), s\<lparr>te_now := te_now s + n\<rparr>)"

inductive thread_reachable :: "thread_exec \<Rightarrow> bool" where
  boot: "thread_reachable (thread_boot spawned t)"
| event: "thread_reachable s \<Longrightarrow> thread_event_run ev s = (Ok (), s') \<Longrightarrow> thread_reachable s'"

text \<open>
  Work that waits has the signal set, unless the executor is about to poll anyway, and the executor
  sleeps only with the signal clear; and the sleep
  counted, the one under way included, fits into the time since the statistics were restarted.
\<close>

definition signalled :: "thread_exec \<Rightarrow> bool" where
  "signalled s \<longleftrightarrow> (te_work s \<longrightarrow> te_signal s \<or> te_pc s = TLoop)
     \<and> (\<forall>start. te_pc s = TAsleep start \<longrightarrow> \<not> te_signal s)"

definition slept :: "thread_exec \<Rightarrow> bool" where
  "slept s \<longleftrightarrow> te_from s + te_sleep s \<le> te_now s
     \<and> (\<forall>start. te_pc s = TAsleep start \<longrightarrow> te_from s + te_sleep s \<le> start \<and> start \<le> te_now s)"

lemmas thread_event_defs =
  thread_poll_def thread_polled_def thread_wait_def thread_wakeup_def wake_task_def current_restart_def
  Let_def bindA_def ret_def

lemma thread_event_keeps:
  assumes "thread_event_run ev s = (Ok (), s')" "signalled s" "slept s"
  shows "signalled s' \<and> slept s'"
  using assms
  by (cases ev; cases "te_pc s")
    (auto simp: thread_event_defs signalled_def slept_def split: if_splits)

lemma thread_invariant: "thread_reachable s \<Longrightarrow> signalled s \<and> slept s"
proof (induction rule: thread_reachable.induct)
  case (boot spawned t)
  then show ?case by (simp add: thread_boot_def signalled_def slept_def)
qed (simp add: thread_event_keeps)

subsection \<open>Properties\<close>

text \<open>What the executor itself does next, where it stands.\<close>

fun executor_event :: "thread_pc \<Rightarrow> thread_event" where
  "executor_event TLoop = ThPoll"
| "executor_event TPolling = ThPolled"
| "executor_event TWait = ThWait"
| "executor_event (TAsleep _) = ThWakeup"

fun executor_steps :: "nat \<Rightarrow> thread_exec \<Rightarrow> thread_exec" where
  "executor_steps 0 s = s"
| "executor_steps (Suc n) s = executor_steps n (snd (thread_event_run (executor_event (te_pc s)) s))"

lemma signal_brings_poll:
  assumes "signalled s" "te_work s"
  shows "\<exists>n \<le> 3. te_pc (executor_steps n s) = TPolling \<and> \<not> te_work (executor_steps n s)"
proof (cases "te_pc s")
  case TLoop
  with assms show ?thesis
    by (intro exI [of _ 1]) (simp add: thread_event_defs)
next
  case TPolling
  with assms show ?thesis
    by (intro exI [of _ 3]) (simp add: thread_event_defs signalled_def eval_nat_numeral)
next
  case TWait
  with assms show ?thesis
    by (intro exI [of _ 2]) (simp add: thread_event_defs signalled_def eval_nat_numeral)
next
  case (TAsleep start)
  with assms show ?thesis by (simp add: signalled_def)
qed

text \<open>C15: the thread-mode executor loses no wake-up: while it sleeps no woken task waits, and whenever one
  waits, the executor polls again within three of its own steps, without any further interrupt.
\<close>
theorem executor_no_lost_wakeup:
  assumes "thread_reachable s"
  shows "(masked (te_pc s) \<longrightarrow> \<not> te_work s)
    \<and> (te_work s \<longrightarrow> (\<exists>n \<le> 3. te_pc (executor_steps n s) = TPolling \<and> \<not> te_work (executor_steps n s)))"
proof (intro conjI impI)
  have signalled: "signalled s" using thread_invariant [OF assms] by simp
  show "\<not> te_work s" if "masked (te_pc s)"
    using signalled that by (cases "te_pc s") (auto simp: signalled_def)
  show "\<exists>n \<le> 3. te_pc (executor_steps n s) = TPolling \<and> \<not> te_work (executor_steps n s)" if "te_work s"
    using signal_brings_poll [OF signalled that] .
qed

text \<open>A wake-up by an interrupt that comes between the poll and the critical section.\<close>

definition late_wakeup :: thread_exec where
  "late_wakeup = snd (forA thread_event_run [ThPoll, ThPolled, ThInterrupt, ThServe True] (thread_boot True 7))"

lemma thread_reachable_run:
  "forA thread_event_run evs s = (Ok (), s') \<Longrightarrow> thread_reachable s \<Longrightarrow> thread_reachable s'"
  by (rule forA_invariant [of thread_event_run evs s s' thread_reachable])
    (auto intro: thread_reachable.event)

lemma late_wakeup_reachable: "thread_reachable late_wakeup"
  unfolding late_wakeup_def
  by (rule thread_reachable_run [OF _ thread_reachable.boot,
        of "[ThPoll, ThPolled, ThInterrupt, ThServe True]" True 7])
    (simp add: thread_boot_def thread_event_defs)

theorem executor_no_lost_wakeup_witness:
  "te_pc late_wakeup = TWait \<and> te_work late_wakeup
   \<and> (\<exists>n \<le> 3. te_pc (executor_steps n late_wakeup) = TPolling \<and> \<not> te_work (executor_steps n late_wakeup))"
proof -
  have "te_pc late_wakeup = TWait \<and> te_work late_wakeup"
    by (simp add: late_wakeup_def thread_boot_def thread_event_defs)
  then show ?thesis
    using executor_no_lost_wakeup [OF late_wakeup_reachable] by simp
qed

lemma restarted_stats:
  assumes "slept s" "te_now s + later < 2 ^ 64" "current_restart later s = (Ok st, s')"
  shows "unat (st_sleep st) = te_sleep s" "unat (st_total st) = te_now s + later - te_from s"
    "te_sleep s \<le> te_now s - te_from s" "te_from s \<le> te_now s"
proof -
  define total where "total = te_now s + later - te_from s"
  have slept: "te_from s + te_sleep s \<le> te_now s" using assms(1) by (simp add: slept_def)
  then have "te_sleep s < 2 ^ 64" "total < 2 ^ 64" using assms(2) by (simp_all add: total_def)
  moreover have "st = \<lparr>st_sleep = of_nat (te_sleep s), st_total = of_nat total\<rparr>"
    using assms(3) by (simp add: current_restart_def total_def)
  ultimately show "unat (st_sleep st) = te_sleep s" "unat (st_total st) = te_now s + later - te_from s"
    by (simp_all add: unat_of_nat take_bit_nat_eq_self total_def [symmetric])
  show "te_sleep s \<le> te_now s - te_from s" "te_from s \<le> te_now s" using slept by simp_all
qed

lemma permille_of:
  assumes "unat (st_sleep st) * 1000 < 2 ^ 64"
  shows "as_permille p st =
    (if st_total st = 0 then None else Some (st_sleep st * 1000 div st_total st))"
    and "unat (st_sleep st * 1000 div st_total st) = unat (st_sleep st) * 1000 div unat (st_total st)"
proof -
  have "rust_mul p (st_sleep st) 1000 = Some (st_sleep st * 1000)"
    and "unat (st_sleep st * 1000) = unat (st_sleep st) * 1000"
    using assms rust_mul_exact [of "st_sleep st" 1000] by simp_all
  then show "as_permille p st = (if st_total st = 0 then None else Some (st_sleep st * 1000 div st_total st))"
    and "unat (st_sleep st * 1000 div st_total st) = unat (st_sleep st) * 1000 div unat (st_total st)"
    by (simp_all add: as_permille_def rust_div_def unat_div_distrib)
qed

lemma share_le_1000: "a \<le> b \<Longrightarrow> a * 1000 div b \<le> (1000 :: nat)"
  using div_le_mono [of "a * 1000" "b * 1000" b] by (cases "b = 0") simp_all

lemma share_of_restart:
  assumes "thread_reachable s" "(te_now s + later) * 1000 < 2 ^ 64"
    and "current_restart later s = (Ok st, s')"
  shows "st_sleep st \<le> st_total st
    \<and> (as_permille p st = None \<longleftrightarrow> te_now s + later = te_from s)
    \<and> (\<forall>r. as_permille p st = Some r \<longrightarrow>
        unat r = te_sleep s * 1000 div (te_now s + later - te_from s) \<and> r \<le> 1000)"
proof -
  have slept: "slept s" using thread_invariant [OF assms(1)] by simp
  have range: "te_now s + later < 2 ^ 64" using assms(2) by simp
  note stats = restarted_stats [OF slept range assms(3)]
  have le: "unat (st_sleep st) \<le> unat (st_total st)" using stats by linarith
  have "te_sleep s * 1000 < 2 ^ 64" using stats(3,4) assms(2) by simp
  then have small: "unat (st_sleep st) * 1000 < 2 ^ 64" using stats(1) by simp
  have "st_total st = 0 \<longleftrightarrow> te_now s + later = te_from s"
    using stats(2,4) by (auto simp: unat_eq_0 [symmetric])
  moreover have "unat (st_sleep st * 1000 div st_total st) \<le> 1000"
    using permille_of(2) [OF small] share_le_1000 [OF le] by simp
  ultimately show ?thesis
    using le stats permille_of [OF small] by (auto simp: word_le_nat_alt)
qed

text \<open>C30: the idle share that the executor reports is a share: for a restart of the statistics in any
  reachable state, within the range of the product, the sleep counted fits into the time counted, the
  quotient is exact and at most 1000, and the division panics exactly when no time has passed.
\<close>
theorem idle_share_bounded:
  assumes "thread_reachable s" "(te_now s + later) * 1000 < 2 ^ 64"
    and "current_restart later s = (Ok st, s')"
  shows "st_sleep st \<le> st_total st
    \<and> (as_permille p st = None \<longleftrightarrow> te_now s + later = te_from s)
    \<and> (\<forall>r. as_permille p st = Some r \<longrightarrow>
        unat r = te_sleep s * 1000 div (te_now s + later - te_from s) \<and> r \<le> 1000)"
  using share_of_restart [OF assms] .

text \<open>A second of which the executor slept 400 ms, in milliseconds.\<close>

definition rested_events :: "thread_event list" where
  "rested_events = [ThPoll, ThPolled, ThWait, ThPoll, ThPolled, ThWait, ThTick 400, ThInterrupt, ThWakeup, ThTick 598, ThPoll]"

definition rested :: thread_exec where
  "rested = snd (forA thread_event_run rested_events (thread_boot True 0))"

lemma rested_runs:
  "forA thread_event_run rested_events (thread_boot True 0) = (Ok (), rested)"
  "te_now rested = 998 \<and> te_from rested = 0 \<and> te_sleep rested = 400"
  by (simp_all add: rested_def rested_events_def thread_boot_def thread_event_defs)

lemma rested_reachable: "thread_reachable rested"
  by (rule thread_reachable_run [OF rested_runs(1) thread_reachable.boot])

theorem idle_share_bounded_witness:
  "\<exists>st s'. current_restart 2 rested = ((Ok st :: (unit, sleep_stats) outcome), s') \<and> st_sleep st \<le> st_total st
     \<and> as_permille Dev st = Some 400"
proof -
  obtain st s' where st: "current_restart 2 rested = ((Ok st :: (unit, sleep_stats) outcome), s')"
    by (simp add: current_restart_def Let_def)
  have "(te_now rested + 2) * 1000 < 2 ^ 64" using rested_runs(2) by simp
  from idle_share_bounded [OF rested_reachable this st]
  have "st_sleep st \<le> st_total st \<and> (as_permille p st = None \<longleftrightarrow> te_now rested + 2 = te_from rested)
    \<and> (\<forall>r. as_permille p st = Some r \<longrightarrow>
        unat r = te_sleep rested * 1000 div (te_now rested + 2 - te_from rested) \<and> r \<le> 1000)" for p .
  note share = this [of Dev]
  then obtain r where r: "as_permille Dev st = Some r"
    using rested_runs(2) by auto
  with share rested_runs(2) have "unat r = unat (400 :: u64)" by simp
  then have "r = 400" by (rule unsigned_word_eqI)
  with r st share show ?thesis by blast
qed

section \<open>Interrupt executors\<close>

text \<open>
  A \<open>CallbackContext\<close> holds a pointer to an executor, null at first; an executor lives as long as its
  software interrupt, whose number stands for its address.
\<close>

type_synonym callback_context = "nat option"

definition callback_new :: callback_context where "callback_new = None"

definition callback_get :: "callback_context \<Rightarrow> nat option" where "callback_get c = c"

definition callback_set :: "nat \<Rightarrow> callback_context \<Rightarrow> callback_context" where
  "callback_set executor c = Some executor"

text \<open>
  The executor of a software interrupt: the core it was started on (\<open>usize::MAX\<close> is \<open>None\<close>), the
  slots of \<open>EXECUTORS\<close>, the installed handlers, and for each the number of polls.
\<close>

record intr_exec =
  ie_core :: "nat \<Rightarrow> nat option"
  ie_executors :: "nat \<Rightarrow> callback_context"
  ie_handlers :: "nat \<Rightarrow> bool"
  ie_polls :: "nat \<Rightarrow> nat"

definition intr_new :: intr_exec where
  "intr_new = \<lparr>ie_core = (\<lambda>_. None), ie_executors = (\<lambda>_. callback_new), ie_handlers = (\<lambda>_. False), ie_polls = (\<lambda>_. 0)\<rparr>"

text \<open>\<open>EXECUTORS[SWI]\<close> is out of range from 4 on.\<close>

definition intr_start :: "nat \<Rightarrow> nat \<Rightarrow> (intr_exec, 'e, unit) act" where
  "intr_start core swi s =
     (if ie_core s swi \<noteq> None then (Panic, s)
      else let s1 = s\<lparr>ie_core := (ie_core s)(swi := Some core)\<rparr> in
        if swi < 4 then (Ok (), s1\<lparr>ie_executors := (ie_executors s)(swi := callback_set swi (ie_executors s swi)),
            ie_handlers := (ie_handlers s)(swi := True)\<rparr>)
        else (Panic, s1))"

definition intr_spawner :: "nat \<Rightarrow> (intr_exec, 'e, unit) act" where
  "intr_spawner swi s = (if ie_core s swi = None then (Panic, s) else (Ok (), s))"

definition handle_interrupt :: "nat \<Rightarrow> (intr_exec, 'e, unit) act" where
  "handle_interrupt num s =
     (if num < 4 then
        (case callback_get (ie_executors s num) of
           Some executor \<Rightarrow> (Ok (), s\<lparr>ie_polls := (ie_polls s)(executor := Suc (ie_polls s executor))\<rparr>)
         | None \<Rightarrow> (Panic, s))
      else (Panic, s))"

text \<open>An interrupt whose handler is not installed is not taken.\<close>

datatype intr_event = IntrStart nat nat | IntrSpawner nat | IntrFires nat

fun intr_run :: "intr_event \<Rightarrow> (intr_exec, unit, unit) act" where
  "intr_run (IntrStart core swi) s = intr_start core swi s"
| "intr_run (IntrSpawner swi) s = intr_spawner swi s"
| "intr_run (IntrFires n) s = (if ie_handlers s n then handle_interrupt n s else (Ok (), s))"

definition intr_inv :: "intr_exec \<Rightarrow> bool" where
  "intr_inv s \<longleftrightarrow> (\<forall>n. ie_handlers s n \<longrightarrow> n < 4 \<and> ie_core s n \<noteq> None)
     \<and> (\<forall>n. ie_handlers s n \<longleftrightarrow> ie_executors s n \<noteq> None) \<and> (\<forall>n e. ie_executors s n = Some e \<longrightarrow> e = n)"

lemmas callback_defs = callback_new_def callback_get_def callback_set_def

lemma intr_run_inv: "intr_run ev s = (Ok (), s') \<Longrightarrow> intr_inv s \<Longrightarrow> intr_inv s'"
  by (cases ev) (auto simp: intr_start_def intr_spawner_def handle_interrupt_def intr_inv_def Let_def callback_defs
      split: if_splits option.splits)

lemma handle_interrupt_own:
  assumes "intr_inv s"
  shows "handle_interrupt n s = (if n < 4 \<and> ie_executors s n \<noteq> None
    then (Ok (), s\<lparr>ie_polls := (ie_polls s)(n := Suc (ie_polls s n))\<rparr>) else (Panic, s))"
proof (cases "ie_executors s n")
  case (Some e)
  with assms have "e = n" by (simp add: intr_inv_def)
  with Some show ?thesis by (simp add: handle_interrupt_def callback_get_def)
qed (simp add: handle_interrupt_def callback_get_def)

lemma intr_runs_inv: "forA intr_run evs s = (Ok (), s') \<Longrightarrow> intr_inv s \<Longrightarrow> intr_inv s'"
  by (rule forA_invariant [of intr_run evs s s' intr_inv]) (auto intro: intr_run_inv)

subsection \<open>Properties\<close>

lemma u8_upto_3: "swi < 4 \<longleftrightarrow> swi \<in> {0, 1, 2, 3}" for swi :: u8
proof -
  have "swi < 4 \<longleftrightarrow> unat swi < 4" by (simp add: word_less_nat_alt)
  also have "\<dots> \<longleftrightarrow> unat swi \<in> {unat (0 :: u8), unat (1 :: u8), unat (2 :: u8), unat (3 :: u8)}" by auto
  finally show ?thesis by (simp only: insert_iff empty_iff word_unat_eq_iff)
qed

lemma context_bytes:
  "le_bytes (interrupt_context swi) ! 0 = swi"
  "le_bytes (interrupt_context swi) ! 1 = 0"
  "le_bytes (thread_context core) ! 0 = THREAD_MODE_CONTEXT"
  "le_bytes (thread_context core) ! 1 = core"
proof -
  have "le_bytes (thread_context core) = [THREAD_MODE_CONTEXT, core, 0, 0]"
    unfolding thread_context_def by (rule le_bytes_word) simp
  then show "le_bytes (thread_context core) ! 0 = THREAD_MODE_CONTEXT" "le_bytes (thread_context core) ! 1 = core"
    by simp_all
  show "le_bytes (interrupt_context swi) ! 0 = swi"
    by (rule bit_word_eqI) (simp add: le_bytes_def interrupt_context_def bit_ucast_iff)
  show "le_bytes (interrupt_context swi) ! 1 = 0"
    by (rule bit_word_eqI) (auto simp: le_bytes_def interrupt_context_def bit_ucast_iff dest: bit_imp_le_length)
qed

lemma pender_interrupt:
  "pender (interrupt_context swi) t =
     (if swi < 4 then (Ok (), t\<lparr>swi_raised := swi_raised t @ [unat swi]\<rparr>)
      else if swi = THREAD_MODE_CONTEXT then pend_thread_mode 0 t else (Panic, t))"
  by (auto simp: pender_def Let_def context_bytes u8_upto_3 raise_swi_def modifyA_def panic_def simp del: One_nat_def)

text \<open>the pender sends every wake-up to the executor it is for: the context of a thread-mode executor
  sets the signal of its core and nothing else, the context of an interrupt executor raises its own
  software interrupt, and a core without a signal or a number without an interrupt panics.  (16 would
  be taken for the thread-mode executor of core 0; no interrupt executor of that number can start.)
\<close>
theorem pender_routes:
  "pender (thread_context core) s =
     (if unat core < length (signal_work s)
      then (Ok (), s\<lparr>signal_work := (signal_work s)[unat core := True]\<rparr>) else (Panic, s))
   \<and> pender (interrupt_context swi) t =
     (if swi < 4 then (Ok (), t\<lparr>swi_raised := swi_raised t @ [unat swi]\<rparr>)
      else if swi = THREAD_MODE_CONTEXT then pend_thread_mode 0 t else (Panic, t))"
proof
  show "pender (thread_context core) s =
     (if unat core < length (signal_work s)
      then (Ok (), s\<lparr>signal_work := (signal_work s)[unat core := True]\<rparr>) else (Panic, s))"
    by (simp add: pender_def Let_def context_bytes THREAD_MODE_CONTEXT_def pend_thread_mode_def del: One_nat_def)
qed (rule pender_interrupt)

text \<open>The interrupts of an executor that count: those after its start.\<close>

definition starts :: "nat \<Rightarrow> intr_event \<Rightarrow> bool" where
  "starts n ev \<longleftrightarrow> (case ev of IntrStart _ m \<Rightarrow> m = n | _ \<Rightarrow> False)"

definition fires :: "nat \<Rightarrow> intr_event list \<Rightarrow> nat" where
  "fires n evs = length (filter (\<lambda>ev. ev = IntrFires n) evs)"

lemma intr_run_polls:
  assumes "intr_run ev s = (Ok (), s')" "intr_inv s"
  shows "ie_polls s' n = ie_polls s n + (if ie_handlers s n \<and> ev = IntrFires n then 1 else 0)"
    and "ie_handlers s' n \<longleftrightarrow> ie_handlers s n \<or> starts n ev"
  using assms
  by (cases ev; auto simp: intr_start_def intr_spawner_def handle_interrupt_own [OF assms(2)] starts_def Let_def split: if_splits)+

lemma intr_runs_polls:
  "forA intr_run evs s = (Ok (), s') \<Longrightarrow> intr_inv s \<Longrightarrow>
   ie_polls s' n = ie_polls s n + fires n (if ie_handlers s n then evs else dropWhile (\<lambda>ev. \<not> starts n ev) evs)"
proof (induction evs arbitrary: s)
  case Nil
  then show ?case by (simp add: fires_def ret_def)
next
  case (Cons ev evs)
  from Cons.prems obtain t where t: "intr_run ev s = (Ok (), t)" and rest: "forA intr_run evs t = (Ok (), s')"
    by (auto simp: bindA_def split: prod.splits outcome.splits)
  show ?case
    using Cons.IH [OF rest intr_run_inv [OF t Cons.prems(2)]] intr_run_polls [OF t Cons.prems(2), of n]
    by (auto simp: fires_def starts_def)
qed

text \<open>C31: the life of an interrupt executor, after any run of starts, spawners and interrupts that did not
  panic: every interrupt since its start has polled it, none before; a started one is woken by the
  pender and served by its handler without a panic; starting it again panics; and an executor that was
  not started gives no spawner, and starts exactly when it has a slot.
\<close>
theorem interrupt_executor_life:
  assumes "forA intr_run evs intr_new = (Ok (), s)"
  shows "ie_polls s n = fires n (dropWhile (\<lambda>ev. \<not> starts n ev) evs)
    \<and> (ie_handlers s n \<longrightarrow>
        pender (interrupt_context (of_nat n)) p = (Ok (), p\<lparr>swi_raised := swi_raised p @ [n]\<rparr>)
        \<and> handle_interrupt n s = (Ok (), s\<lparr>ie_polls := (ie_polls s)(n := Suc (ie_polls s n))\<rparr>)
        \<and> intr_start core n s = (Panic, s) \<and> intr_spawner n s = (Ok (), s))
    \<and> (ie_core s n = None \<longrightarrow>
        intr_spawner n s = (Panic, s) \<and> (fst (intr_start core n s) = Ok () \<longleftrightarrow> n < 4))"
proof (intro conjI impI)
  have inv: "intr_inv s" by (rule intr_runs_inv [OF assms]) (simp add: intr_inv_def intr_new_def callback_new_def)
  show "ie_polls s n = fires n (dropWhile (\<lambda>ev. \<not> starts n ev) evs)"
    using intr_runs_polls [OF assms, of n] by (simp add: intr_new_def intr_inv_def callback_new_def)
  assume "ie_handlers s n"
  with inv have n: "n < 4" "ie_executors s n = Some n" "ie_core s n \<noteq> None" by (auto simp: intr_inv_def)
  then have "(of_nat n :: u8) < 4" "unat (of_nat n :: u8) = n"
    by (simp_all add: word_less_nat_alt unat_of_nat take_bit_nat_eq_self)
  then show "pender (interrupt_context (of_nat n)) p = (Ok (), p\<lparr>swi_raised := swi_raised p @ [n]\<rparr>)"
    by (simp add: pender_interrupt)
  show "handle_interrupt n s = (Ok (), s\<lparr>ie_polls := (ie_polls s)(n := Suc (ie_polls s n))\<rparr>)"
    "intr_start core n s = (Panic, s)" "intr_spawner n s = (Ok (), s)"
    using n by (simp_all add: handle_interrupt_def callback_get_def intr_start_def intr_spawner_def)
next
  assume "ie_core s n = None"
  then show "intr_spawner n s = (Panic, s)" "fst (intr_start core n s) = Ok () \<longleftrightarrow> n < 4"
    by (simp_all add: intr_spawner_def intr_start_def Let_def)
qed

theorem interrupt_executor_life_witness:
  "\<exists>s. forA intr_run [IntrFires 2, IntrStart 0 2, IntrFires 2, IntrSpawner 2, IntrFires 2] intr_new = (Ok (), s)
     \<and> ie_polls s 2 = 2 \<and> intr_start 0 2 s = ((Panic :: (unit, unit) outcome), s)"
proof -
  obtain s where run: "forA intr_run [IntrFires 2, IntrStart 0 2, IntrFires 2, IntrSpawner 2, IntrFires 2] intr_new
      = (Ok (), s)" and "ie_handlers s 2"
    by (simp add: intr_new_def intr_start_def intr_spawner_def handle_interrupt_def callback_defs bindA_def ret_def Let_def)
  note life = interrupt_executor_life [OF run, where n = 2 and core = 0 and p = "\<lparr>signal_work = [], swi_raised = []\<rparr>"]
  have "ie_polls s 2 = 2" by (simp only: life [THEN conjunct1]) (simp add: fires_def starts_def)
  moreover have "intr_start 0 2 s = ((Panic :: (unit, unit) outcome), s)"
    using \<open>ie_handlers s 2\<close> by (simp add: life [THEN conjunct2, THEN conjunct1, rule_format])
  ultimately show ?thesis using run by blast
qed

end
