(* ===== verification/Stats.thy ===== *)
theory Stats
  imports Json Power_Ext Executors
begin

text \<open>
  \<open>systems/stats.rs\<close>: the task that reads the three supply voltages once a second, adds the up-time,
  the idle share of the executor and the state of the output, keeps the result and publishes it.
  The converter is a parameter; the executor and the output supply are their models.
\<close>

section \<open>Scaling\<close>

definition factor_vprog :: "profile \<Rightarrow> u16 \<Rightarrow> millivolts option" where
  "factor_vprog p value = do {
     x \<leftarrow> rust_mul p value 2;
     Some (Millivolts x) }"

definition factor_high :: "profile \<Rightarrow> u16 \<Rightarrow> millivolts option" where
  "factor_high p value = do {
     x \<leftarrow> rust_mul p (ucast value :: u32) 987;
     q \<leftarrow> rust_div x 100;
     Some (Millivolts (ucast q)) }"

lemma factor_high_cast:
  "factor_high p raw = Some (Millivolts (of_nat (unat raw * 987 div 100)))"
proof -
  let ?v = "ucast raw :: u32"
  have "unat ?v * unat (987 :: u32) < 2 ^ LENGTH(32)" using unat_u16_bound [of raw] by simp
  from rust_mul_exact [OF this] have m: "rust_mul p ?v 987 = Some (?v * 987)" "unat (?v * 987) = unat raw * 987"
    by simp_all
  then have "unat (?v * 987 div 100) = unat raw * 987 div 100" by (simp add: unat_div_distrib)
  then have "ucast (?v * 987 div 100) = (of_nat (unat raw * 987 div 100) :: u16)"
    by (rule ucast_eq_of_nat)
  then show ?thesis by (simp add: factor_high_def m rust_div_def)
qed

lemma factor_high_exact:
  assumes "unat raw \<le> 6639"
  shows "\<exists>v. factor_high p raw = Some v \<and> unat (mv_of v) = unat raw * 987 div 100"
proof -
  have "unat raw * 987 div 100 < 2 ^ LENGTH(16)" using assms by simp
  from unat_of_nat_small [OF this] show ?thesis by (simp add: factor_high_cast)
qed

lemma factor_vprog_exact:
  assumes "unat raw < 32768"
  shows "\<exists>v. factor_vprog p raw = Some v \<and> unat (mv_of v) = unat raw * 2"
proof -
  have "unat raw * unat (2 :: u16) < 2 ^ LENGTH(16)" using assms by simp
  from rust_mul_exact [OF this] show ?thesis by (simp add: factor_vprog_def)
qed

section \<open>State\<close>

record stats_data =
  stats_vsupply_mv :: millivolts
  stats_vprog_mv :: millivolts
  stats_vout_mv :: millivolts
  uptime_secs :: u64
  idle_permille :: u64
  vout_state :: power_state

datatype stats_pin = PinVsupply | PinVprog | PinVout

text \<open>What else runs on the device and is read by the task.\<close>

record ('b, 'w) stats_host =
  host_exec :: thread_exec
  host_power :: "('b, 'w) power_ext"

record ('a, 'b, 'w, 'q) stats =
  stats_adc :: 'a
  stats_host :: "('b, 'w) stats_host"
  stats_latest :: "stats_data option"
  stats_notifier :: 'q
  stats_warnings :: nat

definition stats_init :: "('q, stats_data) pubsub_ops \<Rightarrow> 'a \<Rightarrow> ('b, 'w) stats_host \<Rightarrow> ('a, 'b, 'w, 'q) stats" where
  "stats_init ps adc host = \<lparr>stats_adc = adc, stats_host = host, stats_latest = None,
     stats_notifier = ps_new ps, stats_warnings = 0\<rparr>"

definition latest_data :: "(('a, 'b, 'w, 'q) stats, 'e, stats_data option) act" where
  "latest_data = readA stats_latest"

section \<open>Waiting for the converter\<close>

text \<open>\<open>nb::Result\<close>.  \<open>wait\<close> is the timer of one millisecond, \<open>polls\<close> the calls of \<open>f\<close> that are made.\<close>

datatype ('e, 'a) nb = NbOk 'a | WouldBlock | NbOther 'e

fun poll_until_ready :: "('s, 'e, unit) act \<Rightarrow> ('s \<Rightarrow> ('e, 'a) nb \<times> 's) \<Rightarrow> nat \<Rightarrow> ('s, 'e, 'a) act" where
  "poll_until_ready wait f 0 = pending"
| "poll_until_ready wait f (Suc polls) = (\<lambda>s. case f s of
       (NbOk x, s') \<Rightarrow> (Ok x, s')
     | (WouldBlock, s') \<Rightarrow> seqA wait (poll_until_ready wait f polls) s'
     | (NbOther e, s') \<Rightarrow> (Err e, s'))"

text \<open>
  The one-shot driver of esp-hal, \<open>read_oneshot\<close>, and a timer, with what runs on the device while the
  task waits for it.
\<close>

type_synonym 'a adc_ops = "stats_pin \<Rightarrow> 'a \<Rightarrow> (unit, u16) nb \<times> 'a"
type_synonym ('b, 'w) timer_ops = "duration \<Rightarrow> (('b, 'w) stats_host, unit, unit) act"

definition stats_read :: "time_ops \<Rightarrow> 'a adc_ops \<Rightarrow> ('b, 'w) timer_ops \<Rightarrow> nat \<Rightarrow> stats_pin \<Rightarrow>
    (('a, 'b, 'w, 'q) stats, unit, u16) act" where
  "stats_read tm adc after polls pin =
     unwrapA (poll_until_ready
       (zoom stats_host (\<lambda>h s. s\<lparr>stats_host := h\<rparr>) (after (from_millis tm 1)))
       (\<lambda>s. case adc pin (stats_adc s) of (r, a) \<Rightarrow> (r, s\<lparr>stats_adc := a\<rparr>)) polls)"

section \<open>The task\<close>

text \<open>The publisher of the task is taken once and kept.\<close>

definition stats_start :: "('q, stats_data) pubsub_ops \<Rightarrow> (('a, 'b, 'w, 'q) stats, 'e, unit) act" where
  "stats_start ps = zoom stats_notifier (\<lambda>q s. s\<lparr>stats_notifier := q\<rparr>) (take_publisher ps)"

text \<open>\<open>try_publish\<close> fails where \<open>publish\<close> would wait.\<close>

definition stats_publish :: "('q, stats_data) pubsub_ops \<Rightarrow> stats_data \<Rightarrow> (('a, 'b, 'w, 'q) stats, 'e, unit) act" where
  "stats_publish ps data s =
     (case ps_publish ps data (stats_notifier s) of
        Some q \<Rightarrow> (Ok (), s\<lparr>stats_notifier := q\<rparr>)
      | None \<Rightarrow> (Ok (), s\<lparr>stats_warnings := Suc (stats_warnings s)\<rparr>))"

abbreviation on_exec :: "(thread_exec, 'e, 'x) act \<Rightarrow> (('a, 'b, 'w, 'q) stats, 'e, 'x) act" where
  "on_exec m \<equiv> zoom stats_host (\<lambda>h s. s\<lparr>stats_host := h\<rparr>) (zoom host_exec (\<lambda>x h. h\<lparr>host_exec := x\<rparr>) m)"

abbreviation on_power :: "(('b, 'w) power_ext, 'e, 'x) act \<Rightarrow> (('a, 'b, 'w, 'q) stats, 'e, 'x) act" where
  "on_power m \<equiv> zoom stats_host (\<lambda>h s. s\<lparr>stats_host := h\<rparr>) (zoom host_power (\<lambda>x h. h\<lparr>host_power := x\<rparr>) m)"

text \<open>One turn of the loop, up to the ticker; \<open>later\<close> passes between the two readings of the clock.\<close>

definition stats_collect :: "profile \<Rightarrow> time_ops \<Rightarrow> ('q, stats_data) pubsub_ops \<Rightarrow> nat \<Rightarrow>
    u16 \<Rightarrow> u16 \<Rightarrow> u16 \<Rightarrow> (('a, 'b, 'w, 'q) stats, unit, unit) act" where
  "stats_collect p tm ps later vsupply vprog vout =
     bindA (unwrapO (factor_high p vsupply)) (\<lambda>vsupply_mv.
     bindA (unwrapO (factor_vprog p vprog)) (\<lambda>vprog_mv.
     bindA (unwrapO (factor_high p vout)) (\<lambda>vout_mv.
     bindA (on_exec (readA te_now)) (\<lambda>now.
     bindA (on_exec (current_restart later)) (\<lambda>sleep.
     bindA (unwrapO (as_permille p sleep)) (\<lambda>idle.
     bindA (on_power power_ext_state) (\<lambda>state.
     let data = \<lparr>stats_vsupply_mv = vsupply_mv, stats_vprog_mv = vprog_mv, stats_vout_mv = vout_mv,
           uptime_secs = of_nat (as_secs tm now), idle_permille = idle, vout_state = state\<rparr>
     in seqA (modifyA (\<lambda>s. s\<lparr>stats_latest := Some data\<rparr>)) (stats_publish ps data))))))))"

definition stats_turn :: "profile \<Rightarrow> time_ops \<Rightarrow> 'a adc_ops \<Rightarrow> ('b, 'w) timer_ops \<Rightarrow>
    ('q, stats_data) pubsub_ops \<Rightarrow> nat \<Rightarrow> nat \<Rightarrow> (('a, 'b, 'w, 'q) stats, unit, unit) act" where
  "stats_turn p tm adc after ps polls later =
     bindA (stats_read tm adc after polls PinVsupply) (\<lambda>vsupply.
     bindA (stats_read tm adc after polls PinVprog) (\<lambda>vprog.
     bindA (stats_read tm adc after polls PinVout) (\<lambda>vout.
       stats_collect p tm ps later vsupply vprog vout)))"

section \<open>The converter and the timer\<close>

text \<open>
  What the drivers promise: \<open>read_oneshot\<close> answers \<open>WouldBlock\<close> while the conversion of the pin runs,
  and then the level it measured, other pins aside; a timer completes while the task is polled by
  its executor, after the duration at the earliest, and the task is the only one that restarts the
  statistics.
\<close>

locale adc_driver =
  fixes adc :: "'a adc_ops" and blocks :: "'a \<Rightarrow> stats_pin \<Rightarrow> nat" and level :: "'a \<Rightarrow> stats_pin \<Rightarrow> u16"
  assumes ready: "blocks a pin = 0 \<Longrightarrow> \<exists>a'. adc pin a = (NbOk (level a pin), a') \<and> level a' = level a
      \<and> (\<forall>q. q \<noteq> pin \<longrightarrow> blocks a' q = blocks a q)"
    and busy: "blocks a pin = Suc n \<Longrightarrow> \<exists>a'. adc pin a = (WouldBlock, a') \<and> level a' = level a
      \<and> blocks a' = (blocks a)(pin := n)"

definition awake :: "('b, 'w) stats_host \<Rightarrow> bool" where
  "awake h \<longleftrightarrow> thread_reachable (host_exec h) \<and> te_pc (host_exec h) = TPolling"

definition passes :: "duration \<Rightarrow> ('b, 'w) stats_host \<Rightarrow> ('b, 'w) stats_host \<Rightarrow> bool" where
  "passes d h h' \<longleftrightarrow> awake h' \<and> te_from (host_exec h') = te_from (host_exec h)
     \<and> te_now (host_exec h) + d \<le> te_now (host_exec h')"

locale host_timer =
  fixes after :: "('b, 'w) timer_ops"
  assumes after_passes: "awake h \<Longrightarrow> \<exists>h'. after d h = (Ok (), h') \<and> passes d h h'"

locale stats_peers = adc_driver adc blocks level + host_timer after
  for adc :: "'a adc_ops" and blocks level and after :: "('b, 'w) timer_ops"
begin

text \<open>A pin that blocks \<open>k\<close> times is read in \<open>k + 1\<close> polls, \<open>k\<close> milliseconds later at the earliest.\<close>

lemma poll_reads:
  fixes s :: "('a, 'b, 'w, 'q) stats"
  assumes "awake (stats_host s)" "blocks (stats_adc s) pin < polls"
  shows "\<exists>a h. stats_read tm adc after polls pin s = (Ok (level (stats_adc s) pin), s\<lparr>stats_adc := a, stats_host := h\<rparr>)
    \<and> level a = level (stats_adc s) \<and> (\<forall>q. q \<noteq> pin \<longrightarrow> blocks a q = blocks (stats_adc s) q)
    \<and> passes (blocks (stats_adc s) pin * from_millis tm 1) (stats_host s) h"
  using assms
proof (induction polls arbitrary: s)
  case (Suc polls)
  show ?case
  proof (cases "blocks (stats_adc s) pin")
    case 0
    from ready [OF this] obtain a where "adc pin (stats_adc s) = (NbOk (level (stats_adc s) pin), a)"
      and "level a = level (stats_adc s)" "\<forall>q. q \<noteq> pin \<longrightarrow> blocks a q = blocks (stats_adc s) q" by blast
    with 0 Suc.prems show ?thesis
      by (intro exI [of _ a] exI [of _ "stats_host s"]) (simp add: stats_read_def unwrapA_def passes_def)
  next
    case (Suc n)
    from busy [OF this] obtain a where a: "adc pin (stats_adc s) = (WouldBlock, a)"
      and la: "level a = level (stats_adc s)" and ba: "blocks a = (blocks (stats_adc s))(pin := n)" by blast
    from after_passes [OF Suc.prems(1), of "from_millis tm 1"] obtain h
      where h: "after (from_millis tm 1) (stats_host s) = (Ok (), h)"
        "passes (from_millis tm 1) (stats_host s) h" by blast
    let ?s = "s\<lparr>stats_adc := a, stats_host := h\<rparr>"
    have rest: "stats_read tm adc after (Suc polls) pin s = stats_read tm adc after polls pin ?s"
      by (simp add: stats_read_def unwrapA_def a bindA_def zoom_def h(1) del: One_nat_def)
    have "awake (stats_host ?s)" "blocks (stats_adc ?s) pin < polls"
      using h(2) ba Suc Suc.prems(2) by (simp_all add: passes_def)
    from Suc.IH [OF this] obtain a2 h2 where
      "stats_read tm adc after polls pin ?s = (Ok (level a pin), s\<lparr>stats_adc := a2, stats_host := h2\<rparr>)"
      "level a2 = level a" "\<forall>q. q \<noteq> pin \<longrightarrow> blocks a2 q = blocks a q" "passes (n * from_millis tm 1) h h2"
      by (auto simp: ba simp del: One_nat_def)
    with rest la ba h(2) Suc show ?thesis
      by (intro exI [of _ a2] exI [of _ h2]) (simp add: passes_def del: One_nat_def)
  qed
qed simp

text \<open>The three readings of a turn.\<close>

lemma reads:
  fixes s :: "('a, 'b, 'w, 'q) stats"
  assumes "awake (stats_host s)" "\<forall>pin. blocks (stats_adc s) pin < polls"
  shows "\<exists>a h. stats_turn p tm adc after ps polls later s
      = stats_collect p tm ps later (level (stats_adc s) PinVsupply) (level (stats_adc s) PinVprog)
          (level (stats_adc s) PinVout) (s\<lparr>stats_adc := a, stats_host := h\<rparr>)
    \<and> passes 0 (stats_host s) h"
proof -
  from poll_reads [OF assms(1), of PinVsupply polls tm] assms(2) obtain a1 h1 where
    r1: "stats_read tm adc after polls PinVsupply s =
      (Ok (level (stats_adc s) PinVsupply), s\<lparr>stats_adc := a1, stats_host := h1\<rparr>)" (is "_ = (_, ?s1)")
    and l1: "level a1 = level (stats_adc s)" "\<forall>q. q \<noteq> PinVsupply \<longrightarrow> blocks a1 q = blocks (stats_adc s) q"
      "passes 0 (stats_host s) h1" by (auto simp: passes_def simp del: One_nat_def)
  from poll_reads [of ?s1 PinVprog polls tm] assms(2) l1 obtain a2 h2 where
    r2: "stats_read tm adc after polls PinVprog ?s1 =
      (Ok (level (stats_adc s) PinVprog), s\<lparr>stats_adc := a2, stats_host := h2\<rparr>)" (is "_ = (_, ?s2)")
    and l2: "level a2 = level (stats_adc s)" "blocks a2 PinVout = blocks (stats_adc s) PinVout"
      "passes 0 (stats_host s) h2" by (auto simp: passes_def simp del: One_nat_def)
  from poll_reads [of ?s2 PinVout polls tm] assms(2) l2 obtain a3 h3 where
    r3: "stats_read tm adc after polls PinVout ?s2 =
      (Ok (level (stats_adc s) PinVout), s\<lparr>stats_adc := a3, stats_host := h3\<rparr>)"
    and l3: "passes 0 (stats_host s) h3" by (auto simp: passes_def simp del: One_nat_def)
  show ?thesis
    by (rule exI [of _ a3], rule exI [of _ h3]) (simp add: stats_turn_def bindA_def r1 r2 r3 l3)
qed

end

section \<open>A turn\<close>

text \<open>What a report says of the levels and of the device at the time of the report.\<close>

definition stats_report :: "time_ops \<Rightarrow> (stats_pin \<Rightarrow> u16) \<Rightarrow> nat \<Rightarrow> ('b, 'w) stats_host \<Rightarrow> stats_data \<Rightarrow> bool" where
  "stats_report tm l later h d \<longleftrightarrow>
     unat (mv_of (stats_vsupply_mv d)) = unat (l PinVsupply) * 987 div 100
   \<and> unat (mv_of (stats_vprog_mv d)) = unat (l PinVprog) * 2
   \<and> unat (mv_of (stats_vout_mv d)) = unat (l PinVout) * 987 div 100
   \<and> uptime_secs d = of_nat (as_secs tm (te_now (host_exec h)))
   \<and> unat (idle_permille d) = te_sleep (host_exec h) * 1000
       div (te_now (host_exec h) + later - te_from (host_exec h))
   \<and> idle_permille d \<le> 1000
   \<and> vout_state d = pi_state (px_inner (host_power h))"

definition in_range :: "(stats_pin \<Rightarrow> u16) \<Rightarrow> bool" where
  "in_range l \<longleftrightarrow> unat (l PinVsupply) \<le> 6639 \<and> unat (l PinVprog) < 32768 \<and> unat (l PinVout) \<le> 6639"

definition restarted :: "nat \<Rightarrow> ('b, 'w) stats_host \<Rightarrow> ('b, 'w) stats_host" where
  "restarted later h = h\<lparr>host_exec := (host_exec h)\<lparr>te_sleep := 0, te_from := te_now (host_exec h),
     te_now := te_now (host_exec h) + later\<rparr>\<rparr>"

lemma restarted_awake: "awake h \<Longrightarrow> awake (restarted later h)"
  using thread_reachable.event [of "host_exec h" "ThRestart later"]
  by (simp add: awake_def restarted_def thread_event_defs)

lemma collect_run:
  fixes s :: "('a, 'b, 'w, 'q) stats"
  assumes "awake (stats_host s)" "in_range l"
    and "(te_now (host_exec (stats_host s)) + later) * 1000 < 2 ^ 64"
    and "te_from (host_exec (stats_host s)) < te_now (host_exec (stats_host s)) + later"
  shows "\<exists>d. stats_collect p tm ps later (l PinVsupply) (l PinVprog) (l PinVout) s
      = stats_publish ps d (s\<lparr>stats_host := restarted later (stats_host s), stats_latest := Some d\<rparr>)
    \<and> stats_report tm l later (stats_host s) d"
proof -
  let ?x = "host_exec (stats_host s)"
  from factor_high_exact [of "l PinVsupply" p] factor_high_exact [of "l PinVout" p]
    factor_vprog_exact [of "l PinVprog" p] assms(2)
  obtain v1 v2 v3 where v: "factor_high p (l PinVsupply) = Some v1" "unat (mv_of v1) = unat (l PinVsupply) * 987 div 100"
    "factor_vprog p (l PinVprog) = Some v2" "unat (mv_of v2) = unat (l PinVprog) * 2"
    "factor_high p (l PinVout) = Some v3" "unat (mv_of v3) = unat (l PinVout) * 987 div 100"
    by (auto simp: in_range_def)
  obtain st where st: "current_restart later ?x = ((Ok st :: (unit, sleep_stats) outcome),
      host_exec (restarted later (stats_host s)))"
    by (simp add: current_restart_def restarted_def Let_def)
  have "thread_reachable ?x" using assms(1) by (simp add: awake_def)
  from share_of_restart [OF this assms(3) st, of p] assms(4) obtain r where
    "as_permille p st = Some r" "unat r = te_sleep ?x * 1000 div (te_now ?x + later - te_from ?x)" "r \<le> 1000"
    by auto
  with v st show ?thesis
    by (intro exI [of _ "\<lparr>stats_vsupply_mv = v1, stats_vprog_mv = v2, stats_vout_mv = v3,
          uptime_secs = of_nat (as_secs tm (te_now ?x)), idle_permille = r,
          vout_state = pi_state (px_inner (host_power (stats_host s)))\<rparr>"])
      (simp add: stats_collect_def bindA_def zoom_def readA_def modifyA_def power_ext_state_def Let_def
        stats_report_def restarted_def ret_def)
qed

lemma stats_publish_keeps:
  "stats_publish ps d s = (res, s') \<Longrightarrow> res = Ok () \<and> stats_host s' = stats_host s \<and> stats_latest s' = stats_latest s"
  by (auto simp: stats_publish_def split: option.splits)

lemma collect_clock:
  fixes s :: "('a, 'b, 'w, 'q) stats"
  assumes "stats_collect p tm ps later a b c s = (res, s')" "in_range l"
    and "a = l PinVsupply" "b = l PinVprog" "c = l PinVout"
  shows "te_now (host_exec (stats_host s')) = te_now (host_exec (stats_host s)) + later"
proof -
  from factor_high_exact [of a p] factor_high_exact [of c p] factor_vprog_exact [of b p] assms(2-5)
  obtain v1 v2 v3 where v: "factor_high p a = Some v1" "factor_vprog p b = Some v2" "factor_high p c = Some v3"
    by (auto simp: in_range_def)
  show ?thesis
    using assms(1)
    by (auto simp: stats_collect_def v bindA_def zoom_def readA_def modifyA_def power_ext_state_def Let_def
        current_restart_def unwrapO_def ret_def panic_def split: option.splits dest!: stats_publish_keeps)
qed

lemma publish_run:
  assumes "pubsub ps history publishers backlog" "stats_publish ps d s = (res, s')"
  shows "if backlog (stats_notifier s) < DATA_CAP
   then history (stats_notifier s') = history (stats_notifier s) @ [d] \<and> stats_warnings s' = stats_warnings s
   else stats_notifier s' = stats_notifier s \<and> stats_warnings s' = Suc (stats_warnings s)"
proof (cases "backlog (stats_notifier s) < DATA_CAP")
  case True
  with pubsub.publish_room [OF assms(1), of "stats_notifier s" d] obtain q where
    "ps_publish ps d (stats_notifier s) = Some q" "history q = history (stats_notifier s) @ [d]" by blast
  with True assms(2) show ?thesis by (auto simp: stats_publish_def)
next
  case False
  with pubsub.publish_full [OF assms(1), of "stats_notifier s" d] assms(2) show ?thesis
    by (auto simp: stats_publish_def)
qed

section \<open>A simulated converter\<close>

text \<open>
  A pin converts for as many readings as the first component says.  The timer wakes the executor by an
  interrupt: it goes to sleep, once more when its signal was still set, and polls the task again.
\<close>

type_synonym sim_adc = "(stats_pin \<Rightarrow> nat) \<times> (stats_pin \<Rightarrow> u16)"

definition sim_adc_read :: "sim_adc adc_ops" where
  "sim_adc_read pin a = (case a of (bs, l) \<Rightarrow>
     (case bs pin of 0 \<Rightarrow> (NbOk (l pin), (bs(pin := 3), l))
      | Suc n \<Rightarrow> (WouldBlock, (bs(pin := n), l))))"

definition nap_events :: "duration \<Rightarrow> thread_exec \<Rightarrow> thread_event list" where
  "nap_events d x = [ThPolled, ThWait] @ (if te_signal x then [ThPoll, ThPolled, ThWait] else [])
     @ [ThTick d, ThInterrupt, ThWakeup, ThServe True, ThPoll]"

definition sim_after :: "('b, 'w) timer_ops" where
  "sim_after d = (\<lambda>h. zoom host_exec (\<lambda>x h. h\<lparr>host_exec := x\<rparr>)
     (forA thread_event_run (nap_events d (host_exec h))) h)"

interpretation sim_adc: adc_driver sim_adc_read fst snd
  by unfold_locales (auto simp: sim_adc_read_def split: prod.split nat.split)

lemma nap_run:
  assumes "te_pc x = TPolling"
  shows "\<exists>x'. forA thread_event_run (nap_events d x) x = (Ok (), x') \<and> te_pc x' = TPolling
    \<and> te_from x' = te_from x \<and> te_now x' = te_now x + d"
  using assms by (cases "te_signal x") (simp_all add: nap_events_def thread_event_defs)

lemma sim_after_passes:
  assumes h: "awake h"
  shows "\<exists>h'. sim_after d h = (Ok (), h') \<and> passes d h h'"
proof -
  from h nap_run [of "host_exec h" d] obtain x where
    x: "forA thread_event_run (nap_events d (host_exec h)) (host_exec h) = (Ok (), x)"
    "te_pc x = TPolling" "te_from x = te_from (host_exec h)" "te_now x = te_now (host_exec h) + d"
    by (auto simp: awake_def)
  from thread_reachable_run [OF x(1)] h have "thread_reachable x" by (simp add: awake_def)
  with x show ?thesis
    by (simp add: sim_after_def zoom_def passes_def awake_def)
qed

interpretation sim_timer: host_timer sim_after
  by unfold_locales (rule sim_after_passes)

interpretation sim_stats: stats_peers sim_adc_read fst snd sim_after
  by (intro stats_peers.intro sim_adc.adc_driver_axioms sim_timer.host_timer_axioms)

section \<open>Properties\<close>

text \<open>C21: A turn of the statistics task returns, whatever the subscribers do: with a converter that becomes
  ready within the polls and levels in range, it neither waits for its queue nor panics when time has
  passed since the last turn; what it keeps is the report of the levels, the up-time, the idle share
  and the state of the output at that time, and that report is published when the queue has room and
  a warning is counted when it has none.\<close>

theorem stats_turn_reports:
  fixes s :: "('a, 'b, 'w, 'q) stats"
  assumes "stats_peers adc blocks level after" "pubsub ps history publishers backlog"
    and "awake (stats_host s)" "\<forall>pin. blocks (stats_adc s) pin < polls" "in_range (level (stats_adc s))"
    and "te_from (host_exec (stats_host s)) < te_now (host_exec (stats_host s)) + later"
    and "stats_turn p tm adc after ps polls later s = (res, s')"
    and "te_now (host_exec (stats_host s')) * 1000 < 2 ^ 64"
  shows "res = Ok () \<and> awake (stats_host s')
    \<and> (\<exists>h d. passes 0 (stats_host s) h \<and> stats_host s' = restarted later h
        \<and> stats_report tm (level (stats_adc s)) later h d \<and> stats_latest s' = Some d
        \<and> (if backlog (stats_notifier s) < DATA_CAP
            then history (stats_notifier s') = history (stats_notifier s) @ [d] \<and> stats_warnings s' = stats_warnings s
            else stats_notifier s' = stats_notifier s \<and> stats_warnings s' = Suc (stats_warnings s)))"
proof -
  let ?l = "level (stats_adc s)"
  from stats_peers.reads [OF assms(1,3,4), of p tm ps later] obtain a h where
    run: "stats_turn p tm adc after ps polls later s = stats_collect p tm ps later (?l PinVsupply) (?l PinVprog)
      (?l PinVout) (s\<lparr>stats_adc := a, stats_host := h\<rparr>)" and h: "passes 0 (stats_host s) h" by blast
  let ?s = "s\<lparr>stats_adc := a, stats_host := h\<rparr>"
  have collect: "stats_collect p tm ps later (?l PinVsupply) (?l PinVprog) (?l PinVout) ?s = (res, s')"
    using assms(7) by (simp add: run)
  from collect_clock [OF this assms(5)] have clock: "te_now (host_exec (stats_host s')) = te_now (host_exec h) + later"
    by simp
  have "awake (stats_host ?s)" using h by (simp add: passes_def)
  from collect_run [OF this assms(5), of later p tm ps] clock assms(6,8) h obtain d where
    d: "stats_collect p tm ps later (?l PinVsupply) (?l PinVprog) (?l PinVout) ?s
      = stats_publish ps d (?s\<lparr>stats_host := restarted later h, stats_latest := Some d\<rparr>)"
    "stats_report tm ?l later h d" by (auto simp: passes_def)
  from stats_publish_keeps [of ps d _ res s'] collect d(1) have "res = Ok ()" "stats_host s' = restarted later h"
    "stats_latest s' = Some d" by simp_all
  moreover have "awake (restarted later h)" using h restarted_awake by (auto simp: passes_def)
  moreover have "if backlog (stats_notifier s) < DATA_CAP
      then history (stats_notifier s') = history (stats_notifier s) @ [d] \<and> stats_warnings s' = stats_warnings s
      else stats_notifier s' = stats_notifier s \<and> stats_warnings s' = Suc (stats_warnings s)"
    using publish_run [OF assms(2) collect [unfolded d(1)]] by simp
  ultimately show ?thesis using h d(2) by auto
qed

text \<open>A device that has slept for 400 of its first 998 milliseconds, with a converter that blocks once.\<close>

definition sim_device :: "(sim_adc, sim_tps, ref_peers, stats_data list \<times> nat \<times> nat) stats" where
  "sim_device = stats_init ref_ps ((\<lambda>pin. if pin = PinVout then 1 else 0), \<lambda>_. 1000)
     \<lparr>host_exec = rested, host_power = ref_boot\<rparr>"

abbreviation sim_turn :: "((sim_adc, sim_tps, ref_peers, stats_data list \<times> nat \<times> nat) stats, unit, unit) act" where
  "sim_turn \<equiv> stats_turn Dev ref_tm sim_adc_read sim_after ref_ps 2 2"

lemma rested_state:
  "rested = \<lparr>te_pc = TPolling, te_signal = False, te_work = False, te_irq = True,
     te_sleep = 400, te_from = 0, te_now = 998\<rparr>"
  by (simp add: rested_def rested_events_def thread_boot_def thread_event_defs)

lemma sim_turn_reads:
  "\<exists>s. sim_turn sim_device = stats_collect Dev ref_tm ref_ps 2 1000 1000 1000 s \<and> te_now (host_exec (stats_host s)) = 1998"
  by (simp add: stats_turn_def stats_read_def sim_device_def stats_init_def bindA_def unwrapA_def
      numeral_2_eq_2 sim_adc_read_def sim_after_def nap_events_def zoom_def rested_state thread_event_defs
      ref_tm_def) (rule exI, rule conjI, rule refl, simp)

lemma sim_turn_clock:
  assumes "sim_turn sim_device = (res, s')"
  shows "te_now (host_exec (stats_host s')) = 2000"
proof -
  from sim_turn_reads assms obtain s where "stats_collect Dev ref_tm ref_ps 2 1000 1000 1000 s = (res, s')"
    "te_now (host_exec (stats_host s)) = 1998" by auto
  then show ?thesis
    using collect_clock [of Dev ref_tm ref_ps 2 1000 1000 1000 s res s' "\<lambda>_. 1000"] by (simp add: in_range_def)
qed

theorem stats_turn_reports_witness:
  "\<exists>s' d. sim_turn sim_device = (Ok (), s') \<and> stats_latest s' = Some d
    \<and> fst (stats_notifier s') = [d] \<and> unat (mv_of (stats_vout_mv d)) = 9870 \<and> idle_permille d \<le> 1000"
proof -
  obtain res s' where run: "sim_turn sim_device = (res, s')" by fastforce
  have start: "stats_peers sim_adc_read fst snd sim_after"
    "pubsub ref_ps fst (\<lambda>q. fst (snd q)) (\<lambda>q. snd (snd q))"
    by (rule sim_stats.stats_peers_axioms rps.pubsub_axioms)+
  have ready: "awake (stats_host sim_device)" "\<forall>pin. fst (stats_adc sim_device) pin < 2"
    "in_range (snd (stats_adc sim_device))"
    "te_from (host_exec (stats_host sim_device)) < te_now (host_exec (stats_host sim_device)) + 2"
    using rested_reachable by (simp_all add: awake_def sim_device_def stats_init_def in_range_def rested_state)
  have "te_now (host_exec (stats_host s')) * 1000 < 2 ^ 64" by (simp add: sim_turn_clock [OF run])
  from stats_turn_reports [OF start ready run this] obtain h d where
    "res = Ok ()" "stats_host s' = restarted 2 h" "stats_report ref_tm (snd (stats_adc sim_device)) 2 h d" "stats_latest s' = Some d"
    "if snd (snd (stats_notifier sim_device)) < DATA_CAP
     then fst (stats_notifier s') = fst (stats_notifier sim_device) @ [d] \<and> stats_warnings s' = stats_warnings sim_device
     else stats_notifier s' = stats_notifier sim_device \<and> stats_warnings s' = Suc (stats_warnings sim_device)"
    by blast
  with run show ?thesis
    by (intro exI [of _ s'] exI [of _ d])
      (simp add: sim_device_def stats_init_def ref_ps_def DATA_CAP_def stats_report_def)
qed

text \<open>C36: The scaling of the converter readings: up to 6639 mV at the pin the divider of the supply and of
  the output is computed exactly and keeps the order of readings, and the next reading is cut to 0 mV;
  the divider of the programmed voltage is exact below 32768 mV, where a dev build panics and a release
  build wraps around.\<close>

theorem stats_scaling:
  "(\<forall>v. unat v \<le> 6639 \<longrightarrow> (\<exists>m. factor_high p v = Some m \<and> unat (mv_of m) = unat v * 987 div 100))
   \<and> (\<forall>v w m n. v \<le> w \<and> unat w \<le> 6639 \<and> factor_high p v = Some m \<and> factor_high p w = Some n \<longrightarrow> m \<le> n)
   \<and> factor_high p 6640 = Some (Millivolts 0)
   \<and> (\<forall>v. unat v < 32768 \<longrightarrow> (\<exists>m. factor_vprog p v = Some m \<and> unat (mv_of m) = unat v * 2))
   \<and> (\<forall>v. 32768 \<le> unat v \<longrightarrow> factor_vprog Dev v = None
        \<and> factor_vprog Release v = Some (Millivolts (of_nat (unat v * 2 - 65536))))"
proof (intro conjI allI impI)
  show "\<exists>m. factor_high p v = Some m \<and> unat (mv_of m) = unat v * 987 div 100" if "unat v \<le> 6639" for v
    using factor_high_exact [OF that] .
  show "m \<le> n" if le: "v \<le> w \<and> unat w \<le> 6639 \<and> factor_high p v = Some m \<and> factor_high p w = Some n" for v w m n
  proof -
    have "unat v \<le> unat w" using le by (simp add: word_le_nat_alt)
    moreover from this have "unat v \<le> 6639" using le by simp
    ultimately show ?thesis
      using factor_high_exact [of v p] factor_high_exact [of w p] le by (auto simp: millivolts_le_iff div_le_mono)
  qed
  show "factor_high p 6640 = Some (Millivolts 0)" by (simp add: factor_high_cast)
  show "\<exists>m. factor_vprog p v = Some m \<and> unat (mv_of m) = unat v * 2" if "unat v < 32768" for v
    using factor_vprog_exact [OF that] .
  fix v :: u16
  assume v: "32768 \<le> unat v"
  then show "factor_vprog Dev v = None" by (simp add: factor_vprog_def rust_mul_def)
  have "v * 2 = (of_nat (unat v * 2 - 65536) :: u16)"
    using v unat_u16_bound [of v] by (simp add: of_nat_diff)
  then show "factor_vprog Release v = Some (Millivolts (of_nat (unat v * 2 - 65536)))"
    by (simp add: factor_vprog_def)
qed

theorem stats_scaling_witness:
  "\<exists>m n. factor_high Dev 1000 = Some m \<and> factor_high Dev 3100 = Some n \<and> m \<le> n \<and> unat (mv_of m) = 9870"
proof -
  note scaling = stats_scaling [of Dev]
  from scaling [THEN conjunct1, rule_format, of 1000] scaling [THEN conjunct1, rule_format, of 3100]
  obtain m n where "factor_high Dev 1000 = Some m" "unat (mv_of m) = 9870" "factor_high Dev 3100 = Some n" by auto
  moreover from this have "m \<le> n"
    using scaling [THEN conjunct2, THEN conjunct1, rule_format, of 1000 3100 m n] by simp
  ultimately show ?thesis by blast
qed

end
