(* ===== verification/Wifi.thy ===== *)
theory Wifi
  imports Embassy
begin

text \<open>
  The task of \<open>systems/net.rs\<close> that keeps the wireless connection.  The controller of esp-wifi is a
  parameter, with a locale for what the task relies on.
\<close>

section \<open>The controller and the task\<close>

record 'v wifi_ops =
  wf_connected :: "'v \<Rightarrow> bool"
  wf_wait_disconnected :: "('v, unit, unit) act"
  wf_is_started :: "('v, nat, bool) act"
  wf_set_configuration :: "string \<Rightarrow> string \<Rightarrow> ('v, nat, unit) act"
  wf_start :: "('v, nat, unit) act"
  wf_connect :: "('v, nat, unit) act"
  wf_after_millis :: "nat \<Rightarrow> ('v, unit, unit) act"

text \<open>The capacities of the strings in the client configuration of esp-wifi.\<close>

definition SSID_SIZE :: nat where "SSID_SIZE = 32"
definition PASSWORD_SIZE :: nat where "PASSWORD_SIZE = 64"

definition wifi_start :: "'v wifi_ops \<Rightarrow> string \<Rightarrow> string \<Rightarrow> ('v, unit, unit) act" where
  "wifi_start wifi ssid password =
     bindA (tryA (wf_is_started wifi)) (\<lambda>started.
       if started = Inr True then ret ()
       else
         bindA (unwrapO (bounded_string SSID_SIZE ssid)) (\<lambda>ssid.
         bindA (unwrapO (bounded_string PASSWORD_SIZE password)) (\<lambda>password.
         seqA (unwrapA (wf_set_configuration wifi ssid password))
              (unwrapA (wf_start wifi)))))"

text \<open>One turn of \<open>connection_task\<close>; the answer is whether it connected.\<close>

definition connection_turn :: "'v wifi_ops \<Rightarrow> string \<Rightarrow> string \<Rightarrow> ('v, unit, bool) act" where
  "connection_turn wifi ssid password =
     seqA (\<lambda>v. if wf_connected wifi v
                then seqA (wf_wait_disconnected wifi) (wf_after_millis wifi 1000) v else ret () v) (
     seqA (wifi_start wifi ssid password) (
     bindA (tryA (wf_connect wifi)) (\<lambda>r. case r of
       Inr _ \<Rightarrow> ret True
     | Inl _ \<Rightarrow> seqA (wf_after_millis wifi 5000) (ret False))))"

section \<open>A turn\<close>

text \<open>
  What the controller promises: whether it is started and connected and with which configuration; of
  the connection after an error or some time it promises nothing.
\<close>

locale wifi_controller =
  fixes wifi :: "'v wifi_ops" and started connected :: "'v \<Rightarrow> bool" and conf :: "'v \<Rightarrow> (string \<times> string) option"
  assumes is_connected: "wf_connected wifi v \<longleftrightarrow> connected v"
    and disconnected: "\<exists>v'. wf_wait_disconnected wifi v = (Ok (), v') \<and> \<not> connected v' \<and> started v' = started v \<and> conf v' = conf v"
    and is_started: "\<exists>v'. wf_is_started wifi v = (Ok (started v), v') \<and> started v' = started v \<and> conf v' = conf v"
    and configure: "\<exists>v'. wf_set_configuration wifi s p v = (Ok (), v') \<and> started v' = started v \<and> conf v' = Some (s, p)"
    and start: "\<exists>v'. wf_start wifi v = (Ok (), v') \<and> started v' \<and> conf v' = conf v"
    and connect: "\<exists>r v'. wf_connect wifi v = (r, v') \<and> started v' = started v \<and> conf v' = conf v
      \<and> (r = Ok () \<and> connected v' \<or> (\<exists>e. r = Err e))"
    and after: "\<exists>v'. wf_after_millis wifi n v = (Ok (), v') \<and> started v' = started v \<and> conf v' = conf v"
begin

lemma start_run:
  assumes "length ssid \<le> SSID_SIZE" "length password \<le> PASSWORD_SIZE"
  shows "\<exists>v'. wifi_start wifi ssid password v = (Ok (), v') \<and> started v'
    \<and> conf v' = (if started v then conf v else Some (ssid, password))"
proof -
  from is_started [of v] obtain v1 where v1: "wf_is_started wifi v = (Ok (started v), v1)"
    "started v1 = started v" "conf v1 = conf v" by blast
  from configure [of ssid password v1] obtain v2 where v2: "wf_set_configuration wifi ssid password v1 = (Ok (), v2)"
    "conf v2 = Some (ssid, password)" by blast
  from start [of v2] obtain v3 where v3: "wf_start wifi v2 = (Ok (), v3)" "started v3" "conf v3 = conf v2" by blast
  show ?thesis
    using v1 v2 v3 assms by (simp add: wifi_start_def bindA_def tryA_def unwrapA_def bounded_string_def ret_def)
qed

lemma start_panics:
  assumes "SSID_SIZE < length ssid" "\<not> started v"
  shows "fst (wifi_start wifi ssid password v) = Panic"
proof -
  from is_started [of v] assms(2) obtain v1 where "wf_is_started wifi v = (Ok False, v1)" by auto
  with assms(1) show ?thesis by (simp add: wifi_start_def bindA_def tryA_def bounded_string_def panic_def)
qed

text \<open>The wait of a connected controller.\<close>

lemma wait_run:
  "\<exists>v'. (if wf_connected wifi v then seqA (wf_wait_disconnected wifi) (wf_after_millis wifi 1000) v else ret () v)
      = (Ok (), v') \<and> started v' = started v \<and> conf v' = conf v"
proof -
  from disconnected [of v] obtain v1 where v1: "wf_wait_disconnected wifi v = (Ok (), v1)"
    "started v1 = started v" "conf v1 = conf v" by blast
  from after [of 1000 v1] obtain v2 where "wf_after_millis wifi 1000 v1 = (Ok (), v2)"
    "started v2 = started v1" "conf v2 = conf v1" by blast
  with v1 show ?thesis by (simp add: bindA_def ret_def)
qed

lemma turn_run:
  assumes "length ssid \<le> SSID_SIZE" "length password \<le> PASSWORD_SIZE"
  shows "\<exists>go v'. connection_turn wifi ssid password v = (Ok go, v') \<and> started v' \<and> (go \<longrightarrow> connected v')
    \<and> conf v' = (if started v then conf v else Some (ssid, password))"
proof -
  from wait_run [of v] obtain v1 where v1: "(if wf_connected wifi v
      then seqA (wf_wait_disconnected wifi) (wf_after_millis wifi 1000) v else ret () v) = (Ok (), v1)"
    "started v1 = started v" "conf v1 = conf v" by blast
  from start_run [OF assms, of v1] obtain v2 where v2: "wifi_start wifi ssid password v1 = (Ok (), v2)" "started v2"
    "conf v2 = (if started v1 then conf v1 else Some (ssid, password))" by blast
  from connect [of v2] obtain r v3 where v3: "wf_connect wifi v2 = (r, v3)" "started v3 = started v2" "conf v3 = conf v2"
    "r = Ok () \<and> connected v3 \<or> (\<exists>e. r = Err e)" by blast
  from after [of 5000 v3] obtain v4 where v4: "wf_after_millis wifi 5000 v3 = (Ok (), v4)" "started v4 = started v3"
    "conf v4 = conf v3" by blast
  from v3(4) show ?thesis
  proof (elim disjE exE)
    assume "r = Ok () \<and> connected v3"
    with v1 v2 v3 show ?thesis by (intro exI [of _ True] exI [of _ v3]) (simp add: connection_turn_def bindA_def tryA_def ret_def)
  next
    fix e
    assume "r = Err e"
    with v1 v2 v3 v4 show ?thesis by (intro exI [of _ False] exI [of _ v4]) (simp add: connection_turn_def bindA_def tryA_def ret_def)
  qed
qed

lemma turn_panics:
  assumes "SSID_SIZE < length ssid" "\<not> started v"
  shows "fst (connection_turn wifi ssid password v) = Panic"
proof -
  from wait_run [of v] assms(2) obtain v1 where v1: "(if wf_connected wifi v
      then seqA (wf_wait_disconnected wifi) (wf_after_millis wifi 1000) v else ret () v) = (Ok (), v1)"
    "\<not> started v1" by auto
  from start_panics [OF assms(1) this(2), of password] obtain v2 where "wifi_start wifi ssid password v1 = (Panic, v2)"
    by (cases "wifi_start wifi ssid password v1") auto
  with v1 show ?thesis by (simp add: connection_turn_def bindA_def)
qed

end

text \<open>A controller that connects at every second attempt.\<close>

record sim_wifi =
  sw_started :: bool
  sw_connected :: bool
  sw_conf :: "(string \<times> string) option"
  sw_next :: bool

definition sim_wifi_ops :: "sim_wifi wifi_ops" where
  "sim_wifi_ops = \<lparr>
     wf_connected = sw_connected,
     wf_wait_disconnected = (\<lambda>v. (Ok (), v\<lparr>sw_connected := False\<rparr>)),
     wf_is_started = (\<lambda>v. (Ok (sw_started v), v)),
     wf_set_configuration = (\<lambda>s p v. (Ok (), v\<lparr>sw_conf := Some (s, p)\<rparr>)),
     wf_start = (\<lambda>v. (Ok (), v\<lparr>sw_started := True\<rparr>)),
     wf_connect = (\<lambda>v. (if sw_next v then Ok () else Err 1, v\<lparr>sw_next := \<not> sw_next v, sw_connected := sw_next v\<rparr>)),
     wf_after_millis = (\<lambda>n v. (Ok (), v))\<rparr>"

interpretation sim_wifi: wifi_controller sim_wifi_ops sw_started sw_connected sw_conf
  by unfold_locales (auto simp: sim_wifi_ops_def)

section \<open>Properties\<close>



end
