(* ===== verification/Net.thy ===== *)
theory Net
  imports Json Config Watchdog Wifi "HOL-Library.Sublist"
begin

text \<open>
  \<open>systems/net.rs\<close>: the messages and topics, the MQTT client's task from the link up to the exchange of
  messages.  The TCP/IP stack and the MQTT client are parameters; the configuration and the watchdog are reached through an
  interface whose provider is made of their models.
\<close>

section \<open>Topics and messages\<close>

definition TOPIC_SIZE :: nat where "TOPIC_SIZE = 64"
definition CONTENT_SIZE :: nat where "CONTENT_SIZE = 128"
definition MAX_PACKET_SIZE :: nat where "MAX_PACKET_SIZE = 256"
definition SOCKET_BUFFER_SIZE :: nat where "SOCKET_BUFFER_SIZE = 1024"

datatype topic = TopicStats | TopicRecord | TopicConfig

fun topic_to_str :: "topic \<Rightarrow> string option" where
  "topic_to_str TopicStats = bounded_string TOPIC_SIZE ''slakkotron/stats''"
| "topic_to_str TopicRecord = bounded_string TOPIC_SIZE ''slakkotron/record''"
| "topic_to_str TopicConfig = bounded_string TOPIC_SIZE ''slakkotron/config''"

definition topic_try_parse :: "string \<Rightarrow> topic option" where
  "topic_try_parse str = (if str = ''slakkotron/config'' then Some TopicConfig else None)"

record message =
  msg_topic :: string
  msg_content :: "u8 list"

datatype net_error = TopicTooLarge | ContentTooLarge

text \<open>The buffer has all of its capacity when the value is written, and is cut to the size written.\<close>

definition message_new :: "json_writer \<Rightarrow> topic \<Rightarrow> json_object \<Rightarrow> net_error + message" where
  "message_new to_slice topic payload =
     (case topic_to_str topic of
        None \<Rightarrow> Inl TopicTooLarge
      | Some t \<Rightarrow> (case to_slice payload CONTENT_SIZE of
            None \<Rightarrow> Inl ContentTooLarge
          | Some content \<Rightarrow> Inr \<lparr>msg_topic = t, msg_content = content\<rparr>))"

section \<open>The stack and the client\<close>

text \<open>
  The reason codes the code tells apart, and the others by their number.  The operations work on one
  state, of the network stack, the socket and the client.
\<close>

datatype reason_code = ImplementationSpecificError | NetworkError | OtherReason u8
datatype net_event = ConnectedWifi | ConnectedMQTT

text \<open>
  \<open>ClientConfig\<close> of rust_mqtt with what the code sets in it: the version of the protocol, the start of
  \<open>CountingRng\<close>, the quality of service of subscriptions, the identifier and the size of packets.
\<close>

record client_config =
  cc_version :: nat
  cc_rng :: u64
  cc_max_subscribe_qos :: nat
  cc_client_id :: string
  cc_max_packet_size :: u32

definition mqtt_client_config :: "u64 \<Rightarrow> client_config" where
  "mqtt_client_config seed = \<lparr>cc_version = 5, cc_rng = seed mod 0xFFFF, cc_max_subscribe_qos = 1,
     cc_client_id = ''slakkotron'', cc_max_packet_size = of_nat MAX_PACKET_SIZE\<rparr>"

text \<open>
  \<open>nt_socket\<close> makes a socket with receive and transmit buffers of the given sizes and a timeout in seconds;
  \<open>nt_client\<close> a client on it, with a configuration and buffers for writing and receiving.
\<close>

record 'k net_ops =
  nt_is_link_up :: "'k \<Rightarrow> bool"
  nt_has_address :: "'k \<Rightarrow> bool"
  nt_socket :: "nat \<Rightarrow> nat \<Rightarrow> nat \<Rightarrow> 'k \<Rightarrow> 'k"
  nt_connect :: "nat list \<Rightarrow> nat \<Rightarrow> ('k, nat, unit) act"
  nt_client :: "client_config \<Rightarrow> nat \<Rightarrow> nat \<Rightarrow> 'k \<Rightarrow> 'k"
  nt_connect_to_broker :: "('k, reason_code, unit) act"
  nt_subscribe :: "string \<Rightarrow> ('k, reason_code, unit) act"
  nt_send :: "string \<Rightarrow> u8 list \<Rightarrow> bool \<Rightarrow> ('k, reason_code, unit) act"
  nt_receive :: "('k, reason_code, string \<times> u8 list) act"
  nt_after_millis :: "nat \<Rightarrow> ('k, unit, unit) act"

text \<open>What the module calls of the other systems: a ticket of the watchdog, its feeding, and an update.\<close>

record 'w net_peers =
  np_ticket :: "('w, unit, nat) act"
  np_feed :: "nat \<Rightarrow> ('w, unit, unit) act"
  np_update :: "(settings \<Rightarrow> settings) \<Rightarrow> ('w, unit, unit) act"

text \<open>What is logged as a warning or an error, and the messages received.\<close>

datatype net_log =
    LogReceived topic | LogUnknownTopic string | LogParseFailed
  | LogSendError reason_code | LogNetworkError | LogReceiveError reason_code
  | LogLinkDown | LogConnectError nat | LogBrokenDown

record ('c, 'q, 'k, 'w) net =
  net_outgoing :: 'c
  net_event_channel :: 'q
  net_stack :: 'k
  net_others :: 'w
  net_logs :: "net_log list"

abbreviation on_stack :: "('k, 'e, 'x) act \<Rightarrow> (('c, 'q, 'k, 'w) net, 'e, 'x) act" where
  "on_stack \<equiv> zoom net_stack (\<lambda>k s. s\<lparr>net_stack := k\<rparr>)"

abbreviation on_others :: "('w, 'e, 'x) act \<Rightarrow> (('c, 'q, 'k, 'w) net, 'e, 'x) act" where
  "on_others \<equiv> zoom net_others (\<lambda>w s. s\<lparr>net_others := w\<rparr>)"

definition net_log :: "net_log \<Rightarrow> (('c, 'q, 'k, 'w) net, 'e, unit) act" where
  "net_log l = modifyA (\<lambda>s. s\<lparr>net_logs := net_logs s @ [l]\<rparr>)"

section \<open>The interface to other tasks\<close>

text \<open>\<open>init\<close> makes the two channels and takes the ticket that the task is given.\<close>

definition net_init :: "('c, message) channel_ops \<Rightarrow> ('q, net_event) pubsub_ops \<Rightarrow> 'w net_peers \<Rightarrow> 'k \<Rightarrow>
    ('w, unit, ('c, 'q, 'k, 'w) net \<times> nat) act" where
  "net_init ch ps peers stack =
     bindA (np_ticket peers) (\<lambda>ticket.
     bindA (readA (\<lambda>w. w)) (\<lambda>w.
       ret (\<lparr>net_outgoing = ch_new ch, net_event_channel = ps_new ps, net_stack = stack,
              net_others = w, net_logs = []\<rparr>, ticket)))"

definition net_send :: "('c, message) channel_ops \<Rightarrow> message \<Rightarrow> (('c, 'q, 'k, 'w) net, 'e, unit) act" where
  "net_send ch m = zoom net_outgoing (\<lambda>c s. s\<lparr>net_outgoing := c\<rparr>) (send_to ch m)"

section \<open>Messages received\<close>

definition process_message :: "'w net_peers \<Rightarrow> (u8 list \<Rightarrow> settings_builder option) \<Rightarrow>
    string \<Rightarrow> u8 list \<Rightarrow> (('c, 'q, 'k, 'w) net, unit, unit) act" where
  "process_message peers from_slice topic buf =
     (case topic_try_parse topic of
        Some t \<Rightarrow> seqA (net_log (LogReceived t))
          (case t of
             TopicConfig \<Rightarrow> (case from_slice buf of
                 Some new_settings \<Rightarrow> on_others (np_update peers (settings_integrate new_settings))
               | None \<Rightarrow> net_log LogParseFailed)
           | _ \<Rightarrow> ret ())
      | None \<Rightarrow> net_log (LogUnknownTopic topic))"

section \<open>Messages sent\<close>

fun send_attempts :: "'k net_ops \<Rightarrow> string \<Rightarrow> u8 list \<Rightarrow> bool \<Rightarrow> nat \<Rightarrow> ('k, reason_code, unit) act" where
  "send_attempts nt topic content retain 0 = fail ImplementationSpecificError"
| "send_attempts nt topic content retain (Suc n) = (\<lambda>k.
     case nt_send nt topic content retain k of
       (Err ImplementationSpecificError, k') \<Rightarrow> send_attempts nt topic content retain n k'
     | r \<Rightarrow> r)"

definition send_message_qos1 :: "'k net_ops \<Rightarrow> string \<Rightarrow> u8 list \<Rightarrow> bool \<Rightarrow> ('k, reason_code, unit) act" where
  "send_message_qos1 nt topic content retain = send_attempts nt topic content retain 5"

section \<open>The connected client\<close>

text \<open>
  A turn of the loop of \<open>mqtt_connected\<close>: the ticket is fed, then a message that waits to be sent goes
  first, and otherwise a message is received.  The answer is whether the loop goes on.
\<close>

definition mqtt_outgoing :: "'k net_ops \<Rightarrow> message \<Rightarrow> (('c, 'q, 'k, 'w) net, unit, bool) act" where
  "mqtt_outgoing nt m =
     bindA (tryA (on_stack (send_message_qos1 nt (msg_topic m) (msg_content m) False))) (\<lambda>r.
     seqA (case r of Inl e \<Rightarrow> net_log (LogSendError e) | Inr _ \<Rightarrow> ret ()) (ret True))"

definition mqtt_incoming :: "'k net_ops \<Rightarrow> 'w net_peers \<Rightarrow> (u8 list \<Rightarrow> settings_builder option) \<Rightarrow>
    (('c, 'q, 'k, 'w) net, unit, bool) act" where
  "mqtt_incoming nt peers from_slice =
     bindA (tryA (on_stack (nt_receive nt))) (\<lambda>r. case r of
       Inr (topic, buf) \<Rightarrow> seqA (process_message peers from_slice topic buf) (ret True)
     | Inl ImplementationSpecificError \<Rightarrow> ret True
     | Inl NetworkError \<Rightarrow> seqA (net_log LogNetworkError) (ret False)
     | Inl e \<Rightarrow> seqA (net_log (LogReceiveError e)) (ret True))"

definition mqtt_turn :: "('c, message) channel_ops \<Rightarrow> 'k net_ops \<Rightarrow> 'w net_peers \<Rightarrow>
    (u8 list \<Rightarrow> settings_builder option) \<Rightarrow> nat \<Rightarrow> (('c, 'q, 'k, 'w) net, unit, bool) act" where
  "mqtt_turn ch nt peers from_slice ticket =
     seqA (on_others (np_feed peers ticket)) (\<lambda>s.
       case ch_receive ch (net_outgoing s) of
         Some (m, c) \<Rightarrow> mqtt_outgoing nt m (s\<lparr>net_outgoing := c\<rparr>)
       | None \<Rightarrow> mqtt_incoming nt peers from_slice s)"

text \<open>Loops of the task run for a number of turns, after which they have not returned.\<close>

fun mqtt_connected :: "('c, message) channel_ops \<Rightarrow> 'k net_ops \<Rightarrow> 'w net_peers \<Rightarrow>
    (u8 list \<Rightarrow> settings_builder option) \<Rightarrow> nat \<Rightarrow> nat \<Rightarrow> (('c, 'q, 'k, 'w) net, unit, unit) act" where
  "mqtt_connected ch nt peers from_slice ticket 0 = pending"
| "mqtt_connected ch nt peers from_slice ticket (Suc turns) =
     bindA (mqtt_turn ch nt peers from_slice ticket) (\<lambda>go.
       if go then mqtt_connected ch nt peers from_slice ticket turns else ret ())"

section \<open>The task\<close>

definition publish_event :: "('q, net_event) pubsub_ops \<Rightarrow> net_event \<Rightarrow> (('c, 'q, 'k, 'w) net, 'e, unit) act" where
  "publish_event ps ev = modifyA (\<lambda>s. s\<lparr>net_event_channel := ps_publish_immediate ps ev (net_event_channel s)\<rparr>)"

definition MQTT_ADDRESS :: "nat list" where "MQTT_ADDRESS = [192, 168, 1, 2]"
definition MQTT_PORT :: nat where "MQTT_PORT = 1883"

definition link_socket :: "'k net_ops \<Rightarrow> 'k \<Rightarrow> 'k" where
  "link_socket nt = nt_socket nt SOCKET_BUFFER_SIZE SOCKET_BUFFER_SIZE 10"

text \<open>
  A round of \<open>link_up\<close> while the link is up: a socket, the broker, the subscription, and the connected
  client until it breaks down.  A socket that does not connect ends the round.
\<close>

definition link_round :: "('c, message) channel_ops \<Rightarrow> ('q, net_event) pubsub_ops \<Rightarrow> 'k net_ops \<Rightarrow>
    'w net_peers \<Rightarrow> (u8 list \<Rightarrow> settings_builder option) \<Rightarrow> u64 \<Rightarrow> nat \<Rightarrow> nat \<Rightarrow>
    (('c, 'q, 'k, 'w) net, unit, unit) act" where
  "link_round ch ps nt peers from_slice seed ticket turns =
     seqA (on_stack (modifyA (link_socket nt))) (
     bindA (tryA (on_stack (nt_connect nt MQTT_ADDRESS MQTT_PORT))) (\<lambda>r. case r of
       Inl e \<Rightarrow> net_log (LogConnectError e)
     | Inr _ \<Rightarrow>
         seqA (on_stack (modifyA (nt_client nt (mqtt_client_config seed) MAX_PACKET_SIZE MAX_PACKET_SIZE))) (
         seqA (unwrapA (on_stack (nt_connect_to_broker nt))) (
         seqA (publish_event ps ConnectedMQTT) (
         bindA (unwrapO (topic_to_str TopicConfig)) (\<lambda>topic.
         seqA (unwrapA (on_stack (nt_subscribe nt topic))) (
         seqA (mqtt_connected ch nt peers from_slice ticket turns)
              (net_log LogBrokenDown))))))))"

fun link_loop :: "'k net_ops \<Rightarrow> (('c, 'q, 'k, 'w) net, unit, unit) act \<Rightarrow> nat \<Rightarrow>
    (('c, 'q, 'k, 'w) net, unit, unit) act" where
  "link_loop nt round 0 = pending"
| "link_loop nt round (Suc rounds) = (\<lambda>s.
     if \<not> nt_is_link_up nt (net_stack s) then net_log LogLinkDown s
     else seqA round (link_loop nt round rounds) s)"

definition link_up :: "('c, message) channel_ops \<Rightarrow> ('q, net_event) pubsub_ops \<Rightarrow> 'k net_ops \<Rightarrow>
    'w net_peers \<Rightarrow> (u8 list \<Rightarrow> settings_builder option) \<Rightarrow> u64 \<Rightarrow> nat \<Rightarrow> nat \<Rightarrow> nat \<Rightarrow>
    (('c, 'q, 'k, 'w) net, unit, unit) act" where
  "link_up ch ps nt peers from_slice seed ticket turns rounds =
     seqA (publish_event ps ConnectedWifi) (
     seqA (on_others (np_feed peers ticket))
          (link_loop nt (link_round ch ps nt peers from_slice seed ticket turns) rounds))"

text \<open>The two loops that look at the stack every 50 ms.\<close>

fun net_await :: "'k net_ops \<Rightarrow> ('k \<Rightarrow> bool) \<Rightarrow> nat \<Rightarrow> (('c, 'q, 'k, 'w) net, unit, unit) act" where
  "net_await nt cond 0 = pending"
| "net_await nt cond (Suc polls) = (\<lambda>s.
     if cond (net_stack s) then ret () s
     else seqA (on_stack (nt_after_millis nt 50)) (net_await nt cond polls) s)"

definition net_round :: "('c, message) channel_ops \<Rightarrow> ('q, net_event) pubsub_ops \<Rightarrow> 'k net_ops \<Rightarrow>
    'w net_peers \<Rightarrow> (u8 list \<Rightarrow> settings_builder option) \<Rightarrow> u64 \<Rightarrow> nat \<Rightarrow> nat \<Rightarrow> nat \<Rightarrow> nat \<Rightarrow>
    (('c, 'q, 'k, 'w) net, unit, unit) act" where
  "net_round ch ps nt peers from_slice seed ticket turns rounds polls =
     seqA (net_await nt (nt_is_link_up nt) polls) (
     seqA (net_await nt (nt_has_address nt) polls) (
     seqA (on_others (np_feed peers ticket))
          (link_up ch ps nt peers from_slice seed ticket turns rounds)))"

fun net_task :: "(('c, 'q, 'k, 'w) net, unit, unit) act \<Rightarrow> nat \<Rightarrow> (('c, 'q, 'k, 'w) net, unit, unit) act" where
  "net_task round 0 = pending"
| "net_task round (Suc n) = seqA round (net_task round n)"

section \<open>Loops\<close>

text \<open>What a loop has returned it returns with more turns, too.\<close>

lemma mqtt_connected_more:
  "mqtt_connected ch nt peers fs ticket n s = (r, t) \<Longrightarrow> r \<noteq> Pending \<Longrightarrow>
   mqtt_connected ch nt peers fs ticket (n + m) s = (r, t)"
  by (induction n arbitrary: s) (auto simp: pending_def bindA_def split: prod.splits outcome.splits if_splits)

lemma link_loop_more:
  "link_loop nt round n s = (r, t) \<Longrightarrow> r \<noteq> Pending \<Longrightarrow> link_loop nt round (n + m) s = (r, t)"
  by (induction n arbitrary: s) (auto simp: pending_def bindA_def split: prod.splits outcome.splits if_splits)

definition stack_after :: "'k net_ops \<Rightarrow> nat \<Rightarrow> 'k \<Rightarrow> 'k" where
  "stack_after nt n k = ((\<lambda>k. snd (nt_after_millis nt 50 k)) ^^ n) k"

lemma await_ends:
  fixes s :: "('c, 'q, 'k, 'w) net"
  assumes "\<forall>k. fst (nt_after_millis nt 50 k) = Ok ()" "cond (stack_after nt n (net_stack s))"
    and "\<forall>i < n. \<not> cond (stack_after nt i (net_stack s))" "n < polls"
  shows "net_await nt cond polls s = (Ok (), s\<lparr>net_stack := stack_after nt n (net_stack s)\<rparr>)"
  using assms(2-)
proof (induction n arbitrary: s polls)
  case 0
  then show ?case by (cases polls) (simp_all add: stack_after_def ret_def)
next
  case (Suc n)
  from Suc.prems(3) obtain p where p: "polls = Suc p" "n < p" by (cases polls) auto
  obtain k where nap: "nt_after_millis nt 50 (net_stack s) = (Ok (), k)"
    using assms(1) by (metis prod.collapse)
  then have step: "stack_after nt (Suc i) (net_stack s) = stack_after nt i k" for i
    by (simp add: stack_after_def funpow_Suc_right del: funpow.simps)
  have "cond (stack_after nt n k)" "\<forall>i < n. \<not> cond (stack_after nt i k)"
    using Suc.prems(1,2) by (auto simp: step [symmetric])
  with p(2) have "net_await nt cond p (s\<lparr>net_stack := k\<rparr>) = (Ok (), s\<lparr>net_stack := stack_after nt n k\<rparr>)"
    using Suc.IH [of "s\<lparr>net_stack := k\<rparr>" p] by simp
  moreover have "\<not> cond (net_stack s)" using Suc.prems(2) by (auto simp: stack_after_def dest: spec [of _ 0])
  ultimately show ?case by (simp add: p(1) bindA_def zoom_def nap step)
qed

section \<open>Sending\<close>

text \<open>The state after a number of attempts, and the answer of the next.\<close>

definition sends :: "'k net_ops \<Rightarrow> string \<Rightarrow> u8 list \<Rightarrow> bool \<Rightarrow> nat \<Rightarrow> 'k \<Rightarrow> 'k" where
  "sends nt t c r n k = ((\<lambda>k. snd (nt_send nt t c r k)) ^^ n) k"

definition answer :: "'k net_ops \<Rightarrow> string \<Rightarrow> u8 list \<Rightarrow> bool \<Rightarrow> nat \<Rightarrow> 'k \<Rightarrow> (reason_code, unit) outcome" where
  "answer nt t c r n k = fst (nt_send nt t c r (sends nt t c r n k))"

lemma sends_Suc: "sends nt t c r (Suc n) k = sends nt t c r n (snd (nt_send nt t c r k))"
  by (simp add: sends_def funpow_Suc_right del: funpow.simps)

lemma answer_Suc: "answer nt t c r (Suc n) k = answer nt t c r n (snd (nt_send nt t c r k))"
  by (simp add: answer_def sends_Suc)

lemma answer_0: "answer nt t c r 0 k = fst (nt_send nt t c r k)" and sends_0: "sends nt t c r 0 k = k"
  by (simp_all add: answer_def sends_def)

lemma attempts_answer:
  assumes "\<forall>i < j. answer nt t c r i k = Err ImplementationSpecificError"
    and "answer nt t c r j k \<noteq> Err ImplementationSpecificError" "j < n"
  shows "send_attempts nt t c r n k = (answer nt t c r j k, sends nt t c r (Suc j) k)"
  using assms
proof (induction n arbitrary: j k)
  case (Suc n)
  obtain a k' where a: "nt_send nt t c r k = (a, k')" by fastforce
  show ?case
  proof (cases j)
    case 0
    with Suc.prems(2) a show ?thesis
      by (auto simp: answer_0 sends_Suc sends_0 split: outcome.split reason_code.split)
  next
    case (Suc i)
    have "send_attempts nt t c r n k' = (answer nt t c r i k', sends nt t c r (Suc i) k')"
    proof (rule Suc.IH)
      show "\<forall>l < i. answer nt t c r l k' = Err ImplementationSpecificError"
        using Suc.prems(1) a Suc by (metis Suc_mono answer_Suc snd_conv)
      show "answer nt t c r i k' \<noteq> Err ImplementationSpecificError" "i < n"
        using Suc.prems(2,3) a Suc by (simp_all add: answer_Suc)
    qed
    moreover have "a = Err ImplementationSpecificError"
      using Suc.prems(1) a Suc by (auto simp: answer_0 dest: spec [of _ 0])
    ultimately show ?thesis by (simp add: a Suc answer_Suc sends_Suc)
  qed
qed simp

lemma attempts_exhausted:
  "\<forall>i < n. answer nt t c r i k = Err ImplementationSpecificError \<Longrightarrow>
   send_attempts nt t c r n k = (Err ImplementationSpecificError, sends nt t c r n k)"
proof (induction n arbitrary: k)
  case 0
  then show ?case by (simp add: fail_def sends_0)
next
  case (Suc n)
  obtain a k' where a: "nt_send nt t c r k = (a, k')" by fastforce
  from Suc.prems a have "a = Err ImplementationSpecificError" by (auto simp: answer_0 dest: spec [of _ 0])
  moreover have "\<forall>i < n. answer nt t c r i k' = Err ImplementationSpecificError"
    using Suc.prems a by (metis Suc_mono answer_Suc snd_conv)
  ultimately show ?case using Suc.IH [of k'] by (simp add: a sends_Suc)
qed

section \<open>Interfaces\<close>

text \<open>
  A client: every call of \<open>send_message\<close> that ends transmits the message once, and the message counts
  as acknowledged when the call succeeds; receiving sends nothing.
\<close>

type_synonym packet = "string \<times> u8 list"

definition ended :: "('e, 'a) outcome \<Rightarrow> bool" where
  "ended r \<longleftrightarrow> r \<noteq> Panic \<and> r \<noteq> Pending"

lemma ended_simps [simp]: "ended (Ok x)" "ended (Err e)" "\<not> ended Panic" "\<not> ended Pending"
  by (simp_all add: ended_def)

locale mqtt_client =
  fixes nt :: "'k net_ops" and sent acked :: "'k \<Rightarrow> packet list"
  assumes send: "nt_send nt t c r k = (res, k') \<Longrightarrow> ended res \<Longrightarrow>
      sent k' = sent k @ [(t, c)] \<and> acked k' = (if res = Ok () then acked k @ [(t, c)] else acked k)"
    and receive: "nt_receive nt k = (m, k') \<Longrightarrow> ended m \<Longrightarrow> sent k' = sent k \<and> acked k' = acked k"
begin

lemma attempts:
  "send_attempts nt t c r n k = (res, k') \<Longrightarrow> ended res \<Longrightarrow>
   \<exists>j \<le> n. (0 < n \<longrightarrow> 1 \<le> j) \<and> sent k' = sent k @ replicate j (t, c)
     \<and> acked k' = (if res = Ok () then acked k @ [(t, c)] else acked k)"
proof (induction n arbitrary: k)
  case 0
  then show ?case by (auto simp: fail_def)
next
  case (Suc n)
  obtain a k1 where a: "nt_send nt t c r k = (a, k1)" by fastforce
  show ?case
  proof (cases "a = Err ImplementationSpecificError")
    case True
    with Suc.prems(1) a have "send_attempts nt t c r n k1 = (res, k')" by simp
    from Suc.IH [OF this Suc.prems(2)] send [OF a] True obtain j where "j \<le> n"
      "sent k' = sent k @ (t, c) # replicate j (t, c)"
      "acked k' = (if res = Ok () then acked k @ [(t, c)] else acked k)" by auto
    then show ?thesis by (intro exI [of _ "Suc j"]) simp
  next
    case False
    with Suc.prems(1) a have "a = res" "k1 = k'" by (auto split: outcome.splits reason_code.splits)
    with send [OF a] Suc.prems(2) show ?thesis by (intro exI [of _ 1]) simp
  qed
qed

end

text \<open>The other systems: the settings, the watchdog as its abstraction, and the tickets that can be fed.\<close>

locale net_system =
  fixes peers :: "'w net_peers" and cfg :: "'w \<Rightarrow> settings" and wd :: "'w \<Rightarrow> wd_spec"
    and ok :: "nat \<Rightarrow> 'w \<Rightarrow> bool"
  assumes registered: "ok i w \<Longrightarrow> i < tickets (wd w)"
    and feed: "ok i w \<Longrightarrow> \<exists>w'. np_feed peers i w = (Ok (), w') \<and> wd w' = spec_feed i (wd w) \<and> cfg w' = cfg w
      \<and> (\<forall>j. ok j w' \<longleftrightarrow> ok j w)"
    and update: "np_update peers f w = (Ok (), w') \<Longrightarrow> cfg w' = f (cfg w) \<and> wd w' = wd w \<and> (\<forall>j. ok j w' \<longleftrightarrow> ok j w)"

section \<open>A turn of the connected client\<close>

text \<open>The two branches, on the state after the ticket was fed.\<close>

lemma outgoing_run:
  assumes "mqtt_outgoing nt m s = (Ok go, s')"
  shows "\<exists>r k. send_message_qos1 nt (msg_topic m) (msg_content m) False (net_stack s) = (r, k) \<and> ended r \<and> go
    \<and> s' = s\<lparr>net_stack := k, net_logs := net_logs s @ (case r of Err e \<Rightarrow> [LogSendError e] | _ \<Rightarrow> [])\<rparr>"
proof -
  obtain r k where "send_message_qos1 nt (msg_topic m) (msg_content m) False (net_stack s) = (r, k)"
    by fastforce
  with assms show ?thesis
    by (cases r) (auto simp: mqtt_outgoing_def bindA_def tryA_def zoom_def net_log_def modifyA_def ret_def)
qed

fun is_send_error :: "net_log \<Rightarrow> bool" where
  "is_send_error (LogSendError e) = True"
| "is_send_error _ = False"

definition send_errors :: "('c, 'q, 'k, 'w) net \<Rightarrow> nat" where
  "send_errors s = length (filter is_send_error (net_logs s))"

definition settings_after :: "(u8 list \<Rightarrow> settings_builder option) \<Rightarrow> string \<Rightarrow> u8 list \<Rightarrow> settings \<Rightarrow> settings" where
  "settings_after from_slice topic buf v =
     (if topic = ''slakkotron/config''
      then (case from_slice buf of Some b \<Rightarrow> settings_integrate b v | None \<Rightarrow> v) else v)"

context net_system
begin

lemma process_run:
  assumes "process_message peers from_slice topic buf s = (Ok (), s')"
  shows "cfg (net_others s') = settings_after from_slice topic buf (cfg (net_others s))"
    "wd (net_others s') = wd (net_others s)" "net_stack s' = net_stack s" "net_outgoing s' = net_outgoing s"
    "send_errors s' = send_errors s" "ok i (net_others s') \<longleftrightarrow> ok i (net_others s)"
proof -
  have "(topic_try_parse topic = None \<and> topic \<noteq> ''slakkotron/config'')
    \<or> (topic_try_parse topic = Some TopicConfig \<and> topic = ''slakkotron/config'')"
    by (simp add: topic_try_parse_def)
  with assms have "cfg (net_others s') = settings_after from_slice topic buf (cfg (net_others s))
    \<and> wd (net_others s') = wd (net_others s) \<and> net_stack s' = net_stack s \<and> net_outgoing s' = net_outgoing s
    \<and> send_errors s' = send_errors s \<and> (ok i (net_others s') \<longleftrightarrow> ok i (net_others s))"
    by (auto simp: process_message_def settings_after_def act_Ok_iff net_log_def send_errors_def dest: update split: option.splits)
  then show "cfg (net_others s') = settings_after from_slice topic buf (cfg (net_others s))"
    "wd (net_others s') = wd (net_others s)" "net_stack s' = net_stack s" "net_outgoing s' = net_outgoing s"
    "send_errors s' = send_errors s" "ok i (net_others s') \<longleftrightarrow> ok i (net_others s)"
    by simp_all
qed

lemma incoming_run:
  assumes "mqtt_incoming nt peers from_slice s = (Ok go, s')"
  shows "\<exists>m k. nt_receive nt (net_stack s) = (m, k) \<and> ended m \<and> net_stack s' = k \<and> net_outgoing s' = net_outgoing s
    \<and> wd (net_others s') = wd (net_others s) \<and> send_errors s' = send_errors s
    \<and> (ok i (net_others s') \<longleftrightarrow> ok i (net_others s))
    \<and> cfg (net_others s') = (case m of Ok (topic, buf) \<Rightarrow> settings_after from_slice topic buf (cfg (net_others s))
        | _ \<Rightarrow> cfg (net_others s))
    \<and> (go \<longleftrightarrow> m \<noteq> Err NetworkError)"
proof -
  obtain m k where m: "nt_receive nt (net_stack s) = (m, k)" by fastforce
  consider topic buf where "m = Ok (topic, buf)" | e where "m = Err e" | "m = Panic" | "m = Pending"
    by (cases m) auto
  then show ?thesis
  proof cases
    case (1 topic buf)
    with assms m have go: "go" and "process_message peers from_slice topic buf (s\<lparr>net_stack := k\<rparr>) = (Ok (), s')"
      by (auto simp: mqtt_incoming_def bindA_def tryA_def zoom_def ret_def split: outcome.splits prod.splits)
    from process_run [OF this(2)] 1 m go show ?thesis by (simp add: send_errors_def)
  next
    case (2 e)
    with assms m show ?thesis
      by (cases e) (auto simp: mqtt_incoming_def bindA_def tryA_def zoom_def ret_def net_log_def modifyA_def send_errors_def)
  next
    case 3
    with assms m show ?thesis by (auto simp: mqtt_incoming_def bindA_def tryA_def zoom_def)
  next
    case 4
    with assms m show ?thesis by (auto simp: mqtt_incoming_def bindA_def tryA_def zoom_def)
  qed
qed

text \<open>A turn is one of the branches, after the ticket was fed.\<close>

lemma turn_run:
  assumes "mqtt_turn ch nt peers from_slice ticket s = (Ok go, s')" "ok ticket (net_others s)"
  shows "\<exists>w. wd w = spec_feed ticket (wd (net_others s)) \<and> cfg w = cfg (net_others s)
    \<and> (\<forall>j. ok j w \<longleftrightarrow> ok j (net_others s))
    \<and> (case ch_receive ch (net_outgoing s) of
         Some (m, c) \<Rightarrow> mqtt_outgoing nt m (s\<lparr>net_others := w, net_outgoing := c\<rparr>) = (Ok go, s')
       | None \<Rightarrow> mqtt_incoming nt peers from_slice (s\<lparr>net_others := w\<rparr>) = (Ok go, s'))"
proof -
  from feed [OF assms(2)] obtain w where
    w: "np_feed peers ticket (net_others s) = (Ok (), w)" "wd w = spec_feed ticket (wd (net_others s))"
      "cfg w = cfg (net_others s)" "\<forall>j. ok j w \<longleftrightarrow> ok j (net_others s)" by blast
  with assms(1) show ?thesis
    by (intro exI [of _ w]) (auto simp: mqtt_turn_def bindA_def zoom_def split: option.splits)
qed

end

section \<open>The path of a message\<close>

text \<open>Other tasks send messages between the turns of the client.\<close>

datatype net_step = NxSend message | NxTurn

fun net_step_run :: "('c, message) channel_ops \<Rightarrow> 'k net_ops \<Rightarrow> 'w net_peers \<Rightarrow>
    (u8 list \<Rightarrow> settings_builder option) \<Rightarrow> nat \<Rightarrow> net_step \<Rightarrow> (('c, 'q, 'k, 'w) net, unit, unit) act" where
  "net_step_run ch nt peers from_slice ticket (NxSend m) = net_send ch m"
| "net_step_run ch nt peers from_slice ticket NxTurn =
     bindA (mqtt_turn ch nt peers from_slice ticket) (\<lambda>_. ret ())"

fun submitted :: "net_step list \<Rightarrow> message list" where
  "submitted [] = []"
| "submitted (NxSend m # steps) = m # submitted steps"
| "submitted (NxTurn # steps) = submitted steps"

definition packet :: "message \<Rightarrow> packet" where
  "packet m = (msg_topic m, msg_content m)"

text \<open>
  What became of the messages taken from the queue since \<open>s0\<close>: each was transmitted one to five times,
  in their order, and was acknowledged or its failure was logged.
\<close>

definition transmissions :: "('k \<Rightarrow> packet list) \<Rightarrow> 'k \<Rightarrow> 'k \<Rightarrow> message list \<Rightarrow> bool" where
  "transmissions sent k0 k taken \<longleftrightarrow> (\<exists>ns. length ns = length taken \<and> (\<forall>n \<in> set ns. 1 \<le> n \<and> n \<le> 5)
     \<and> sent k = sent k0 @ concat (map2 replicate ns (map packet taken)))"

definition accounted :: "('k \<Rightarrow> packet list) \<Rightarrow> 'k \<Rightarrow> 'k \<Rightarrow> message list \<Rightarrow> nat \<Rightarrow> bool" where
  "accounted acked k0 k taken errors \<longleftrightarrow> (\<exists>confirmed. acked k = acked k0 @ confirmed
     \<and> subseq confirmed (map packet taken) \<and> length confirmed + errors = length taken)"

lemma transmissions_snoc:
  assumes "transmissions sent k0 k taken" "sent k' = sent k @ replicate j (packet m)" "1 \<le> j" "j \<le> 5"
  shows "transmissions sent k0 k' (taken @ [m])"
proof -
  from assms(1) obtain ns where "length ns = length taken" "\<forall>n \<in> set ns. 1 \<le> n \<and> n \<le> 5"
    "sent k = sent k0 @ concat (map2 replicate ns (map packet taken))" by (auto simp: transmissions_def)
  with assms(2-4) show ?thesis
    unfolding transmissions_def by (intro exI [of _ "ns @ [j]"]) auto
qed

lemma accounted_snoc:
  assumes "accounted acked k0 k taken errors"
  shows "acked k' = acked k @ [packet m] \<Longrightarrow> accounted acked k0 k' (taken @ [m]) errors"
    and "acked k' = acked k \<Longrightarrow> accounted acked k0 k' (taken @ [m]) (Suc errors)"
proof -
  from assms obtain c where c: "acked k = acked k0 @ c" "subseq c (map packet taken)"
    "length c + errors = length taken" by (auto simp: accounted_def)
  show "accounted acked k0 k' (taken @ [m]) errors" if "acked k' = acked k @ [packet m]"
    using c that list_emb_append_mono [OF c(2), of "[packet m]" "[packet m]"]
    unfolding accounted_def by (intro exI [of _ "c @ [packet m]"]) simp
  show "accounted acked k0 k' (taken @ [m]) (Suc errors)" if "acked k' = acked k"
    using c that list_emb_append_mono [OF c(2), of "[]" "[packet m]"]
    unfolding accounted_def by (intro exI [of _ c]) simp
qed

lemma transmissions_same: "sent k' = sent k \<Longrightarrow> transmissions sent k0 k' taken = transmissions sent k0 k taken"
  by (simp add: transmissions_def)

lemma accounted_same: "acked k' = acked k \<Longrightarrow> accounted acked k0 k' taken errors = accounted acked k0 k taken errors"
  by (simp add: accounted_def)

locale net_client = mqtt_client nt sent acked + net_system peers cfg wd ok + bounded_channel ch queued cap
  for nt :: "'k net_ops" and sent acked and peers :: "'w net_peers" and cfg wd ok
    and ch :: "('c, message) channel_ops" and queued cap
begin

definition delivery :: "nat \<Rightarrow> ('c, 'q, 'k, 'w) net \<Rightarrow> message list \<Rightarrow> ('c, 'q, 'k, 'w) net \<Rightarrow> bool" where
  "delivery ticket s0 taken s \<longleftrightarrow> ok ticket (net_others s)
     \<and> transmissions sent (net_stack s0) (net_stack s) taken \<and> send_errors s0 \<le> send_errors s
     \<and> accounted acked (net_stack s0) (net_stack s) taken (send_errors s - send_errors s0)"

lemma turn_delivery:
  assumes "mqtt_turn ch nt peers from_slice ticket s = (Ok go, s')" "delivery ticket s0 taken s"
  shows "\<exists>taken'. delivery ticket s0 taken' s' \<and> taken' @ queued (net_outgoing s') = taken @ queued (net_outgoing s)"
proof -
  have "ok ticket (net_others s)" using assms(2) by (simp add: delivery_def)
  from turn_run [OF assms(1) this] obtain w where
    w: "\<forall>j. ok j w \<longleftrightarrow> ok j (net_others s)" and branch:
      "case ch_receive ch (net_outgoing s) of
         Some (m, c) \<Rightarrow> mqtt_outgoing nt m (s\<lparr>net_others := w, net_outgoing := c\<rparr>) = (Ok go, s')
       | None \<Rightarrow> mqtt_incoming nt peers from_slice (s\<lparr>net_others := w\<rparr>) = (Ok go, s')"
    by blast
  show ?thesis
  proof (cases "ch_receive ch (net_outgoing s)")
    case None
    with branch have "mqtt_incoming nt peers from_slice (s\<lparr>net_others := w\<rparr>) = (Ok go, s')" by simp
    from incoming_run [OF this, of ticket] obtain m k where m: "nt_receive nt (net_stack s) = (m, k)" "ended m"
      "net_stack s' = k" "net_outgoing s' = net_outgoing s" "ok ticket (net_others s') \<longleftrightarrow> ok ticket w" "send_errors s' = send_errors s"
      by (auto simp: send_errors_def)
    with receive [OF m(1,2)] assms(2) w have "delivery ticket s0 taken s'"
      by (simp add: delivery_def transmissions_same [of sent k "net_stack s"] accounted_same [of acked k "net_stack s"])
    with m(4) show ?thesis by auto
  next
    case (Some mc)
    then obtain m c where mc: "ch_receive ch (net_outgoing s) = Some (m, c)" by (cases mc) auto
    with branch have "mqtt_outgoing nt m (s\<lparr>net_others := w, net_outgoing := c\<rparr>) = (Ok go, s')" by simp
    from outgoing_run [OF this] obtain r k where
      r: "send_attempts nt (msg_topic m) (msg_content m) False 5 (net_stack s) = (r, k)" "ended r"
      and s': "s' = s\<lparr>net_others := w, net_outgoing := c, net_stack := k,
        net_logs := net_logs s @ (case r of Err e \<Rightarrow> [LogSendError e] | _ \<Rightarrow> [])\<rparr>"
      by (auto simp: send_message_qos1_def)
    from attempts [OF r] obtain j where j: "1 \<le> j" "j \<le> 5" "sent k = sent (net_stack s) @ replicate j (packet m)"
      "acked k = (if r = Ok () then acked (net_stack s) @ [packet m] else acked (net_stack s))"
      by (auto simp: packet_def)
    have taken: "transmissions sent (net_stack s0) k (taken @ [m])"
      using assms(2) j(1-3) by (intro transmissions_snoc [of _ _ "net_stack s"]) (simp_all add: delivery_def)
    have acc: "accounted acked (net_stack s0) (net_stack s) taken (send_errors s - send_errors s0)"
      and le: "send_errors s0 \<le> send_errors s" using assms(2) by (simp_all add: delivery_def)
    have "accounted acked (net_stack s0) k (taken @ [m]) (send_errors s' - send_errors s0) \<and> send_errors s \<le> send_errors s'"
    proof (cases r)
      case (Ok x)
      with j(4) accounted_snoc(1) [OF acc, of k m] show ?thesis by (simp add: s' send_errors_def)
    next
      case (Err e)
      with j(4) accounted_snoc(2) [OF acc, of k m] le show ?thesis by (simp add: s' send_errors_def Suc_diff_le)
    qed (use r(2) in simp_all)
    with taken assms(2) w le have "delivery ticket s0 (taken @ [m]) s'" by (simp add: delivery_def s')
    moreover have "queued (net_outgoing s) = m # queued c" using receive_Some [OF mc] .
    ultimately show ?thesis by (intro exI [of _ "taken @ [m]"]) (simp add: s')
  qed
qed

lemma steps_delivery:
  "forA (net_step_run ch nt peers from_slice ticket) steps s = (Ok (), s') \<Longrightarrow> delivery ticket s0 taken s \<Longrightarrow>
   \<exists>taken'. delivery ticket s0 taken' s' \<and> taken' @ queued (net_outgoing s') = taken @ queued (net_outgoing s) @ submitted steps"
proof (induction steps arbitrary: s taken)
  case Nil
  then show ?case by auto
next
  case (Cons step steps)
  from Cons.prems(1) obtain s1 where
    step: "net_step_run ch nt peers from_slice ticket step s = (Ok (), s1)"
    and rest: "forA (net_step_run ch nt peers from_slice ticket) steps s1 = (Ok (), s')"
    by (auto simp: bindA_Ok_iff)
  have "\<exists>taken'. delivery ticket s0 taken' s1
    \<and> taken' @ queued (net_outgoing s1) = taken @ queued (net_outgoing s) @ submitted [step]"
  proof (cases step)
    case (NxSend m)
    with step obtain c where "ch_send ch m (net_outgoing s) = Some c" "s1 = s\<lparr>net_outgoing := c\<rparr>"
      by (auto simp: net_send_def zoom_Ok_iff send_to_def split: option.splits)
    with NxSend Cons.prems(2) send_Some show ?thesis
      by (intro exI [of _ taken]) (auto simp: delivery_def send_errors_def)
  next
    case NxTurn
    with step obtain go where "mqtt_turn ch nt peers from_slice ticket s = (Ok go, s1)"
      by (auto simp: bindA_Ok_iff)
    from turn_delivery [OF this Cons.prems(2)] NxTurn show ?thesis by auto
  qed
  then obtain taken1 where t: "delivery ticket s0 taken1 s1"
    "taken1 @ queued (net_outgoing s1) = taken @ queued (net_outgoing s) @ submitted [step]" by blast
  from Cons.IH [OF rest t(1)] obtain taken' where "delivery ticket s0 taken' s'"
    "taken' @ queued (net_outgoing s') = taken1 @ queued (net_outgoing s1) @ submitted steps" by blast
  with t(2) show ?case by (intro exI [of _ taken']) (cases step; simp)
qed

end

section \<open>A broker that cannot be reached\<close>

text \<open>A state of the network in which the link is up and every connection is refused.\<close>

definition refuses :: "'k net_ops \<Rightarrow> ('k \<Rightarrow> bool) \<Rightarrow> bool" where
  "refuses nt down \<longleftrightarrow> (\<forall>k. down k \<longrightarrow> nt_is_link_up nt k
     \<and> (\<exists>e k'. nt_connect nt MQTT_ADDRESS MQTT_PORT (link_socket nt k) = (Err e, k') \<and> down k'))"

lemma refused_loop:
  assumes "refuses nt down" "down (net_stack s)"
  shows "\<exists>s'. link_loop nt (link_round ch ps nt peers from_slice seed ticket turns) rounds s = (Pending, s')
    \<and> net_others s' = net_others s"
  using assms(2)
proof (induction rounds arbitrary: s)
  case 0
  then show ?case by (simp add: pending_def)
next
  case (Suc rounds)
  from assms(1) Suc.prems obtain e k where up: "nt_is_link_up nt (net_stack s)"
    and k: "nt_connect nt MQTT_ADDRESS MQTT_PORT (link_socket nt (net_stack s)) = (Err e, k)" "down k"
    unfolding refuses_def by blast
  let ?s = "s\<lparr>net_stack := k, net_logs := net_logs s @ [LogConnectError e]\<rparr>"
  have "link_round ch ps nt peers from_slice seed ticket turns s = (Ok (), ?s)"
    by (simp add: link_round_def bindA_def tryA_def zoom_def k(1) net_log_def modifyA_def)
  moreover from Suc.IH [of ?s] k(2) obtain s' where
    "link_loop nt (link_round ch ps nt peers from_slice seed ticket turns) rounds ?s = (Pending, s')"
    "net_others s' = net_others s" by auto
  ultimately show ?case using up by (simp add: bindA_def)
qed

section \<open>The models of the other systems provide the interface\<close>

record ('f, 'g, 'm) net_world =
  nw_config :: "('f, 'g) config"
  nw_watchdog :: "'m wd_inner"

definition net_peers_of :: "profile \<Rightarrow> ('f, 'se) seq_storage \<Rightarrow> partition_entry \<Rightarrow> settings postcard \<Rightarrow>
    ('g, settings) pubsub_ops \<Rightarrow> 'm bitarray_ops \<Rightarrow> ('f, 'g, 'm) net_world net_peers" where
  "net_peers_of p ss part pc ps ba =
     \<lparr>np_ticket = zoom nw_watchdog (\<lambda>x w. w\<lparr>nw_watchdog := x\<rparr>) (wd_ticket ba),
      np_feed = (\<lambda>i. zoom nw_watchdog (\<lambda>x w. w\<lparr>nw_watchdog := x\<rparr>) (wd_ticket_feed ba i)),
      np_update = (\<lambda>f. zoom nw_config (\<lambda>x w. w\<lparr>nw_config := x\<rparr>) (config_update p ss part pc ps f))\<rparr>"

definition net_cfg :: "('f, 'g, 'm) net_world \<Rightarrow> settings" where
  "net_cfg w = cfg_settings (nw_config w)"

definition net_wd :: "('m \<Rightarrow> nat set) \<Rightarrow> ('f, 'g, 'm) net_world \<Rightarrow> wd_spec" where
  "net_wd bits w = wd_abs bits (nw_watchdog w)"

definition net_ok :: "nat \<Rightarrow> ('f, 'g, 'm) net_world \<Rightarrow> bool" where
  "net_ok i w \<longleftrightarrow> i < count (nw_watchdog w) \<and> count (nw_watchdog w) \<le> 16"

context config_system
begin

lemma update_settings:
  assumes "update f s = (Ok (), s')"
  shows "cfg_settings s' = f (cfg_settings s)"
proof (cases "f (cfg_settings s) = cfg_settings s")
  case True
  with config_update_same [where 'e = unit, of f s p ss part pc ps, OF True] assms show ?thesis by simp
next
  case False
  from update_Ok(1) [OF assms False] show ?thesis .
qed

end

lemma net_systemI:
  assumes "config_system p ss part pc stored ps history publishers backlog" "bitarray ba bits 16"
  shows "net_system (net_peers_of p ss part pc ps ba :: ('f, 'g, 'm) net_world net_peers) net_cfg (net_wd bits) net_ok"
proof
  let ?peers = "net_peers_of p ss part pc ps ba :: ('f, 'g, 'm) net_world net_peers"
  fix i j f and w w' :: "('f, 'g, 'm) net_world"
  show "net_ok i w \<Longrightarrow> i < tickets (net_wd bits w)" by (simp add: net_ok_def net_wd_def wd_abs_def)
  assume "np_update ?peers f w = (Ok (), w')"
  then show "net_cfg w' = f (net_cfg w) \<and> net_wd bits w' = net_wd bits w \<and> (\<forall>j. net_ok j w' \<longleftrightarrow> net_ok j w)"
    by (auto simp: net_peers_of_def zoom_Ok_iff net_cfg_def net_wd_def net_ok_def
        dest: config_system.update_settings [OF assms(1)])
next
  let ?peers = "net_peers_of p ss part pc ps ba :: ('f, 'g, 'm) net_world net_peers"
  fix i and w :: "('f, 'g, 'm) net_world"
  assume "net_ok i w"
  then have "i < 16" "count (nw_watchdog w) \<le> 16" by (auto simp: net_ok_def)
  from bitarray.feed_refines [OF assms(2) this] obtain x where
    "(wd_feed ba i :: ('m wd_inner, unit, unit) act) (nw_watchdog w) = (Ok (), x)"
    "wd_abs bits x = spec_feed i (wd_abs bits (nw_watchdog w))" "count x = count (nw_watchdog w)" by blast
  then show "\<exists>w'. np_feed ?peers i w = (Ok (), w') \<and> net_wd bits w' = spec_feed i (net_wd bits w)
      \<and> net_cfg w' = net_cfg w \<and> (\<forall>j. net_ok j w' \<longleftrightarrow> net_ok j w)"
    by (simp add: net_peers_of_def zoom_def wd_ticket_feed_def net_wd_def net_cfg_def net_ok_def)
qed

section \<open>A simulated network\<close>

text \<open>
  The link comes up after a number of naps; the broker accepts connections or not; the answers to the
  next messages, all others are acknowledged; the messages that arrive.
\<close>

record sim_net =
  sn_naps :: nat
  sn_accepts :: bool
  sn_answers :: "(reason_code, unit) outcome list"
  sn_inbox :: "(reason_code, packet) outcome list"
  sn_sent :: "packet list"
  sn_acked :: "packet list"

definition sim_nt :: "sim_net net_ops" where
  "sim_nt = \<lparr>
     nt_is_link_up = (\<lambda>k. sn_naps k = 0),
     nt_has_address = (\<lambda>k. True),
     nt_socket = (\<lambda>rx tx secs k. k),
     nt_connect = (\<lambda>a p k. (if sn_accepts k then Ok () else Err 111, k)),
     nt_client = (\<lambda>conf wr rd k. k),
     nt_connect_to_broker = ret (),
     nt_subscribe = (\<lambda>t. ret ()),
     nt_send = (\<lambda>t c r k.
       let a = (case sn_answers k of [] \<Rightarrow> Ok () | a # as \<Rightarrow> a) in
       (a, k\<lparr>sn_answers := tl (sn_answers k), sn_sent := sn_sent k @ [(t, c)],
             sn_acked := (if a = Ok () then sn_acked k @ [(t, c)] else sn_acked k)\<rparr>)),
     nt_receive = (\<lambda>k. case sn_inbox k of [] \<Rightarrow> (Pending, k) | m # ms \<Rightarrow> (m, k\<lparr>sn_inbox := ms\<rparr>)),
     nt_after_millis = (\<lambda>n k. (Ok (), k\<lparr>sn_naps := sn_naps k - 1\<rparr>))\<rparr>"

interpretation sim_client: mqtt_client sim_nt sn_sent sn_acked
  by unfold_locales (auto simp: sim_nt_def Let_def split: list.splits)

abbreviation ref_bits :: "u16 \<Rightarrow> nat set" where
  "ref_bits m \<equiv> {i. bit m i}"

type_synonym ref_net_world = "(ref_flash, settings list \<times> nat \<times> nat, u16) net_world"

abbreviation ref_net_peers :: "ref_net_world net_peers" where
  "ref_net_peers \<equiv> net_peers_of Release ref_ss ref_nvs ref_settings_pc ref_ps ref_ba"

interpretation ref_net: net_system ref_net_peers net_cfg "net_wd ref_bits" net_ok
  by (rule net_systemI [OF ref_config.config_system_axioms rba.bitarray_axioms])

interpretation sim_net_client: net_client sim_nt sn_sent sn_acked ref_net_peers net_cfg "net_wd ref_bits" net_ok "ref_ch 1" "\<lambda>c. c" 1
  by (intro net_client.intro sim_client.mqtt_client_axioms ref_net.net_system_axioms rch.bounded_channel_axioms)

text \<open>A decoder that reads the back-off from one byte.\<close>

definition ref_from_slice :: "u8 list \<Rightarrow> settings_builder option" where
  "ref_from_slice buf = (case buf of
       [b] \<Rightarrow> Some \<lparr>builder_vout_mv = None, builder_iout_ma = None, builder_backoff_ms = Some (ucast b)\<rparr>
     | _ \<Rightarrow> None)"

text \<open>A device with two tickets, of which the network has the first.\<close>

definition ref_net_world :: ref_net_world where
  "ref_net_world = \<lparr>nw_config = ref_system, nw_watchdog = (wd_init ref_ba)\<lparr>count := 2\<rparr>\<rparr>"

type_synonym ref_net = "(message list, net_event list \<times> nat \<times> nat, sim_net, ref_net_world) net"

definition sim_start :: "sim_net \<Rightarrow> ref_net" where
  "sim_start k = \<lparr>net_outgoing = [], net_event_channel = ([], 0, 0), net_stack = k,
     net_others = ref_net_world, net_logs = []\<rparr>"

definition sim_idle :: sim_net where
  "sim_idle = \<lparr>sn_naps = 0, sn_accepts = True, sn_answers = [], sn_inbox = [], sn_sent = [], sn_acked = []\<rparr>"

abbreviation ref_step :: "net_step \<Rightarrow> (ref_net, unit, unit) act" where
  "ref_step \<equiv> net_step_run (ref_ch 1) sim_nt ref_net_peers ref_from_slice 0"

lemma ref_ok: "net_ok 0 ref_net_world"
  by (simp add: net_ok_def ref_net_world_def)

section \<open>Properties\<close>

text \<open>C13: The messages that other tasks send go out in the order in which they were sent.  Whatever the
  turns of the client and the sends of other tasks, those taken from the queue so far are the first
  ones submitted and the rest waits in the queue; each taken one was transmitted one to five times
  before the next, and each was acknowledged by the broker or its failure was logged.\<close>

theorem messages_sent_in_order:
  fixes s :: "('c, 'q, 'k, 'w) net"
  assumes "mqtt_client nt sent acked" "net_system peers cfg wd ok" "bounded_channel ch queued cap"
    and "ok ticket (net_others s)" "queued (net_outgoing s) = []"
    and "forA (net_step_run ch nt peers from_slice ticket) steps s = (Ok (), s')"
  shows "\<exists>taken. submitted steps = taken @ queued (net_outgoing s')
    \<and> transmissions sent (net_stack s) (net_stack s') taken
    \<and> accounted acked (net_stack s) (net_stack s') taken (send_errors s' - send_errors s)"
proof -
  note client = net_client.intro [OF assms(1-3)]
  have "net_client.delivery sent acked ok ticket s [] s"
    by (simp add: net_client.delivery_def [OF client] assms(4) transmissions_def accounted_def)
  from net_client.steps_delivery [OF client assms(6) this] assms(5) obtain taken where
    "net_client.delivery sent acked ok ticket s taken s'" "taken @ queued (net_outgoing s') = submitted steps" by auto
  then show ?thesis
    by (intro exI [of _ taken]) (simp add: net_client.delivery_def [OF client])
qed

text \<open>Three messages: one acknowledged at the second attempt, one that fails, one that waits.\<close>

definition sample :: "u8 \<Rightarrow> message" where
  "sample n = \<lparr>msg_topic = ''slakkotron/stats'', msg_content = [n]\<rparr>"

definition sample_steps :: "net_step list" where
  "sample_steps = [NxSend (sample 1), NxTurn, NxSend (sample 2), NxTurn, NxSend (sample 3)]"

definition sim_flaky :: sim_net where
  "sim_flaky = sim_idle\<lparr>sn_answers := [Err ImplementationSpecificError, Ok (), Err NetworkError]\<rparr>"

lemma ref_feed_0:
  "np_feed ref_net_peers 0 ref_net_world = (Ok (), ref_net_world\<lparr>nw_watchdog := (nw_watchdog ref_net_world)\<lparr>mask := 1\<rparr>\<rparr>)"
  "np_feed ref_net_peers 0 (ref_net_world\<lparr>nw_watchdog := (nw_watchdog ref_net_world)\<lparr>mask := 1\<rparr>\<rparr>)
    = (Ok (), ref_net_world\<lparr>nw_watchdog := (nw_watchdog ref_net_world)\<lparr>mask := 1\<rparr>\<rparr>)"
  by (simp_all add: net_peers_of_def zoom_def wd_ticket_feed_def wd_feed_def ref_net_world_def ref_ba_def wd_init_def
      Let_def set_bit_eq numeral_2_eq_2)

lemma sample_run:
  "\<exists>s'. forA ref_step sample_steps (sim_start sim_flaky) = (Ok (), s') \<and> net_outgoing s' = [sample 3]
    \<and> sn_sent (net_stack s') = [packet (sample 1), packet (sample 1), packet (sample 2)] \<and> send_errors s' = 1"
  by (simp add: sample_steps_def sim_start_def sim_flaky_def sim_idle_def net_send_def send_to_def zoom_def bindA_def
      ref_ch_def mqtt_turn_def ref_feed_0 mqtt_outgoing_def tryA_def send_message_qos1_def sim_nt_def Let_def
      packet_def net_log_def modifyA_def send_errors_def eval_nat_numeral ret_def)

theorem messages_sent_in_order_witness:
  "\<exists>s' taken. forA ref_step sample_steps (sim_start sim_flaky) = (Ok (), s') \<and> net_outgoing s' = [sample 3]
    \<and> taken = [sample 1, sample 2] \<and> transmissions sn_sent sim_flaky (net_stack s') taken
    \<and> accounted sn_acked sim_flaky (net_stack s') taken 1"
proof -
  from sample_run obtain s' where run: "forA ref_step sample_steps (sim_start sim_flaky) = (Ok (), s')"
    and s': "net_outgoing s' = [sample 3]" "send_errors s' = 1" by blast
  have start: "net_ok 0 (net_others (sim_start sim_flaky))" "net_outgoing (sim_start sim_flaky) = []"
    and none: "send_errors (sim_start sim_flaky) = 0" "net_stack (sim_start sim_flaky) = sim_flaky"
    by (simp_all add: sim_start_def ref_ok send_errors_def)
  from messages_sent_in_order [OF sim_client.mqtt_client_axioms ref_net.net_system_axioms
      rch.bounded_channel_axioms start run]
  obtain taken where taken: "submitted sample_steps = taken @ [sample 3]"
    "transmissions sn_sent sim_flaky (net_stack s') taken" "accounted sn_acked sim_flaky (net_stack s') taken 1"
    by (auto simp: s' none)
  then have "taken = [sample 1, sample 2]" by (auto simp: sample_steps_def)
  with run s' taken show ?thesis by blast
qed

text \<open>C29: Sending with retries is the first answer that is not \<open>ImplementationSpecificError\<close> among at most
  five calls of the client, with the state after that call, and that error with the state after the
  fifth call when there is none.\<close>

theorem send_retries_five_times:
  "(\<forall>j < 5. (\<forall>i < j. answer nt t c r i k = Err ImplementationSpecificError)
        \<and> answer nt t c r j k \<noteq> Err ImplementationSpecificError \<longrightarrow>
      send_message_qos1 nt t c r k = (answer nt t c r j k, sends nt t c r (Suc j) k))
   \<and> ((\<forall>i < 5. answer nt t c r i k = Err ImplementationSpecificError) \<longrightarrow>
      send_message_qos1 nt t c r k = (Err ImplementationSpecificError, sends nt t c r 5 k))"
  using attempts_answer [where n = 5] attempts_exhausted [where n = 5] by (auto simp: send_message_qos1_def)

theorem send_retries_five_times_witness:
  "fst (send_message_qos1 sim_nt ''t'' [1] False sim_flaky) = Ok ()
   \<and> fst (send_message_qos1 sim_nt ''t'' [1] False
        (sim_idle\<lparr>sn_answers := replicate 5 (Err ImplementationSpecificError)\<rparr>)) = Err ImplementationSpecificError"
proof
  let ?send = "\<lambda>j. answer sim_nt ''t'' [1] False j"
  have "\<forall>i < 1. ?send i sim_flaky = Err ImplementationSpecificError" "?send 1 sim_flaky = Ok ()"
    by (simp_all add: answer_def sends_def sim_nt_def sim_flaky_def)
  then show "fst (send_message_qos1 sim_nt ''t'' [1] False sim_flaky) = Ok ()"
    using send_retries_five_times [THEN conjunct1, rule_format, of 1 sim_nt "''t''" "[1]" False sim_flaky] by simp
  have "?send i (sim_idle\<lparr>sn_answers := replicate 5 (Err ImplementationSpecificError)\<rparr>) = Err ImplementationSpecificError"
    if "i < 5" for i :: nat
    using that by (auto simp: eval_nat_numeral less_Suc_eq answer_def sends_def sim_nt_def Let_def)
  then show "fst (send_message_qos1 sim_nt ''t'' [1] False
      (sim_idle\<lparr>sn_answers := replicate 5 (Err ImplementationSpecificError)\<rparr>)) = Err ImplementationSpecificError"
    using send_retries_five_times [THEN conjunct2, rule_format, of sim_nt "''t''" "[1]" False
        "sim_idle\<lparr>sn_answers := replicate 5 (Err ImplementationSpecificError)\<rparr>"] by simp
qed

text \<open>C20: What a turn of the connected client does.  The ticket is fed once.  A message that waits in the
  queue goes first, whatever has arrived, and leaves the settings alone.  Otherwise what the client
  receives is handled: a message on the topic of the configuration that parses changes the fields it
  holds and every other message, error and topic leaves the settings; the loop ends exactly on a
  network error.\<close>

theorem mqtt_turn_effects:
  fixes s :: "('c, 'q, 'k, 'w) net"
  assumes "net_system peers cfg wd ok" "bounded_channel ch queued cap" "ok ticket (net_others s)"
    and "mqtt_turn ch nt peers from_slice ticket s = (Ok go, s')"
  shows "wd (net_others s') = spec_feed ticket (wd (net_others s))
    \<and> (case queued (net_outgoing s) of
         m # ms \<Rightarrow> go \<and> queued (net_outgoing s') = ms \<and> cfg (net_others s') = cfg (net_others s)
       | [] \<Rightarrow> (let m = fst (nt_receive nt (net_stack s)) in
           queued (net_outgoing s') = [] \<and> (go \<longleftrightarrow> m \<noteq> Err NetworkError)
           \<and> cfg (net_others s') = (case m of
               Ok (topic, buf) \<Rightarrow> settings_after from_slice topic buf (cfg (net_others s)) | _ \<Rightarrow> cfg (net_others s))))"
proof -
  from net_system.turn_run [OF assms(1,4,3)] obtain w where
    w: "wd w = spec_feed ticket (wd (net_others s))" "cfg w = cfg (net_others s)" and branch:
      "case ch_receive ch (net_outgoing s) of
         Some (m, c) \<Rightarrow> mqtt_outgoing nt m (s\<lparr>net_others := w, net_outgoing := c\<rparr>) = (Ok go, s')
       | None \<Rightarrow> mqtt_incoming nt peers from_slice (s\<lparr>net_others := w\<rparr>) = (Ok go, s')" by blast
  show ?thesis
  proof (cases "queued (net_outgoing s)")
    case Nil
    from bounded_channel.receive_none [OF assms(2) Nil] branch
    have "mqtt_incoming nt peers from_slice (s\<lparr>net_others := w\<rparr>) = (Ok go, s')" by simp
    moreover have "net_others (s\<lparr>net_others := w\<rparr>) = w" by simp
    ultimately obtain m k where
      "nt_receive nt (net_stack s) = (m, k)" "net_outgoing s' = net_outgoing s" "wd (net_others s') = wd w"
      "cfg (net_others s') = (case m of
          Ok (topic, buf) \<Rightarrow> settings_after from_slice topic buf (cfg (net_others s)) | _ \<Rightarrow> cfg (net_others s))"
      "go \<longleftrightarrow> m \<noteq> Err NetworkError"
      by (auto simp: w dest!: net_system.incoming_run [OF assms(1), where i = ticket] split: outcome.splits)
    with Nil w show ?thesis by (simp add: Let_def)
  next
    case (Cons m ms)
    from bounded_channel.receive_some [OF assms(2) Cons] obtain c where
      c: "ch_receive ch (net_outgoing s) = Some (m, c)" "queued c = ms" by blast
    with branch have "mqtt_outgoing nt m (s\<lparr>net_others := w, net_outgoing := c\<rparr>) = (Ok go, s')" by simp
    from outgoing_run [OF this] c w Cons show ?thesis by auto
  qed
qed

definition sim_config :: sim_net where
  "sim_config = sim_idle\<lparr>sn_inbox := [Ok (''slakkotron/config'', [250])]\<rparr>"

abbreviation ref_net_turn :: "(ref_net, unit, bool) act" where
  "ref_net_turn \<equiv> mqtt_turn (ref_ch 1) sim_nt ref_net_peers ref_from_slice 0"

lemma sim_config_run: "\<exists>s'. ref_net_turn (sim_start sim_config) = (Ok True, s')"
proof -
  let ?b = "\<lparr>builder_vout_mv = None, builder_iout_ma = None, builder_backoff_ms = Some 250\<rparr>"
  have "settings_integrate ?b settings_default \<noteq> settings_default"
    by (simp add: settings_integrate_def settings_default_def)
  then obtain c where
    c: "(config_update Release ref_ss ref_nvs ref_settings_pc ref_ps (settings_integrate ?b) ::
      ((ref_flash, settings list \<times> nat \<times> nat) config, unit, unit) act) ref_system = (Ok (), c)"
    using ref_update_Ok [where 'e = unit, of "settings_integrate ?b"] by blast
  then have "np_update ref_net_peers (settings_integrate ?b)
      (ref_net_world\<lparr>nw_watchdog := (nw_watchdog ref_net_world)\<lparr>mask := 1\<rparr>\<rparr>)
    = (Ok (), ref_net_world\<lparr>nw_watchdog := (nw_watchdog ref_net_world)\<lparr>mask := 1\<rparr>, nw_config := c\<rparr>)"
    by (simp add: net_peers_of_def zoom_def ref_net_world_def)
  then show ?thesis
    by (simp add: mqtt_turn_def sim_start_def bindA_def zoom_def ref_feed_0 ref_ch_def mqtt_incoming_def tryA_def
        sim_nt_def sim_config_def sim_idle_def process_message_def topic_try_parse_def ref_from_slice_def
        net_log_def modifyA_def ret_def)
qed

theorem mqtt_turn_effects_witness:
  "\<exists>s'. ref_net_turn (sim_start sim_config) = (Ok True, s') \<and> backoff_ms (net_cfg (net_others s')) = 250
    \<and> seen (net_wd ref_bits (net_others s')) = {0}"
proof -
  from sim_config_run obtain s' where run: "ref_net_turn (sim_start sim_config) = (Ok True, s')" by blast
  have start: "net_ok 0 (net_others (sim_start sim_config))" by (simp add: sim_start_def ref_ok)
  note effects = mqtt_turn_effects [OF ref_net.net_system_axioms rch.bounded_channel_axioms start run]
  have wd: "net_wd ref_bits ref_net_world = \<lparr>tickets = 2, seen = {}, feeds = 0\<rparr>"
    by (simp add: net_wd_def wd_abs_def ref_net_world_def wd_init_def ref_ba_def)
  have "\<not> {..<2::nat} \<subseteq> {0}" using subsetD [of "{..<2::nat}" "{0}" 1] by auto
  with effects [THEN conjunct1] have "seen (net_wd ref_bits (net_others s')) = {0}"
    by (simp add: sim_start_def wd spec_feed_def)
  moreover have "net_cfg (net_others s') = settings_after ref_from_slice ''slakkotron/config'' [250] settings_default"
    using effects [THEN conjunct2]
    by (simp add: sim_start_def sim_nt_def sim_config_def net_cfg_def ref_net_world_def ref_system_def)
  then have "backoff_ms (net_cfg (net_others s')) = 250"
    by (simp add: settings_after_def ref_from_slice_def settings_integrate_def)
  ultimately show ?thesis using run by blast
qed



text \<open>C28: A broker that cannot be reached starves the ticket of the network: as long as the link is up and
  every connection is refused, \<open>link_up\<close> goes on for ever and has fed its ticket once, so that the
  hardware watchdog is fed at most once more, however often the other tickets are fed.\<close>

theorem refused_broker_starves_watchdog:
  fixes s :: "('c, 'q, 'k, 'w) net"
  assumes "net_system peers cfg wd ok" "ok ticket (net_others s)" "refuses nt down" "down (net_stack s)"
  shows "\<exists>s'. link_up ch ps nt peers from_slice seed ticket turns rounds s = (Pending, s')
    \<and> wd (net_others s') = spec_feed ticket (wd (net_others s))
    \<and> (\<forall>is. ticket \<notin> set is \<longrightarrow> feeds (fold spec_feed is (wd (net_others s'))) \<le> Suc (feeds (wd (net_others s))))"
proof -
  from net_system.feed [OF assms(1,2)] obtain w where
    w: "np_feed peers ticket (net_others s) = (Ok (), w)" "wd w = spec_feed ticket (wd (net_others s))" by blast
  let ?s = "s\<lparr>net_event_channel := ps_publish_immediate ps ConnectedWifi (net_event_channel s), net_others := w\<rparr>"
  from refused_loop [OF assms(3), of ?s ch ps peers from_slice seed ticket turns rounds] assms(4) obtain s' where
    s': "link_loop nt (link_round ch ps nt peers from_slice seed ticket turns) rounds ?s = (Pending, s')"
    "net_others s' = w" by fastforce
  then have "link_up ch ps nt peers from_slice seed ticket turns rounds s = (Pending, s')"
    by (simp add: link_up_def bindA_def publish_event_def modifyA_def zoom_def w(1))
  moreover have "feeds (fold spec_feed is (wd w)) \<le> Suc (feeds (wd (net_others s)))" if "ticket \<notin> set is" for "is"
    using starved_one_feed [of ticket "wd w" "is"] that net_system.registered [OF assms(1,2)] w(2)
    by (auto simp: spec_feed_def split: if_splits)
  ultimately show ?thesis using s'(2) w(2) by auto
qed

theorem refused_broker_starves_watchdog_witness:
  "\<exists>s'. link_up (ref_ch 1) ref_ps sim_nt ref_net_peers ref_from_slice 9 0 4 100
      (sim_start (sim_idle\<lparr>sn_accepts := False\<rparr>)) = (Pending, s')
    \<and> feeds (fold spec_feed [1, 1, 1] (net_wd ref_bits (net_others s'))) \<le> 1"
proof -
  let ?s = "sim_start (sim_idle\<lparr>sn_accepts := False\<rparr>)"
  have "net_ok 0 (net_others ?s)" by (simp add: sim_start_def ref_ok)
  moreover have "refuses sim_nt (\<lambda>k. sn_naps k = 0 \<and> \<not> sn_accepts k)" by (simp add: refuses_def sim_nt_def link_socket_def)
  moreover have "sn_naps (net_stack ?s) = 0 \<and> \<not> sn_accepts (net_stack ?s)" by (simp add: sim_start_def sim_idle_def)
  moreover have "feeds (net_wd ref_bits (net_others ?s)) = 0"
    by (simp add: net_wd_def wd_abs_def sim_start_def ref_net_world_def wd_init_def)
  ultimately obtain s' where
    "link_up (ref_ch 1) ref_ps sim_nt ref_net_peers ref_from_slice 9 0 4 100 ?s = (Pending, s')"
    and feeds: "\<forall>is. 0 \<notin> set is \<longrightarrow> feeds (fold spec_feed is (net_wd ref_bits (net_others s'))) \<le> 1"
    using refused_broker_starves_watchdog [OF ref_net.net_system_axioms, of 0 ?s sim_nt "\<lambda>k. sn_naps k = 0 \<and> \<not> sn_accepts k"
        "ref_ch 1" ref_ps ref_from_slice 9 4 100] by auto
  with feeds [rule_format, of "[1, 1, 1]"] show ?thesis by auto
qed

end
