(* ===== verification/Events.thy ===== *)
theory Events
  imports Stats Net
begin

text \<open>
  \<open>systems/events.rs\<close>: the task that answers a new connection by publishing the counters and the
  settings, and the task that turns what the systems publish into messages for the broker.  With it,
  what the derived \<open>Serialize\<close> of the published data hands to the serializer.
\<close>

section \<open>The published data as JSON\<close>

fun power_state_name :: "power_state \<Rightarrow> string" where
  "power_state_name Disabled = ''disabled''"
| "power_state_name Enabled = ''enabled''"
| "power_state_name Enabling = ''enabling''"
| "power_state_name Ocp = ''ocp''"

definition stats_json :: "stats_data \<Rightarrow> json_object" where
  "stats_json d = [
     (''vsupply_mv'', JNum (unat (mv_of (stats_vsupply_mv d)))),
     (''vprog_mv'', JNum (unat (mv_of (stats_vprog_mv d)))),
     (''vout_mv'', JNum (unat (mv_of (stats_vout_mv d)))),
     (''uptime_secs'', JNum (unat (uptime_secs d))),
     (''idle_permille'', JNum (unat (idle_permille d))),
     (''vout_state'', JName (power_state_name (vout_state d)))]"

definition record_json :: "record_data \<Rightarrow> json_object" where
  "record_json d = [
     (''overcurrent_count'', JNum (unat (overcurrent_count d))),
     (''overcurrent_secs'', JNum (unat (overcurrent_secs d)))]"

definition settings_json :: "settings \<Rightarrow> json_object" where
  "settings_json v = [
     (''vout_mv'', JNum (unat (mv_of (vout_mv v)))),
     (''iout_ma'', JNum (unat (ma_of (iout_ma v)))),
     (''backoff_ms'', JNum (unat (backoff_ms v)))]"

section \<open>The tasks\<close>

text \<open>What a subscriber answers: a message, or how many it has missed.\<close>

datatype 'a wait_result = GotMessage 'a | Lagged nat

record ('f, 'c, 'r, 'g) events_peers =
  ev_record :: "('f, 'c, 'r) record_sys"
  ev_config :: "('f, 'g) config"

definition events_net_turn :: "('r, record_data) pubsub_ops \<Rightarrow> ('g, settings) pubsub_ops \<Rightarrow>
    net_event wait_result \<Rightarrow> (('f, 'c, 'r, 'g) events_peers, 'e, unit) act" where
  "events_net_turn rps cps m =
     (case m of
        GotMessage ConnectedMQTT \<Rightarrow>
          seqA (zoom ev_record (\<lambda>x s. s\<lparr>ev_record := x\<rparr>) (record_publish_immediate rps))
               (zoom ev_config (\<lambda>x s. s\<lparr>ev_config := x\<rparr>) (config_publish_immediate cps))
      | _ \<Rightarrow> ret ())"

text \<open>
  The subscribers of the publishing task: each answers, with its state after, or waits.  \<open>select3\<close> asks
  them in order and takes the first that is ready.
\<close>

record 'u event_subs =
  next_stats :: "'u \<Rightarrow> (stats_data wait_result \<times> 'u) option"
  next_record :: "'u \<Rightarrow> (record_data wait_result \<times> 'u) option"
  next_config :: "'u \<Rightarrow> (settings wait_result \<times> 'u) option"

datatype either3 =
    FirstReady "stats_data wait_result" | SecondReady "record_data wait_result" | ThirdReady "settings wait_result"

definition events_select :: "'u event_subs \<Rightarrow> 'u \<Rightarrow> (either3 \<times> 'u) option" where
  "events_select subs u =
     (case next_stats subs u of
        Some (m, u') \<Rightarrow> Some (FirstReady m, u')
      | None \<Rightarrow> (case next_record subs u of
            Some (m, u') \<Rightarrow> Some (SecondReady m, u')
          | None \<Rightarrow> (case next_config subs u of
                Some (m, u') \<Rightarrow> Some (ThirdReady m, u')
              | None \<Rightarrow> None)))"

text \<open>The message for what was received, if any: a report that the task has missed has none.\<close>

fun events_message :: "json_writer \<Rightarrow> either3 \<Rightarrow> (net_error + message) option" where
  "events_message to_slice (FirstReady (GotMessage m)) = Some (message_new to_slice TopicStats (stats_json m))"
| "events_message to_slice (SecondReady (GotMessage m)) = Some (message_new to_slice TopicRecord (record_json m))"
| "events_message to_slice (ThirdReady (GotMessage m)) = Some (message_new to_slice TopicConfig (settings_json m))"
| "events_message to_slice _ = None"

fun_cases events_messageE: "events_message to_slice m = Some new"

record ('u, 'n) events_task =
  et_subs :: 'u
  et_net :: 'n

definition events_publish_turn :: "json_writer \<Rightarrow> ('c, message) channel_ops \<Rightarrow> 'u event_subs \<Rightarrow>
    (('u, ('c, 'q, 'k, 'w) net) events_task, 'e, unit) act" where
  "events_publish_turn to_slice ch subs s =
     (case events_select subs (et_subs s) of
        None \<Rightarrow> (Pending, s)
      | Some (m, u) \<Rightarrow>
          (case events_message to_slice m of
             None \<Rightarrow> ret ()
           | Some (Inl e) \<Rightarrow> panic
           | Some (Inr msg) \<Rightarrow> zoom et_net (\<lambda>n s. s\<lparr>et_net := n\<rparr>) (net_send ch msg)) (s\<lparr>et_subs := u\<rparr>))"

section \<open>Sizes\<close>

lemma dec_u16: "length (dec_digits (unat (x :: u16))) \<le> 5"
  using unat_u16_bound [of x] by (intro length_dec_digits) simp_all

lemma dec_u64: "length (dec_digits (unat (x :: u64))) \<le> 20"
  using unsigned_less [of x, where ?'a = nat] by (intro length_dec_digits) simp_all

lemma plain_names:
  "list_all plain_member (stats_json d)" "list_all plain_member (record_json r)" "list_all plain_member (settings_json v)"
  by (cases "vout_state d") (simp_all add: stats_json_def record_json_def settings_json_def plain_char_def)

lemma record_size: "length (object_text (record_json r)) \<le> 82"
  using dec_u64 [of "overcurrent_count r"] dec_u64 [of "overcurrent_secs r"]
  by (subst length_object_text) (simp_all add: record_json_def)

lemma settings_size: "length (object_text (settings_json v)) \<le> 52"
  using dec_u16 [of "mv_of (vout_mv v)"] dec_u16 [of "ma_of (iout_ma v)"] dec_u16 [of "backoff_ms v"]
  by (subst length_object_text) (simp_all add: settings_json_def)

lemma stats_size:
  assumes "unat (uptime_secs d) < 10 ^ 15" "idle_permille d \<le> 1000"
  shows "length (object_text (stats_json d)) \<le> 128"
proof -
  have "unat (idle_permille d) < 10 ^ 4" using assms(2) by (simp add: word_le_nat_alt)
  then have "length (dec_digits (unat (idle_permille d))) \<le> 4" by (rule length_dec_digits) simp
  moreover have "length (dec_digits (unat (uptime_secs d))) \<le> 15" by (rule length_dec_digits [OF assms(1)]) simp
  moreover have "length (power_state_name (vout_state d)) \<le> 8" by (cases "vout_state d") simp_all
  ultimately show ?thesis
    using dec_u16 [of "mv_of (stats_vsupply_mv d)"] dec_u16 [of "mv_of (stats_vprog_mv d)"]
      dec_u16 [of "mv_of (stats_vout_mv d)"]
    by (subst length_object_text) (simp_all add: stats_json_def)
qed

context json_crate
begin

lemma new_message:
  assumes "list_all plain_member ms" "length (object_text ms) \<le> CONTENT_SIZE"
  shows "\<exists>msg. message_new to_slice topic ms = Inr msg \<and> topic_to_str topic = Some (msg_topic msg)
    \<and> msg_content msg = map of_char (object_text ms)"
  using assms to_slice_plain [OF assms(1), of CONTENT_SIZE]
  by (cases topic) (simp_all add: message_new_def bounded_string_def TOPIC_SIZE_def)

lemma too_large:
  assumes "list_all plain_member ms" "CONTENT_SIZE < length (object_text ms)"
  shows "message_new to_slice topic ms = Inl ContentTooLarge"
  using assms to_slice_plain [OF assms(1), of CONTENT_SIZE]
  by (cases topic) (simp_all add: message_new_def bounded_string_def TOPIC_SIZE_def)

end

text \<open>The selection keeps what the subscribers promise of their reports.\<close>

definition fits :: "either3 \<Rightarrow> bool" where
  "fits m \<longleftrightarrow> (\<forall>d. m = FirstReady (GotMessage d) \<longrightarrow> unat (uptime_secs d) < 10 ^ 15 \<and> idle_permille d \<le> 1000)"

lemma select_fits:
  assumes "events_select subs u = Some (m, u')"
    and "\<forall>d u'. next_stats subs u = Some (GotMessage d, u') \<longrightarrow> unat (uptime_secs d) < 10 ^ 15 \<and> idle_permille d \<le> 1000"
  shows "fits m"
  using assms by (auto simp: events_select_def fits_def split: option.splits)

lemma fits_message:
  assumes "json_crate to_slice" "fits m" "events_message to_slice m = Some new"
  shows "\<exists>msg. new = Inr msg"
proof -
  note new = json_crate.new_message [OF assms(1)]
  consider d where "m = FirstReady (GotMessage d)" | r where "m = SecondReady (GotMessage r)"
    | v where "m = ThirdReady (GotMessage v)"
    using assms(3) by (elim events_messageE)
  then show ?thesis
  proof cases
    case (1 d)
    with assms(2) have "length (object_text (stats_json d)) \<le> CONTENT_SIZE"
      using stats_size [of d] by (simp add: fits_def CONTENT_SIZE_def)
    with new [OF plain_names(1)] 1 assms(3) show ?thesis by fastforce
  next
    case (2 r)
    have "length (object_text (record_json r)) \<le> CONTENT_SIZE" using record_size [of r] by (simp add: CONTENT_SIZE_def)
    with new [OF plain_names(2)] 2 assms(3) show ?thesis by fastforce
  next
    case (3 v)
    have "length (object_text (settings_json v)) \<le> CONTENT_SIZE" using settings_size [of v] by (simp add: CONTENT_SIZE_def)
    with new [OF plain_names(3)] 3 assms(3) show ?thesis by fastforce
  qed
qed

section \<open>Properties\<close>

text \<open>C26: The messages of the publishing task fit their buffer of 128 bytes, so that its \<open>unwrap\<close> never
  panics: those of the counters and of the settings always, and a report whenever its idle share is at
  most 1000 and the device has been up for less than 10^15 seconds.  The bound is tight: a report one
  digit longer is refused.\<close>

theorem published_messages_fit:
  assumes "json_crate to_slice"
  shows "(\<exists>msg. message_new to_slice TopicRecord (record_json r) = Inr msg)
    \<and> (\<exists>msg. message_new to_slice TopicConfig (settings_json v) = Inr msg)
    \<and> (unat (uptime_secs d) < 10 ^ 15 \<and> idle_permille d \<le> 1000
        \<longrightarrow> (\<exists>msg. message_new to_slice TopicStats (stats_json d) = Inr msg))
    \<and> message_new to_slice TopicStats (stats_json
        \<lparr>stats_vsupply_mv = Millivolts 10000, stats_vprog_mv = Millivolts 10000, stats_vout_mv = Millivolts 10000,
         uptime_secs = 1000000000000000, idle_permille = 1000, vout_state = Disabled\<rparr>) = Inl ContentTooLarge"
proof (intro conjI impI)
  note new = json_crate.new_message [OF assms plain_names(2)] json_crate.new_message [OF assms plain_names(3)]
  show "\<exists>msg. message_new to_slice TopicRecord (record_json r) = Inr msg"
    using new(1) [of r TopicRecord] record_size [of r] by (auto simp: CONTENT_SIZE_def)
  show "\<exists>msg. message_new to_slice TopicConfig (settings_json v) = Inr msg"
    using new(2) [of v TopicConfig] settings_size [of v] by (auto simp: CONTENT_SIZE_def)
  show "\<exists>msg. message_new to_slice TopicStats (stats_json d) = Inr msg"
    if "unat (uptime_secs d) < 10 ^ 15 \<and> idle_permille d \<le> 1000"
    using json_crate.new_message [OF assms plain_names(1), of d TopicStats] stats_size [of d] that
    by (auto simp: CONTENT_SIZE_def)
  show "message_new to_slice TopicStats (stats_json
      \<lparr>stats_vsupply_mv = Millivolts 10000, stats_vprog_mv = Millivolts 10000, stats_vout_mv = Millivolts 10000,
       uptime_secs = 1000000000000000, idle_permille = 1000, vout_state = Disabled\<rparr>) = Inl ContentTooLarge"
    by (rule json_crate.too_large [OF assms plain_names(1)])
      (subst length_object_text; simp add: stats_json_def CONTENT_SIZE_def dec_digits.simps)
qed

text \<open>The largest report that fits, one second before.\<close>

definition longest_report :: stats_data where
  "longest_report = \<lparr>stats_vsupply_mv = Millivolts 65535, stats_vprog_mv = Millivolts 65534,
     stats_vout_mv = Millivolts 65535, uptime_secs = 999999999999999, idle_permille = 1000, vout_state = Disabled\<rparr>"

theorem published_messages_fit_witness:
  "\<exists>msg. message_new ref_json TopicStats (stats_json longest_report) = Inr msg"
  using published_messages_fit [OF rjson.json_crate_axioms, of record_data_default settings_default longest_report]
  by (simp add: longest_report_def)


text \<open>A task whose subscribers have a report of the counters and settings, and none of the statistics.\<close>

definition pending_subs :: "(record_data list \<times> settings list) event_subs" where
  "pending_subs = \<lparr>
     next_stats = (\<lambda>u. None),
     next_record = (\<lambda>(r, v). case r of [] \<Rightarrow> None | x # xs \<Rightarrow> Some (GotMessage x, (xs, v))),
     next_config = (\<lambda>(r, v). case v of [] \<Rightarrow> None | x # xs \<Rightarrow> Some (GotMessage x, (r, xs)))\<rparr>"

type_synonym ref_events_task = "(record_data list \<times> settings list, ref_net) events_task"

definition pending_task :: ref_events_task where
  "pending_task = \<lparr>et_subs = ([record_data_default], [settings_default]), et_net = sim_start sim_idle\<rparr>"


text \<open>A connection to the broker is answered by the current counters and the current settings, each
  published once and neither changed; every other event, and a notice of missed events, is answered by
  nothing.\<close>

theorem connection_republishes:
  fixes s :: "('f, 'c, 'r, 'g) events_peers"
  assumes "pubsub rps rhist rpubs rback" "pubsub cps chist cpubs cback"
    and "(events_net_turn rps cps m :: (_, unit, unit) act) s = (res, s')"
  shows "res = Ok () \<and> rec_data (ev_record s') = rec_data (ev_record s) \<and> cfg_settings (ev_config s') = cfg_settings (ev_config s)
    \<and> (if m = GotMessage ConnectedMQTT
       then rhist (rec_data_notifier (ev_record s')) = rhist (rec_data_notifier (ev_record s)) @ [rec_data (ev_record s)]
         \<and> chist (cfg_notifier (ev_config s')) = chist (cfg_notifier (ev_config s)) @ [cfg_settings (ev_config s)]
       else s' = s)"
proof (cases "m = GotMessage ConnectedMQTT")
  case True
  with assms(3) show ?thesis
    by (auto simp: events_net_turn_def bindA_def zoom_def record_publish_immediate_def config_publish_immediate_def
        modifyA_def readA_def pubsub.publish_immediate(1) [OF assms(1)] pubsub.publish_immediate(1) [OF assms(2)])
next
  case False
  with assms(3) have "res = Ok ()" "s' = s"
    by (auto simp: events_net_turn_def ret_def split: wait_result.splits net_event.splits)
  with False show ?thesis by simp
qed

theorem connection_republishes_witness:
  "\<exists>s'. (events_net_turn ref_ps ref_ps (GotMessage ConnectedMQTT) ::
      ((ref_flash, unit list, record_data list \<times> nat \<times> nat, settings list \<times> nat \<times> nat) events_peers, unit, unit) act)
      \<lparr>ev_record = rw_sys ref_world, ev_config = ref_system\<rparr> = (Ok (), s')
    \<and> fst (cfg_notifier (ev_config s')) = [settings_default]"
proof -
  obtain res s' where run: "(events_net_turn ref_ps ref_ps (GotMessage ConnectedMQTT) ::
      ((ref_flash, unit list, record_data list \<times> nat \<times> nat, settings list \<times> nat \<times> nat) events_peers, unit, unit) act)
      \<lparr>ev_record = rw_sys ref_world, ev_config = ref_system\<rparr> = (res, s')" by fastforce
  with connection_republishes [OF rps.pubsub_axioms rps.pubsub_axioms run] show ?thesis
    by (simp add: ref_system_def)
qed

section \<open>The queue of messages\<close>

text \<open>A message as its type bounds it: a topic and a content of the sizes of their buffers.\<close>

definition message_ok :: "message \<Rightarrow> bool" where
  "message_ok m \<longleftrightarrow> length (msg_topic m) \<le> TOPIC_SIZE \<and> length (msg_content m) \<le> CONTENT_SIZE"

context json_crate
begin

lemma new_message_ok:
  assumes "message_new to_slice topic ms = Inr msg" "list_all plain_member ms"
  shows "message_ok msg"
  using assms to_slice_plain [OF assms(2), of CONTENT_SIZE]
  by (cases topic) (auto simp: message_new_def message_ok_def bounded_string_def TOPIC_SIZE_def split: if_splits)

lemma events_message_ok: "events_message to_slice m = Some (Inr msg) \<Longrightarrow> message_ok msg"
  by (elim events_messageE) (auto intro: new_message_ok plain_names)

end

text \<open>Handling a message, in either direction, leaves the queue.\<close>

lemma process_message_queue:
  "process_message peers from_slice topic buf s = (res, s') \<Longrightarrow> net_outgoing s' = net_outgoing s"
  by (auto simp: process_message_def bindA_def net_log_def modifyA_def zoom_def ret_def
      split: option.splits topic.splits prod.splits)

lemma outgoing_queue: "mqtt_outgoing nt m s = (res, s') \<Longrightarrow> net_outgoing s' = net_outgoing s"
  by (auto simp: mqtt_outgoing_def bindA_def tryA_def net_log_def modifyA_def zoom_def ret_def
      split: prod.splits outcome.splits sum.splits)

lemma incoming_queue:
  assumes "mqtt_incoming nt peers from_slice s = (res, s')"
  shows "net_outgoing s' = net_outgoing s"
proof -
  obtain m k where m: "nt_receive nt (net_stack s) = (m, k)" by fastforce
  show ?thesis
  proof (cases m)
    case (Ok tb)
    then obtain topic buf where "m = Ok (topic, buf)" by (cases tb) auto
    with assms m show ?thesis
      by (auto simp: mqtt_incoming_def bindA_def tryA_def zoom_def ret_def dest: process_message_queue
          split: prod.splits outcome.splits)
  next
    case (Err e)
    with assms m show ?thesis
      by (cases e) (auto simp: mqtt_incoming_def bindA_def tryA_def zoom_def ret_def net_log_def modifyA_def)
  qed (use assms m in \<open>auto simp: mqtt_incoming_def bindA_def tryA_def zoom_def\<close>)
qed

lemma turn_queue:
  assumes "bounded_channel ch queued cap" "mqtt_turn ch nt peers from_slice ticket s = (res, s')"
  shows "set (queued (net_outgoing s')) \<subseteq> set (queued (net_outgoing s))"
proof -
  obtain r w where w: "np_feed peers ticket (net_others s) = (r, w)" by fastforce
  let ?s = "s\<lparr>net_others := w\<rparr>"
  show ?thesis
  proof (cases "r = Ok ()")
    case False
    with assms(2) w show ?thesis by (cases r) (auto simp: mqtt_turn_def bindA_def zoom_def)
  next
    case True
    show ?thesis
    proof (cases "ch_receive ch (net_outgoing s)")
      case None
      with True assms(2) w have "mqtt_incoming nt peers from_slice ?s = (res, s')"
        by (simp add: mqtt_turn_def bindA_def zoom_def)
      from incoming_queue [OF this] show ?thesis by simp
    next
      case (Some mc)
      then obtain m c where mc: "ch_receive ch (net_outgoing s) = Some (m, c)" by (cases mc) auto
      with True assms(2) w have "mqtt_outgoing nt m (?s\<lparr>net_outgoing := c\<rparr>) = (res, s')"
        by (simp add: mqtt_turn_def bindA_def zoom_def)
      from outgoing_queue [OF this] bounded_channel.receive_Some [OF assms(1) mc] show ?thesis by auto
    qed
  qed
qed

lemma publish_turn_queue:
  assumes "json_crate to_slice" "bounded_channel ch queued cap"
    and "(events_publish_turn to_slice ch subs :: (_, 'e, unit) act) s = (res, s')"
    and "msg \<in> set (queued (net_outgoing (et_net s')))"
  shows "msg \<in> set (queued (net_outgoing (et_net s))) \<or> message_ok msg"
proof (cases "events_select subs (et_subs s)")
  case (Some mu)
  then obtain m u where sel: "events_select subs (et_subs s) = Some (m, u)" by (cases mu) auto
  show ?thesis
  proof (cases "events_message to_slice m")
    case (Some new)
    show ?thesis
    proof (cases new)
      case (Inr new)
      with assms(3) sel Some have "net_outgoing (et_net s') = net_outgoing (et_net s)
          \<or> ch_send ch new (net_outgoing (et_net s)) = Some (net_outgoing (et_net s'))"
        by (auto simp: events_publish_turn_def net_send_def zoom_def send_to_def split: option.splits)
      with assms(4) bounded_channel.send_Some [OF assms(2), of new] json_crate.events_message_ok [OF assms(1)] Some Inr
      show ?thesis by auto
    qed (use assms sel Some in \<open>auto simp: events_publish_turn_def panic_def\<close>)
  qed (use assms sel in \<open>auto simp: events_publish_turn_def ret_def\<close>)
qed (use assms in \<open>auto simp: events_publish_turn_def\<close>)



end
