(* ===== verification/System.thy ===== *)
theory System
  imports Events
begin

text \<open>
  The client of \<open>systems/net.rs\<close> and the publishing task of \<open>systems/events.rs\<close> running together, over
  one queue of messages and one channel of settings.  Each waits for the other in a state that the
  schedule below reaches: the client, which empties the queue of messages, waits within
  \<open>Config::update\<close> for the channel of settings; the publishing task, which empties that channel, waits
  for room in the queue of messages.
\<close>

section \<open>Channels with a subscriber\<close>

text \<open>What was published, the publishers alive, and what the subscriber has not read.\<close>

type_synonym 'a mailbox = "'a list \<times> nat \<times> 'a list"

definition mail_ps :: "('a mailbox, 'a) pubsub_ops" where
  "mail_ps = \<lparr>ps_new = ([], 0, []),
     ps_publisher = (\<lambda>(h, p, u). if p < 1 then Some (h, Suc p, u) else None),
     ps_drop_publisher = (\<lambda>(h, p, u). (h, p - 1, u)),
     ps_publish = (\<lambda>x (h, p, u). if u = [] then Some (h @ [x], p, [x]) else None),
     ps_publish_immediate = (\<lambda>x (h, p, u). (h @ [x], p, [x]))\<rparr>"

interpretation mail: pubsub mail_ps fst "\<lambda>q. fst (snd q)" "\<lambda>q. length (snd (snd q))"
  by unfold_locales (auto simp: mail_ps_def DATA_PUBS_def DATA_CAP_def split: prod.split if_splits)

fun mail_next :: "'a mailbox \<Rightarrow> ('a wait_result \<times> 'a mailbox) option" where
  "mail_next (h, p, []) = None"
| "mail_next (h, p, x # u) = Some (GotMessage x, (h, p, u))"

section \<open>The two tasks\<close>

text \<open>
  A task stands at the top of its loop, or at the \<open>await\<close> at which its turn did not complete: the
  publication that ends an update, the sending of a message.
\<close>

datatype client_pc = ClientSelect | ClientPublishing settings
datatype publish_pc = PublishSelect | PublishSending message

type_synonym sys_world = "(ref_flash, settings mailbox, u16) net_world"
type_synonym sys_net = "(message list, net_event mailbox, sim_net, sys_world) net"

record system =
  sy_net :: sys_net
  sy_stats :: "stats_data mailbox"
  sy_record :: "record_data mailbox"
  sy_client :: client_pc
  sy_publish :: publish_pc

abbreviation sys_config :: "system \<Rightarrow> (ref_flash, settings mailbox) config" where
  "sys_config s \<equiv> nw_config (net_others (sy_net s))"

definition with_notifier :: "settings mailbox \<Rightarrow> sys_net \<Rightarrow> sys_net" where
  "with_notifier q n = n\<lparr>net_others := (net_others n)\<lparr>nw_config := (nw_config (net_others n))\<lparr>cfg_notifier := q\<rparr>\<rparr>\<rparr>"

abbreviation sys_peers :: "sys_world net_peers" where
  "sys_peers \<equiv> net_peers_of Release ref_ss ref_nvs ref_settings_pc mail_ps ref_ba"

definition client_turn :: "(sys_net, unit, bool) act" where
  "client_turn = mqtt_turn (ref_ch 1) sim_nt sys_peers ref_from_slice 0"

text \<open>
  A step of the client: a turn, which may end at the publication of new settings with the publisher
  taken; or that publication, after which the publisher is dropped.
\<close>

definition client_step :: "system \<Rightarrow> system option" where
  "client_step s =
     (case sy_client s of
        ClientSelect \<Rightarrow>
          (case client_turn (sy_net s) of
             (Ok go, n) \<Rightarrow> Some (s\<lparr>sy_net := n\<rparr>)
           | (Pending, n) \<Rightarrow>
               let c = nw_config (net_others n) in
               if fst (snd (cfg_notifier c)) = 0 then None
               else Some (s\<lparr>sy_net := n, sy_client := ClientPublishing (cfg_settings c)\<rparr>)
           | _ \<Rightarrow> None)
      | ClientPublishing v \<Rightarrow>
          (case ps_publish mail_ps v (cfg_notifier (sys_config s)) of
             None \<Rightarrow> None
           | Some q \<Rightarrow> Some (s\<lparr>sy_net := with_notifier (ps_drop_publisher mail_ps q) (sy_net s),
               sy_client := ClientSelect\<rparr>)))"

text \<open>That publication is what \<open>Config::update\<close> has left to do.\<close>

lemma client_finishes_update:
  assumes "sy_client s = ClientPublishing (cfg_settings (sys_config s))"
  shows "client_step s =
    (case (config_update_finish mail_ps :: ((ref_flash, settings mailbox) config, unit, unit) act) (sys_config s) of
       (Ok _, c) \<Rightarrow> Some (s\<lparr>sy_net := with_notifier (cfg_notifier c) (sy_net s), sy_client := ClientSelect\<rparr>)
     | _ \<Rightarrow> None)"
  using assms
  by (simp add: client_step_def config_update_finish_def bindA_def readA_def zoom_def publish_to_def modifyA_def split: option.split)

text \<open>A step of the publishing task: a turn, which may end at the sending; or that sending.\<close>

type_synonym sys_subs = "stats_data mailbox \<times> record_data mailbox \<times> settings mailbox"

definition sys_subs :: "sys_subs event_subs" where
  "sys_subs = \<lparr>
     next_stats = (\<lambda>(a, b, c). map_option (\<lambda>(m, a'). (m, (a', b, c))) (mail_next a)),
     next_record = (\<lambda>(a, b, c). map_option (\<lambda>(m, b'). (m, (a, b', c))) (mail_next b)),
     next_config = (\<lambda>(a, b, c). map_option (\<lambda>(m, c'). (m, (a, b, c'))) (mail_next c))\<rparr>"

definition sys_task :: "system \<Rightarrow> (sys_subs, sys_net) events_task" where
  "sys_task s = \<lparr>et_subs = (sy_stats s, sy_record s, cfg_notifier (sys_config s)), et_net = sy_net s\<rparr>"

definition publish_turn :: "((sys_subs, sys_net) events_task, unit, unit) act" where
  "publish_turn = events_publish_turn ref_json (ref_ch 1) sys_subs"

definition after_publish :: "(sys_subs, sys_net) events_task \<Rightarrow> publish_pc \<Rightarrow> system \<Rightarrow> system" where
  "after_publish t pc s = (case et_subs t of (a, b, c) \<Rightarrow>
     s\<lparr>sy_stats := a, sy_record := b, sy_net := with_notifier c (et_net t), sy_publish := pc\<rparr>)"

definition publish_step :: "system \<Rightarrow> system option" where
  "publish_step s =
     (case sy_publish s of
        PublishSelect \<Rightarrow>
          (case (publish_turn (sys_task s), events_select sys_subs (et_subs (sys_task s))) of
             ((Ok _, t), _) \<Rightarrow> Some (after_publish t PublishSelect s)
           | ((Pending, t), Some (m, _)) \<Rightarrow>
               (case events_message ref_json m of
                  Some (Inr msg) \<Rightarrow> Some (after_publish t (PublishSending msg) s)
                | _ \<Rightarrow> None)
           | _ \<Rightarrow> None)
      | PublishSending msg \<Rightarrow>
          (case (net_send (ref_ch 1) msg :: (sys_net, unit, unit) act) (sy_net s) of
             (Ok _, n) \<Rightarrow> Some (s\<lparr>sy_net := n, sy_publish := PublishSelect\<rparr>)
           | _ \<Rightarrow> None))"

section \<open>The system\<close>

text \<open>
  The other tasks: reports and counters are published without waiting; the settings are pushed by a
  task that needs the lock, which an update holds until it returns; and messages arrive.
\<close>

datatype system_event =
    EvClient | EvPublish | EvStats stats_data | EvRecord record_data | EvConfigPush
  | EvArrives "(reason_code, packet) outcome"

fun system_run :: "system_event \<Rightarrow> system \<Rightarrow> system option" where
  "system_run EvClient s = client_step s"
| "system_run EvPublish s = publish_step s"
| "system_run (EvStats d) s = Some (case ps_publish mail_ps d (sy_stats s) of
     Some q \<Rightarrow> s\<lparr>sy_stats := q\<rparr> | None \<Rightarrow> s)"
| "system_run (EvRecord r) s = Some (s\<lparr>sy_record := ps_publish_immediate mail_ps r (sy_record s)\<rparr>)"
| "system_run EvConfigPush s =
     (case sy_client s of
        ClientPublishing v \<Rightarrow> None
      | ClientSelect \<Rightarrow> Some (s\<lparr>sy_net := with_notifier
          (ps_publish_immediate mail_ps (cfg_settings (sys_config s)) (cfg_notifier (sys_config s))) (sy_net s)\<rparr>))"
| "system_run (EvArrives m) s = Some (s\<lparr>sy_net := (sy_net s)\<lparr>net_stack :=
     (net_stack (sy_net s))\<lparr>sn_inbox := sn_inbox (net_stack (sy_net s)) @ [m]\<rparr>\<rparr>\<rparr>)"

text \<open>An event that is not enabled does not happen.\<close>

fun system_runs :: "system_event list \<Rightarrow> system \<Rightarrow> system" where
  "system_runs [] s = s"
| "system_runs (ev # evs) s = system_runs evs (case system_run ev s of Some s' \<Rightarrow> s' | None \<Rightarrow> s)"

definition system_boot :: system where
  "system_boot = \<lparr>
     sy_net = \<lparr>net_outgoing = [], net_event_channel = ([], 0, []), net_stack = sim_idle,
       net_others = \<lparr>nw_config = \<lparr>cfg_settings = settings_default, cfg_flash = (\<lambda>_ _. None), cfg_notifier = ([], 0, [])\<rparr>,
         nw_watchdog = (wd_init ref_ba)\<lparr>count := 2\<rparr>\<rparr>, net_logs = []\<rparr>,
     sy_stats = ([], 0, []), sy_record = ([], 0, []), sy_client = ClientSelect, sy_publish = PublishSelect\<rparr>"

section \<open>Each waits for the other\<close>

definition locked_up :: "system \<Rightarrow> bool" where
  "locked_up s \<longleftrightarrow> (\<exists>v. sy_client s = ClientPublishing v) \<and> (\<exists>m. sy_publish s = PublishSending m)
     \<and> net_outgoing (sy_net s) \<noteq> [] \<and> snd (snd (cfg_notifier (sys_config s))) \<noteq> []"

lemma locked_up_blocks:
  assumes "locked_up s"
  shows "client_step s = None" "publish_step s = None" "system_run EvConfigPush s = None"
proof -
  from assms obtain v m where pc: "sy_client s = ClientPublishing v" "sy_publish s = PublishSending m"
    by (auto simp: locked_up_def)
  obtain h p u where q: "cfg_notifier (sys_config s) = (h, p, u)" by (cases "cfg_notifier (sys_config s)") auto
  have full: "\<not> length (net_outgoing (sy_net s)) < 1" "u \<noteq> []" using assms q by (auto simp: locked_up_def)
  show "client_step s = None" "publish_step s = None" "system_run EvConfigPush s = None"
    using pc q full by (simp_all add: client_step_def publish_step_def mail_ps_def net_send_def zoom_def send_to_def ref_ch_def)
qed

lemma locked_up_step:
  assumes "locked_up s" "system_run ev s = Some s'"
  shows "locked_up s' \<and> sy_client s' = sy_client s \<and> sy_publish s' = sy_publish s
    \<and> net_outgoing (sy_net s') = net_outgoing (sy_net s) \<and> net_others (sy_net s') = net_others (sy_net s)"
  using assms locked_up_blocks [OF assms(1)]
  by (cases ev) (auto simp: locked_up_def split: option.splits)

lemma locked_up_runs:
  assumes "locked_up s"
  shows "locked_up (system_runs evs s) \<and> sy_client (system_runs evs s) = sy_client s
    \<and> sy_publish (system_runs evs s) = sy_publish s \<and> net_outgoing (sy_net (system_runs evs s)) = net_outgoing (sy_net s)
    \<and> net_others (sy_net (system_runs evs s)) = net_others (sy_net s)"
  using assms
proof (induction evs arbitrary: s)
  case (Cons ev evs)
  show ?case
  proof (cases "system_run ev s")
    case None
    with Cons show ?thesis by simp
  next
    case (Some s')
    with Cons.IH [of s'] locked_up_step [OF Cons.prems Some] show ?thesis by simp
  qed
qed simp

section \<open>A schedule that leads there\<close>

text \<open>
  A report, the counters and the settings are published and a message with other settings has arrived
  before either task runs; then the client runs first.
\<close>

definition small_report :: stats_data where
  "small_report = \<lparr>stats_vsupply_mv = Millivolts 20000, stats_vprog_mv = Millivolts 0, stats_vout_mv = Millivolts 9000,
     uptime_secs = 60, idle_permille = 900, vout_state = Enabled\<rparr>"

definition arrival :: "system_event list" where
  "arrival = [EvStats small_report, EvRecord record_data_default, EvConfigPush,
     EvArrives (Ok (''slakkotron/config'', [250]))]"

definition lock_schedule :: "system_event list" where
  "lock_schedule = arrival @ [EvClient, EvPublish, EvPublish]"

definition sys_ready :: system where
  "sys_ready = system_runs arrival system_boot"

lemma sys_ready_state:
  "sys_ready = system_boot\<lparr>
     sy_net := (sy_net system_boot)\<lparr>net_stack := sim_idle\<lparr>sn_inbox := [Ok (''slakkotron/config'', [250])]\<rparr>,
       net_others := (net_others (sy_net system_boot))\<lparr>nw_config :=
         (nw_config (net_others (sy_net system_boot)))\<lparr>cfg_notifier := ([settings_default], 0, [settings_default])\<rparr>\<rparr>\<rparr>,
     sy_stats := ([small_report], 0, [small_report]), sy_record := ([record_data_default], 0, [record_data_default])\<rparr>"
  by (simp add: sys_ready_def arrival_def system_boot_def mail_ps_def with_notifier_def sim_idle_def)

definition new_settings :: settings where
  "new_settings = settings_default\<lparr>backoff_ms := 250\<rparr>"

lemma ready_feed:
  "np_feed sys_peers 0 (net_others (sy_net sys_ready)) = (Ok (), (net_others (sy_net sys_ready))\<lparr>nw_watchdog :=
     (wd_init ref_ba)\<lparr>count := 2, mask := 1\<rparr>\<rparr>)"
  by (simp add: sys_ready_state system_boot_def net_peers_of_def zoom_def wd_ticket_feed_def wd_feed_def ref_ba_def
      wd_init_def Let_def set_bit_eq numeral_2_eq_2)

lemma ready_update:
  "\<exists>f. np_update sys_peers (settings_integrate
        \<lparr>builder_vout_mv = None, builder_iout_ma = None, builder_backoff_ms = Some 250\<rparr>)
      ((net_others (sy_net sys_ready))\<lparr>nw_watchdog := w\<rparr>)
    = (Pending, (net_others (sy_net sys_ready))\<lparr>nw_watchdog := w,
        nw_config := \<lparr>cfg_settings = new_settings, cfg_flash = f, cfg_notifier = ([settings_default], 1, [settings_default])\<rparr>\<rparr>)"
proof -
  let ?b = "settings_integrate \<lparr>builder_vout_mv = None, builder_iout_ma = None, builder_backoff_ms = Some 250\<rparr>"
  let ?c = "\<lparr>cfg_settings = settings_default, cfg_flash = (\<lambda>_ _. None), cfg_notifier = ([settings_default], 0, [settings_default])\<rparr>
    :: (ref_flash, settings mailbox) config"
  have new: "?b (cfg_settings ?c) = new_settings" by (simp add: settings_integrate_def new_settings_def)
  have "new_settings \<noteq> cfg_settings ?c" by (simp add: new_settings_def settings_default_def)
  from config_update_changed [where 'e = unit and f = ?b, OF new this ref_settings_store, of mail_ps]
  have "\<exists>f. (config_update Release ref_ss ref_nvs ref_settings_pc mail_ps ?b ::
      ((ref_flash, settings mailbox) config, unit, unit) act) ?c
    = (Pending, \<lparr>cfg_settings = new_settings, cfg_flash = f, cfg_notifier = ([settings_default], 1, [settings_default])\<rparr>)"
    by (simp add: Let_def mail_ps_def)
  then show ?thesis by (auto simp: net_peers_of_def zoom_def sys_ready_state system_boot_def)
qed

lemma client_waits:
  "\<exists>s. client_step sys_ready = Some s \<and> sy_client s = ClientPublishing new_settings \<and> sy_publish s = PublishSelect
    \<and> sy_stats s = sy_stats sys_ready \<and> sy_record s = sy_record sys_ready \<and> net_outgoing (sy_net s) = []
    \<and> cfg_notifier (sys_config s) = ([settings_default], 1, [settings_default])"
proof -
  let ?w = "(wd_init ref_ba)\<lparr>count := 2, mask := 1\<rparr>"
  from ready_update [of ?w] obtain f where
    f: "np_update sys_peers (settings_integrate
        \<lparr>builder_vout_mv = None, builder_iout_ma = None, builder_backoff_ms = Some 250\<rparr>)
      ((net_others (sy_net sys_ready))\<lparr>nw_watchdog := ?w\<rparr>)
    = (Pending, (net_others (sy_net sys_ready))\<lparr>nw_watchdog := ?w,
        nw_config := \<lparr>cfg_settings = new_settings, cfg_flash = f, cfg_notifier = ([settings_default], 1, [settings_default])\<rparr>\<rparr>)"
    by blast
  have net: "net_outgoing (sy_net sys_ready) = []" "sy_client sys_ready = ClientSelect" "sy_publish sys_ready = PublishSelect"
    "sn_inbox (net_stack (sy_net sys_ready)) = [Ok (''slakkotron/config'', [250])]"
    by (simp_all add: sys_ready_state system_boot_def)
  have "\<exists>n. client_turn (sy_net sys_ready) = (Pending, n) \<and> net_outgoing n = []
      \<and> nw_config (net_others n) = \<lparr>cfg_settings = new_settings, cfg_flash = f,
          cfg_notifier = ([settings_default], 1, [settings_default])\<rparr>"
    by (simp add: client_turn_def mqtt_turn_def bindA_def zoom_def ready_feed ref_ch_def net mqtt_incoming_def tryA_def
        sim_nt_def process_message_def topic_try_parse_def ref_from_slice_def net_log_def modifyA_def f)
  then show ?thesis by (auto simp: client_step_def net Let_def)
qed

lemma publish_takes_report:
  assumes "sy_publish s = PublishSelect" "sy_stats s = (h, p, [d])" "net_outgoing (sy_net s) = []"
    and "unat (uptime_secs d) < 10 ^ 15" "idle_permille d \<le> 1000"
  shows "\<exists>s' m. publish_step s = Some s' \<and> net_outgoing (sy_net s') = [m] \<and> sy_stats s' = (h, p, [])
    \<and> sy_record s' = sy_record s \<and> sy_client s' = sy_client s \<and> sy_publish s' = PublishSelect
    \<and> cfg_notifier (sys_config s') = cfg_notifier (sys_config s)"
proof -
  obtain m where m: "message_new ref_json TopicStats (stats_json d) = Inr m"
    using fits_message [OF rjson.json_crate_axioms, of "FirstReady (GotMessage d)"] assms(4,5) by (auto simp: fits_def)
  have "events_select sys_subs (et_subs (sys_task s)) = Some (FirstReady (GotMessage d), ((h, p, []), sy_record s, cfg_notifier (sys_config s)))"
    by (simp add: events_select_def sys_subs_def sys_task_def assms(2))
  with m assms(1-3) show ?thesis
    by (simp add: publish_step_def publish_turn_def events_publish_turn_def sys_task_def net_send_def zoom_def send_to_def
        ref_ch_def after_publish_def with_notifier_def)
qed

lemma publish_waits:
  assumes "sy_publish s = PublishSelect" "sy_stats s = (h, p, [])" "sy_record s = (h', p', [r])"
    and "net_outgoing (sy_net s) = [m]"
  shows "\<exists>s' m'. publish_step s = Some s' \<and> net_outgoing (sy_net s') = [m] \<and> sy_client s' = sy_client s
    \<and> sy_publish s' = PublishSending m' \<and> cfg_notifier (sys_config s') = cfg_notifier (sys_config s)"
proof -
  obtain m' where m': "message_new ref_json TopicRecord (record_json r) = Inr m'"
    using fits_message [OF rjson.json_crate_axioms, of "SecondReady (GotMessage r)"] by (auto simp: fits_def)
  have "events_select sys_subs (et_subs (sys_task s))
      = Some (SecondReady (GotMessage r), ((h, p, []), (h', p', []), cfg_notifier (sys_config s)))"
    by (simp add: events_select_def sys_subs_def sys_task_def assms(2,3))
  with m' assms(1,4) show ?thesis
    by (simp add: publish_step_def publish_turn_def events_publish_turn_def sys_task_def net_send_def zoom_def send_to_def
        ref_ch_def after_publish_def with_notifier_def)
qed

lemma system_runs_append: "system_runs (evs @ evs') s = system_runs evs' (system_runs evs s)"
  by (induction evs arbitrary: s) simp_all

lemma schedule_locks: "locked_up (system_runs lock_schedule system_boot)"
proof -
  from client_waits obtain s1 where s1: "client_step sys_ready = Some s1" "sy_client s1 = ClientPublishing new_settings"
    "sy_publish s1 = PublishSelect" "sy_stats s1 = sy_stats sys_ready" "sy_record s1 = sy_record sys_ready"
    "net_outgoing (sy_net s1) = []" "cfg_notifier (sys_config s1) = ([settings_default], 1, [settings_default])" by blast
  have stats: "sy_stats s1 = ([small_report], 0, [small_report])" and rec: "sy_record s1 = ([record_data_default], 0, [record_data_default])"
    using s1(4,5) by (simp_all add: sys_ready_state)
  from publish_takes_report [OF s1(3) stats s1(6)] obtain s2 m where s2: "publish_step s1 = Some s2"
    "net_outgoing (sy_net s2) = [m]" "sy_stats s2 = ([small_report], 0, [])" "sy_record s2 = sy_record s1"
    "sy_client s2 = sy_client s1" "sy_publish s2 = PublishSelect" "cfg_notifier (sys_config s2) = cfg_notifier (sys_config s1)"
    by (auto simp: small_report_def)
  from publish_waits [OF s2(6,3) _ s2(2)] s2(4) rec obtain s3 m' where s3: "publish_step s2 = Some s3"
    "net_outgoing (sy_net s3) = [m]" "sy_client s3 = sy_client s2" "sy_publish s3 = PublishSending m'"
    "cfg_notifier (sys_config s3) = cfg_notifier (sys_config s2)" by auto
  have "system_runs lock_schedule system_boot = s3"
    using s1(1) s2(1) s3(1) by (simp add: lock_schedule_def system_runs_append sys_ready_def [symmetric])
  then show ?thesis using s1(2,7) s2(5,7) s3 by (simp add: locked_up_def)
qed

section \<open>Properties\<close>

text \<open>C7: The client and the publishing task can wait for each other for ever.  In a state in which the
  client waits within an update to publish new settings, with older ones unread, and the publishing
  task waits for room in the full queue of messages, neither of them ever takes a step again, whatever
  the other tasks and the network do: the queue, the settings and the watchdog's tickets stay as they
  are, and the ticket of the network is not fed any more.  The schedule above reaches such a state.\<close>

theorem client_and_publisher_lock_up:
  "locked_up (system_runs lock_schedule system_boot)
   \<and> (locked_up s \<longrightarrow>
        sy_client (system_runs evs s) = sy_client s \<and> sy_publish (system_runs evs s) = sy_publish s
      \<and> net_outgoing (sy_net (system_runs evs s)) = net_outgoing (sy_net s)
      \<and> net_others (sy_net (system_runs evs s)) = net_others (sy_net s)
      \<and> client_step (system_runs evs s) = None \<and> publish_step (system_runs evs s) = None)"
  using schedule_locks locked_up_runs [of s evs] locked_up_blocks [of "system_runs evs s"] by blast

theorem client_and_publisher_lock_up_witness:
  "client_step (system_runs (lock_schedule @ [EvClient, EvStats small_report, EvPublish, EvConfigPush]) system_boot) = None
   \<and> publish_step (system_runs (lock_schedule @ [EvClient, EvStats small_report, EvPublish, EvConfigPush]) system_boot) = None"
  using client_and_publisher_lock_up [of "system_runs lock_schedule system_boot"
      "[EvClient, EvStats small_report, EvPublish, EvConfigPush]"]
  by (simp only: system_runs_append)

end
