(* ===== verification/Remote.thy ===== *)
theory Remote
  imports System
begin

text \<open>
  The way of new settings through the device: a message that the client receives, the update of
  \<open>systems/config.rs\<close>, the task \<open>config_task\<close> of \<open>systems/power_ext.rs\<close>, and the registers of the regulator.
\<close>

section \<open>The task\<close>

text \<open>A turn of \<open>config_task\<close>, on what its subscriber answered.\<close>

definition config_task_turn :: "profile \<Rightarrow> time_ops \<Rightarrow> ('b, 'e) i2c_bus \<Rightarrow> ('b, 'e) dd_ops \<Rightarrow>
    settings wait_result \<Rightarrow> ('b power_inner, unit, unit) act" where
  "config_task_turn p tm i2c dd m =
     (case m of GotMessage settings \<Rightarrow> power_persist p tm i2c dd settings | Lagged n \<Rightarrow> ret ())"

section \<open>The message\<close>

text \<open>A turn of the client that receives a message with new settings, when those before were read.\<close>

lemma settings_turn:
  fixes n :: "('c, 'q, 'k, ('f, settings mailbox, 'm) net_world) net"
  assumes "bitarray ba bits 16" "bounded_channel ch queued cap" "net_ok ticket (net_others n)"
    and "queued (net_outgoing n) = []" "nt_receive nt (net_stack n) = (Ok (''slakkotron/config'', buf), k)"
    and "from_slice buf = Some b" "cfg_notifier (nw_config (net_others n)) = (h, 0, [])"
    and "settings_integrate b (cfg_settings (nw_config (net_others n))) = new" "new \<noteq> cfg_settings (nw_config (net_others n))"
    and "storage_store p ss part (settings_entry pc) new (cfg_flash (nw_config (net_others n))) = (Ok (), g)"
  shows "\<exists>n'. mqtt_turn ch nt (net_peers_of p ss part pc mail_ps ba) from_slice ticket n = (Ok True, n')
    \<and> nw_config (net_others n') = \<lparr>cfg_settings = new, cfg_flash = g, cfg_notifier = (h @ [new], 0, [new])\<rparr>"
proof -
  let ?w = "net_others n"
  from assms(3) have "ticket < 16" "count (nw_watchdog ?w) \<le> 16" by (auto simp: net_ok_def)
  from bitarray.feed_refines [OF assms(1) this] obtain w where
    feed: "(wd_feed ba ticket :: ('m wd_inner, unit, unit) act) (nw_watchdog ?w) = (Ok (), w)" by blast
  have notifier: "ps_publisher mail_ps (cfg_notifier (nw_config ?w)) = Some (h, 1, [])"
    "ps_publish mail_ps new (h, 1, []) = Some (h @ [new], 1, [new])"
    "ps_drop_publisher mail_ps (h @ [new], 1, [new]) = (h @ [new], 0, [new])"
    using assms(7) by (simp_all add: mail_ps_def)
  from config_update_changed [where 'e = unit and f = "settings_integrate b", OF assms(8-10), of mail_ps] notifier
  have update: "(config_update p ss part pc mail_ps (settings_integrate b) ::
      (('f, settings mailbox) config, unit, unit) act) (nw_config ?w)
    = (Ok (), (nw_config ?w)\<lparr>cfg_settings := new, cfg_flash := g, cfg_notifier := (h @ [new], 0, [new])\<rparr>)"
    by (simp add: Let_def)
  have "topic_try_parse ''slakkotron/config'' = Some TopicConfig" by (simp add: topic_try_parse_def)
  with feed update bounded_channel.receive_none [OF assms(2,4)] assms(5,6)
  show ?thesis
    by (simp add: mqtt_turn_def net_peers_of_def bindA_def zoom_def wd_ticket_feed_def mqtt_incoming_def tryA_def
        process_message_def net_log_def modifyA_def ret_def)
qed

section \<open>The registers\<close>

text \<open>The reference voltage in nanovolts and the limit in milliamps that the registers ask for.\<close>

definition reference_nv :: "(u8 \<Rightarrow> u8) \<Rightarrow> nat" where
  "reference_nv regs = 45000000 + 564500 * unat (le_word [regs 0, regs 1] :: u16)"

definition limit_ma :: "(u8 \<Rightarrow> u8) \<Rightarrow> nat" where
  "limit_ma regs = 25 * unat (take_bit 7 (regs 2))"

context tps_regulator
begin

lemma config_turn_programs:
  assumes "798 \<le> unat (mv_of (vout_mv v))" "unat (mv_of (vout_mv v)) \<le> 21312" "unat (ma_of (iout_ma v)) \<le> 3199"
  shows "\<exists>i'. config_task_turn p tm i2c dd (GotMessage v) i = (Ok (), i')
    \<and> pi_backoff i' = from_millis tm (unat (backoff_ms v)) \<and> regs (pi_bus i') 6 = regs (pi_bus i) 6
    \<and> reference_nv (regs (pi_bus i')) \<le> unat (mv_of (vout_mv v)) * 56400
    \<and> unat (mv_of (vout_mv v)) * 56400 < reference_nv (regs (pi_bus i')) + 1564500
    \<and> limit_ma (regs (pi_bus i')) \<le> unat (ma_of (iout_ma v))
    \<and> unat (ma_of (iout_ma v)) < limit_ma (regs (pi_bus i')) + 25"
proof -
  let ?t = "mv_of (vout_mv v)"
  note code = vref_from_feedback_reachable [OF assms(1)]
  have "vref_from_feedback p (vout_mv v) FEEDBACK = Some (VRef (of_nat (vref_step ?t)))"
    using code(1) [of p] by (simp add: FEEDBACK_def)
  from persist_run [OF this, of tm i] obtain b x y z where
    run: "power_persist p tm i2c dd v i = (Ok (), i\<lparr>pi_backoff := from_millis tm (unat (backoff_ms v)), pi_bus := b\<rparr>)"
    and regs: "regs b = (regs (pi_bus i))(0 := x, 1 := y, 2 := z)"
    and ref: "le_word [x, y] = take_bit 11 (of_nat (vref_step ?t) :: u16)"
    and limit: "unat (take_bit 7 z) = unat (ma_of (iout_ma v)) div 25 mod 128" by auto
  have "vref_step ?t < 2048" using vref_step_bounds(3) [OF assms(1)] assms(2) by simp
  then have "unat (take_bit 11 (of_nat (vref_step ?t) :: u16)) = vref_step ?t"
    using code(2) by (simp add: unsigned_take_bit_eq take_bit_nat_eq_self)
  with ref regs have "reference_nv (regs b) = 45000000 + 564500 * vref_step ?t"
    by (simp add: reference_nv_def)
  moreover have "limit_ma (regs b) = 25 * (unat (ma_of (iout_ma v)) div 25)"
    using limit regs assms(3) by (simp add: limit_ma_def)
  moreover have "m < 25 * (m div 25) + 25" for m :: nat
    using mult_div_mod_eq [of 25 m] mod_less_divisor [of 25 m] by linarith
  ultimately show ?thesis
    using run regs vref_step_bounds(1,2) [OF assms(1)] by (simp add: config_task_turn_def)
qed

end

section \<open>Properties\<close>

text \<open>C9: Settings that the broker sends reach the regulator.  When the client takes a turn with nothing to
  send and receives a message on the topic of the configuration that changes the settings, and the
  subscriber has read those before, the turn stores and publishes the new settings, and the turn of
  \<open>config_task\<close> on what its subscriber then answers writes them to the regulator: a reference at or less
  than 1564500 nV below the one for the target, a limit at or less than 25 mA below the one asked for,
  and the new back-off; the mode of the regulator is left alone.\<close>

theorem settings_reach_regulator:
  fixes n :: "('c, 'q, 'k, ('f, settings mailbox, 'm) net_world) net"
  assumes "tps_regulator dd i2c regs" "seq_map ss items" "postcard_codec pc" "bitarray ba bits 16"
    and "bounded_channel ch queued cap" "net_ok ticket (net_others n)" "queued (net_outgoing n) = []"
    and "nt_receive nt (net_stack n) = (Ok (''slakkotron/config'', buf), k)" "from_slice buf = Some b"
    and "cfg_notifier (nw_config (net_others n)) = (h, 0, [])"
    and "settings_integrate b (cfg_settings (nw_config (net_others n))) = new" "new \<noteq> cfg_settings (nw_config (net_others n))"
    and "storage_store p ss part (settings_entry pc) new (cfg_flash (nw_config (net_others n))) = (Ok (), g)"
    and "798 \<le> unat (mv_of (vout_mv new))" "unat (mv_of (vout_mv new)) \<le> 21312" "unat (ma_of (iout_ma new)) \<le> 3199"
  shows "\<exists>n' q i'. mqtt_turn ch nt (net_peers_of p ss part pc mail_ps ba) from_slice ticket n = (Ok True, n')
    \<and> stored_entry items p part (settings_entry pc) (cfg_flash (nw_config (net_others n'))) = Some new
    \<and> mail_next (cfg_notifier (nw_config (net_others n'))) = Some (GotMessage new, q)
    \<and> config_task_turn p tm i2c dd (GotMessage new) i = (Ok (), i')
    \<and> pi_backoff i' = from_millis tm (unat (backoff_ms new)) \<and> regs (pi_bus i') 6 = regs (pi_bus i) 6
    \<and> reference_nv (regs (pi_bus i')) \<le> unat (mv_of (vout_mv new)) * 56400
    \<and> unat (mv_of (vout_mv new)) * 56400 < reference_nv (regs (pi_bus i')) + 1564500
    \<and> limit_ma (regs (pi_bus i')) \<le> unat (ma_of (iout_ma new))
    \<and> unat (ma_of (iout_ma new)) < limit_ma (regs (pi_bus i')) + 25"
proof -
  obtain n' where n': "mqtt_turn ch nt (net_peers_of p ss part pc mail_ps ba) from_slice ticket n = (Ok True, n')"
    "nw_config (net_others n') = \<lparr>cfg_settings = new, cfg_flash = g, cfg_notifier = (h @ [new], 0, [new])\<rparr>"
    using settings_turn [where nt = nt and from_slice = from_slice, OF assms(4-13)] by blast
  have "seq_storage_entry ss items (settings_entry pc)"
    using assms(2,3) by (intro seq_storage_entryI) (simp_all add: settings_entry_def)
  from kv_entry.store_stored [OF seq_storage_entry.contract [OF this] assms(13)]
  have stored: "stored_entry items p part (settings_entry pc) g = Some new" .
  from tps_regulator.config_turn_programs [OF assms(1,14-16), of p tm i] n' stored show ?thesis
    by simp
qed

text \<open>A message that raises the back-off, on the simulated network and regulator.\<close>

type_synonym remote_net = "(message list, net_event mailbox, sim_net, sys_world) net"

definition remote_net :: remote_net where
  "remote_net = (sy_net system_boot)\<lparr>net_stack := sim_config\<rparr>"

theorem settings_reach_regulator_witness:
  "\<exists>n' i'. mqtt_turn (ref_ch 1) sim_nt sys_peers ref_from_slice 0 remote_net = (Ok True, n')
    \<and> config_task_turn Release ref_tm sim_tps_i2c sim_dd (GotMessage new_settings)
        \<lparr>pi_bus = (\<lambda>_. 0), pi_backoff = 0, pi_state = Disabled\<rparr> = (Ok (), i')
    \<and> pi_backoff i' = 250000 \<and> limit_ma (pi_bus i') = 500"
proof -
  have start: "net_ok 0 (net_others remote_net)" "net_outgoing remote_net = []"
    "cfg_notifier (nw_config (net_others remote_net)) = ([], 0, [])" "cfg_settings (nw_config (net_others remote_net)) = settings_default"
    by (simp_all add: remote_net_def system_boot_def net_ok_def)
  obtain k where receive: "nt_receive sim_nt (net_stack remote_net) = (Ok (''slakkotron/config'', [250]), k)"
    by (simp add: remote_net_def sim_config_def sim_nt_def)
  let ?b = "\<lparr>builder_vout_mv = None, builder_iout_ma = None, builder_backoff_ms = Some 250\<rparr>"
  have slice: "ref_from_slice [250] = Some ?b" by (simp add: ref_from_slice_def)
  have new: "settings_integrate ?b (cfg_settings (nw_config (net_others remote_net))) = new_settings"
    "new_settings \<noteq> cfg_settings (nw_config (net_others remote_net))"
    by (simp_all add: start settings_integrate_def new_settings_def settings_default_def)
  have range: "798 \<le> unat (mv_of (vout_mv new_settings))" "unat (mv_of (vout_mv new_settings)) \<le> 21312"
    "unat (ma_of (iout_ma new_settings)) \<le> 3199"
    by (simp_all add: new_settings_def settings_default_def)
  have iout: "unat (ma_of (iout_ma new_settings)) = 500" and backoff: "unat (backoff_ms new_settings) = 250"
    by (simp_all add: new_settings_def settings_default_def)
  have "limit_ma r = 500" if "limit_ma r \<le> 500" "500 < limit_ma r + 25" for r
  proof -
    obtain m where "limit_ma r = 25 * m" by (simp add: limit_ma_def)
    with that show ?thesis by simp
  qed
  with settings_reach_regulator [where from_slice = ref_from_slice and nt = sim_nt and tm = ref_tm
      and i = "\<lparr>pi_bus = (\<lambda>_. 0), pi_backoff = 0, pi_state = Disabled\<rparr>", OF sim_regulator.tps_regulator_axioms rss.seq_map_axioms
      ref_settings_pc.postcard_codec_axioms rba.bitarray_axioms rch.bounded_channel_axioms [of 1] start(1,2) receive slice
      start(3) new ref_settings_store range] iout backoff
  show ?thesis by (auto simp: ref_tm_def)
qed

end
