(* ===== verification/Report.thy ===== *)
theory Report
  imports System
begin

text \<open>
  The way of an overcurrent through the device: the monitor of \<open>systems/power_ext.rs\<close>, which logs it with
  \<open>Record::log_overcurrent\<close> of \<open>systems/record.rs\<close> when the output is stable again, the publishing task of
  \<open>systems/events.rs\<close> and the client of \<open>systems/net.rs\<close>, as far as the broker.
\<close>

section \<open>The steps\<close>

definition record_packet :: "record_data \<Rightarrow> packet" where
  "record_packet d = (''slakkotron/record'', map of_char (object_text (record_json d)))"

text \<open>The log puts the counters into the channel, in the place of those that were not read yet.\<close>

lemma log_publishes:
  assumes "\<not> log_overflows p d (rec_data rs)"
    and "rec_sync_at rs \<noteq> None \<or> (\<exists>c. ch_send sync () (rec_sync_notifier rs) = Some c)"
  shows "\<exists>rs'. (record_log_overcurrent p tm sync mail_ps now d :: (('f, 'c, record_data mailbox) record_sys, 'e, unit) act) rs
      = (Ok (), rs')
    \<and> rec_data rs' = log_data d (rec_data rs)
    \<and> (\<exists>h p'. rec_data_notifier rs' = (h, p', [log_data d (rec_data rs)]))"
proof -
  obtain h p' u where "rec_data_notifier rs = (h, p', u)" by (cases "rec_data_notifier rs") auto
  with assms(2) show ?thesis
    by (auto simp: log_run [OF assms(1)] schedule_run Let_def mail_ps_def)
qed

text \<open>The monitor logs a fault when the output was on for the time of stabilization.\<close>

abbreviation counters_of :: "('b, ('u, 'm, 'f, 'c, 'q, 'g) peers_world) power_ext \<Rightarrow> ('f, 'c, 'q) record_sys" where
  "counters_of s \<equiv> pw_record (px_peers s)"

lemma monitor_logs:
  fixes s :: "('b, ('u, 'm, 'f, 'c, record_data mailbox, 'g) peers_world) power_ext"
  assumes "tps_regulator dd i2c regs" "bitarray ba bits 16" "bounded_channel sync sync_queue NOTIFY_CAP"
    and "peers_ready sync_queue (px_ticket s) (px_peers s)" "\<not> turn_fault i2c dd s"
    and "enabled v" "stabilized_at v = Some at" "at < now 0" "ocp_since v = Some since" "since \<le> now 1"
    and "new = log_data (of_nat (as_secs tm (now 1 - since))) (rec_data (counters_of s))"
  shows "\<exists>v' dl s' h p'. monitor_turn tm i2c dd (power_env_of tm ba pi2c pdd sync mail_ps Release) now v s = (Ok (v', dl), s')
    \<and> ocp_since v' = None \<and> pi_state (px_inner s') = Enabled \<and> rec_data (counters_of s') = new
    \<and> rec_data_notifier (counters_of s') = (h, p', [new])"
proof -
  obtain x b1 where read: "tps_read i2c dd Tps_status (pi_bus (px_inner s)) = (Ok [x], b1)"
    using tps_regulator.read_status [OF assms(1)] by blast
  with assms(5) have fault: "\<not> (tps_flag dd Status_ocp [x] \<or> tps_flag dd Status_scp [x])" by (simp add: turn_fault_def)
  from assms(4) have "px_ticket s < 16" "count (pw_watchdog (px_peers s)) \<le> 16" by (auto simp: peers_ready_def)
  from bitarray.feed_refines [OF assms(2) this] obtain wd where
    wd: "(wd_feed ba (px_ticket s) :: ('m wd_inner, unit, unit) act) (pw_watchdog (px_peers s)) = (Ok (), wd)" by blast
  let ?d = "of_nat (as_secs tm (now 1 - since))"
  have "rec_sync_at (counters_of s) \<noteq> None \<or> (\<exists>c. ch_send sync () (rec_sync_notifier (counters_of s)) = Some c)"
    using assms(4) bounded_channel.send_room [OF assms(3)] by (auto simp: peers_ready_def)
  from log_publishes [where 'e = unit, OF log_release this, of tm "now 2" ?d] obtain rs h p' where
    log: "(record_log_overcurrent Release tm sync mail_ps (now 2) ?d :: (('f, 'c, record_data mailbox) record_sys, unit, unit) act)
        (counters_of s) = (Ok (), rs)" "rec_data rs = new" "rec_data_notifier rs = (h, p', [new])"
    unfolding assms(11) by blast
  let ?v = "v\<lparr>stabilized_at := None, ocp_since := None\<rparr>"
  obtain dl where dl: "monitor_deadline tm (now 3) ?v = Some dl" using monitor_deadline_Some by blast
  have "elapsed_at (now 1) since = Some (now 1 - since)" using assms(10) by (simp add: elapsed_at_def)
  then have "monitor_turn tm i2c dd (power_env_of tm ba pi2c pdd sync mail_ps Release) now v s = (Ok (?v, dl),
      s\<lparr>px_inner := (px_inner s)\<lparr>pi_bus := b1, pi_state := Enabled\<rparr>,
        px_peers := (px_peers s)\<lparr>pw_watchdog := wd, pw_record := rs\<rparr>\<rparr>)"
    using fault assms(6-9)
    by (simp add: monitor_turn_def monitor_enabled_def bindA_def zoom_def unwrapA_def readA_def modifyA_def ret_def
        power_env_of_def wd_ticket_feed_def read wd log(1) dl del: One_nat_def)
  with log(2,3) show ?thesis by simp
qed

text \<open>The publishing task takes them and sends their text.\<close>

lemma record_turn_sends:
  fixes n :: "('c, 'q, 'k, 'w) net"
  assumes "json_crate to_slice" "bounded_channel ch queued cap" "0 < cap" "queued (net_outgoing n) = []"
    and "sb = (h, pb, [])" "rb = (h', pr, [r])"
  shows "\<exists>t msg. (events_publish_turn to_slice ch sys_subs :: (_, unit, unit) act) \<lparr>et_subs = (sb, rb, cb), et_net = n\<rparr> = (Ok (), t)
    \<and> packet msg = record_packet r \<and> queued (net_outgoing (et_net t)) = [msg]
    \<and> net_stack (et_net t) = net_stack n \<and> net_others (et_net t) = net_others n \<and> net_logs (et_net t) = net_logs n"
proof -
  have "length (object_text (record_json r)) \<le> CONTENT_SIZE" using record_size [of r] by (simp add: CONTENT_SIZE_def)
  from json_crate.new_message [OF assms(1) plain_names(2) this, of TopicRecord] obtain msg where
    msg: "message_new to_slice TopicRecord (record_json r) = Inr msg" "topic_to_str TopicRecord = Some (msg_topic msg)"
      "msg_content msg = map of_char (object_text (record_json r))" by blast
  from msg(2) have "msg_topic msg = ''slakkotron/record''"
    by (simp add: bounded_string_def TOPIC_SIZE_def)
  with msg(3) have packet: "packet msg = record_packet r" by (simp add: packet_def record_packet_def)
  from bounded_channel.send_room [OF assms(2), of "net_outgoing n" msg] assms(3,4) obtain c where
    c: "ch_send ch msg (net_outgoing n) = Some c" "queued c = [msg]" by auto
  have "events_select sys_subs (sb, rb, cb) = Some (SecondReady (GotMessage r), (sb, (h', pr, []), cb))"
    by (simp add: events_select_def sys_subs_def assms(5,6))
  with msg(1) c(1) have "(events_publish_turn to_slice ch sys_subs :: (_, unit, unit) act) \<lparr>et_subs = (sb, rb, cb), et_net = n\<rparr>
      = (Ok (), \<lparr>et_subs = (sb, (h', pr, []), cb), et_net = n\<lparr>net_outgoing := c\<rparr>\<rparr>)"
    by (simp add: events_publish_turn_def zoom_def net_send_def send_to_def)
  with packet c(2) show ?thesis by simp
qed

text \<open>The client transmits the message that waits until it is acknowledged.\<close>

lemma turn_transmits:
  fixes n :: "('c, 'q, 'k, 'w) net"
  assumes "mqtt_client nt sent acked" "net_system peers cfg wd ok" "bounded_channel ch queued cap"
    and "ok ticket (net_others n)" "queued (net_outgoing n) = [msg]"
    and "j < 5" "\<forall>i<j. answer nt (msg_topic msg) (msg_content msg) False i (net_stack n) = Err ImplementationSpecificError"
    and "answer nt (msg_topic msg) (msg_content msg) False j (net_stack n) = Ok ()"
  shows "\<exists>n' i. mqtt_turn ch nt peers from_slice ticket n = (Ok True, n') \<and> queued (net_outgoing n') = []
    \<and> acked (net_stack n') = acked (net_stack n) @ [packet msg]
    \<and> 1 \<le> i \<and> i \<le> 5 \<and> sent (net_stack n') = sent (net_stack n) @ replicate i (packet msg)
    \<and> wd (net_others n') = spec_feed ticket (wd (net_others n)) \<and> net_logs n' = net_logs n"
proof -
  from net_system.feed [OF assms(2,4)] obtain w where
    w: "np_feed peers ticket (net_others n) = (Ok (), w)" "wd w = spec_feed ticket (wd (net_others n))" by blast
  from bounded_channel.receive_some [OF assms(3,5)] obtain c where
    c: "ch_receive ch (net_outgoing n) = Some (msg, c)" "queued c = []" by blast
  have "answer nt (msg_topic msg) (msg_content msg) False j (net_stack n) \<noteq> Err ImplementationSpecificError"
    using assms(8) by simp
  from attempts_answer [OF assms(7) this assms(6)] assms(8) obtain k where
    k: "send_attempts nt (msg_topic msg) (msg_content msg) False 5 (net_stack n) = (Ok (), k)" by simp
  from mqtt_client.attempts [OF assms(1) k] obtain i where
    i: "i \<le> 5" "1 \<le> i" "sent k = sent (net_stack n) @ replicate i (packet msg)" "acked k = acked (net_stack n) @ [packet msg]"
    by (auto simp: packet_def)
  have "mqtt_turn ch nt peers from_slice ticket n
      = (Ok True, n\<lparr>net_others := w, net_outgoing := c, net_stack := k\<rparr>)"
    by (simp add: mqtt_turn_def bindA_def zoom_def w(1) c(1) mqtt_outgoing_def tryA_def send_message_qos1_def k ret_def)
  with i w(2) c(2) show ?thesis
    by (intro exI [of _ "n\<lparr>net_others := w, net_outgoing := c, net_stack := k\<rparr>"] exI [of _ i]) simp
qed

section \<open>Properties\<close>

text \<open>C10: An overcurrent at the output reaches the broker.  When the output has been on for the time of
  stabilization after a fault, the next turn of the monitor returns, with the fault closed and the
  counters one and the seconds of the fault further; the next turn of the publishing task, when no report
  is before it, puts the new counters into the queue of messages, whatever older counters it had not
  read; and the next turn of the client, when the broker acknowledges one of the five attempts and those
  before it fail in the way that is retried, delivers exactly one acknowledged message on the topic of
  the record, whose content is the JSON text of the new counters, with the ticket of the network fed and
  nothing logged as failed.\<close>

theorem overcurrent_reaches_broker:
  fixes s :: "('b, ('u, 'm, 'f, 'y, record_data mailbox, 'g) peers_world) power_ext" and n :: "('c, 'q, 'k, 'w) net"
  assumes "tps_regulator dd i2c regs" "bitarray ba bits 16" "bounded_channel sync sync_queue NOTIFY_CAP"
    and "mqtt_client nt sent acked" "net_system peers cfg wd ok" "bounded_channel ch queued cap" "0 < cap" "json_crate to_slice"
    and "peers_ready sync_queue (px_ticket s) (px_peers s)" "\<not> turn_fault i2c dd s"
    and "enabled v" "stabilized_at v = Some at" "at < now 0" "ocp_since v = Some since" "since \<le> now 1"
    and "ok ticket (net_others n)" "queued (net_outgoing n) = []" "sb = (h, pb, [])"
    and "new = log_data (of_nat (as_secs tm (now 1 - since))) (rec_data (counters_of s))" "record_packet new = (topic, content)"
    and "j < 5" "\<forall>i<j. answer nt topic content False i (net_stack n) = Err ImplementationSpecificError"
    and "answer nt topic content False j (net_stack n) = Ok ()"
  shows "\<exists>v' dl s' t n' i.
      monitor_turn tm i2c dd (power_env_of tm ba pi2c pdd sync mail_ps Release) now v s = (Ok (v', dl), s')
    \<and> ocp_since v' = None \<and> pi_state (px_inner s') = Enabled \<and> rec_data (counters_of s') = new
    \<and> (events_publish_turn to_slice ch sys_subs :: (_, unit, unit) act)
        \<lparr>et_subs = (sb, rec_data_notifier (counters_of s'), cb), et_net = n\<rparr> = (Ok (), t)
    \<and> mqtt_turn ch nt peers from_slice ticket (et_net t) = (Ok True, n')
    \<and> acked (net_stack n') = acked (net_stack n) @ [(topic, content)]
    \<and> 1 \<le> i \<and> i \<le> 5 \<and> sent (net_stack n') = sent (net_stack n) @ replicate i (topic, content)
    \<and> queued (net_outgoing n') = [] \<and> wd (net_others n') = spec_feed ticket (wd (net_others n)) \<and> net_logs n' = net_logs n"
proof -
  from monitor_logs [OF assms(1-3,9-15,19), of pi2c pdd] obtain v' dl s' hr pr where
    s': "monitor_turn tm i2c dd (power_env_of tm ba pi2c pdd sync mail_ps Release) now v s = (Ok (v', dl), s')"
      "ocp_since v' = None" "pi_state (px_inner s') = Enabled" "rec_data (counters_of s') = new"
      "rec_data_notifier (counters_of s') = (hr, pr, [new])" by blast
  from record_turn_sends [where cb = cb, OF assms(8,6,7,17,18) s'(5)] obtain t msg where
    t: "(events_publish_turn to_slice ch sys_subs :: (_, unit, unit) act)
        \<lparr>et_subs = (sb, rec_data_notifier (counters_of s'), cb), et_net = n\<rparr> = (Ok (), t)"
      "packet msg = (topic, content)" "queued (net_outgoing (et_net t)) = [msg]"
      "net_stack (et_net t) = net_stack n" "net_others (et_net t) = net_others n" "net_logs (et_net t) = net_logs n"
    unfolding assms(20) by blast
  from t(2) have msg: "msg_topic msg = topic" "msg_content msg = content" by (simp_all add: packet_def)
  have "ok ticket (net_others (et_net t))" using assms(16) t(5) by simp
  from turn_transmits [where from_slice = from_slice, OF assms(4-6) this t(3) assms(21), unfolded t(2,4-6) msg, OF assms(22,23)]
  obtain n' i where
    "mqtt_turn ch nt peers from_slice ticket (et_net t) = (Ok True, n')" "queued (net_outgoing n') = []"
    "acked (net_stack n') = acked (net_stack n) @ [(topic, content)]"
    "1 \<le> i" "i \<le> 5" "sent (net_stack n') = sent (net_stack n) @ replicate i (topic, content)"
    "wd (net_others n') = spec_feed ticket (wd (net_others n))" "net_logs n' = net_logs n" by blast
  with s'(1-4) t(1) show ?thesis by blast
qed

text \<open>
  A fault of 7 seconds on the simulated regulator, whose output is off in this state so that it reports
  none, with counters unread, and a broker that refuses the first attempt.
\<close>

definition report_net :: ref_net where
  "report_net = sim_start (sim_idle\<lparr>sn_answers := [Err ImplementationSpecificError]\<rparr>)"

definition report_power ::
  "(sim_tps, (sim_pd, u16, ref_flash, unit list, record_data mailbox, settings list \<times> nat \<times> nat) peers_world) power_ext" where
  "report_power = \<lparr>px_enable_pin = True, px_inner = \<lparr>pi_bus = (\<lambda>_. 0), pi_backoff = 0, pi_state = Enabling\<rparr>, px_ticket = 0,
     px_peers = \<lparr>pw_usb = sim_pd_blank 0, pw_watchdog = (wd_init ref_ba)\<lparr>count := 2\<rparr>,
       pw_record = \<lparr>rec_data = record_data_default, rec_sync_at = None, rec_flash = (\<lambda>_ _. None),
         rec_sync_notifier = [], rec_data_notifier = ([], 0, [record_data_default])\<rparr>, pw_config = ref_system\<rparr>\<rparr>"

definition report_vars :: monitor_vars where
  "report_vars = monitor_start\<lparr>enabled := True, stabilized_at := Some 7900000, ocp_since := Some 1000000\<rparr>"

theorem overcurrent_reaches_broker_witness:
  "\<exists>v' dl s' t n'. monitor_turn ref_tm sim_tps_i2c sim_dd (power_env_of ref_tm ref_ba sim_pd_i2c ref_dd (ref_ch NOTIFY_CAP) mail_ps Release)
        (\<lambda>_. 8000000) report_vars report_power = (Ok (v', dl), s')
    \<and> (events_publish_turn ref_json (ref_ch 1) sys_subs :: (_, unit, unit) act)
        \<lparr>et_subs = (([], 0, []), rec_data_notifier (counters_of s'), ([], 0, [])), et_net = report_net\<rparr> = (Ok (), t)
    \<and> mqtt_turn (ref_ch 1) sim_nt ref_net_peers ref_from_slice 0 (et_net t) = (Ok True, n')
    \<and> sn_acked (net_stack n') = [record_packet \<lparr>overcurrent_count = 1, overcurrent_secs = 7\<rparr>]"
proof -
  let ?d = "\<lparr>overcurrent_count = 1, overcurrent_secs = 7\<rparr>"
  obtain topic content where packet: "record_packet ?d = (topic, content)" by fastforce
  have "turn_fault sim_tps_i2c sim_dd report_power \<longleftrightarrow> turn_fault sim_tps_i2c sim_dd ref_boot"
    by (simp add: turn_fault_def report_power_def ref_boot_def)
  then have fault: "\<not> turn_fault sim_tps_i2c sim_dd report_power"
    by (simp add: sim_fault power_abs_def ref_boot_def)
  have ready: "peers_ready (\<lambda>c. c) (px_ticket report_power) (px_peers report_power)"
    by (simp add: peers_ready_def report_power_def NOTIFY_CAP_def)
  have vars: "enabled report_vars" "stabilized_at report_vars = Some 7900000" "7900000 < (8000000 :: nat)"
    "ocp_since report_vars = Some 1000000" "1000000 \<le> (8000000 :: nat)"
    by (simp_all add: report_vars_def)
  have net: "net_ok 0 (net_others report_net)" "net_outgoing report_net = []" "sn_acked (net_stack report_net) = []"
    using ref_ok by (simp_all add: report_net_def sim_start_def sim_idle_def)
  have refused: "\<forall>i<1. answer sim_nt topic content False i (net_stack report_net) = Err ImplementationSpecificError"
    by (simp add: answer_def sends_def report_net_def sim_start_def sim_nt_def Let_def)
  have acknowledged: "answer sim_nt topic content False 1 (net_stack report_net) = Ok ()"
    by (simp add: answer_def sends_def report_net_def sim_start_def sim_nt_def Let_def)
  have data: "?d = log_data (of_nat (as_secs ref_tm (8000000 - 1000000))) (rec_data (counters_of report_power))"
    by (simp add: log_data_def report_power_def record_data_default_def ref_tm_def)
  have stats: "([], 0, []) = ([] :: stats_data list, 0 :: nat, [] :: stats_data list)" by simp
  from overcurrent_reaches_broker [where tm = ref_tm and now = "\<lambda>_. 8000000" and cb = "([], 0, [])" and from_slice = ref_from_slice
      and queued = "\<lambda>c. c" and j = 1 and pi2c = sim_pd_i2c and pdd = ref_dd, OF sim_regulator.tps_regulator_axioms
      rba.bitarray_axioms rch.bounded_channel_axioms [of NOTIFY_CAP] sim_client.mqtt_client_axioms ref_net.net_system_axioms
      rch.bounded_channel_axioms [of 1] _ rjson.json_crate_axioms ready fault vars net(1,2) stats data packet _ refused acknowledged]
  obtain v' dl s' t n' where
    "monitor_turn ref_tm sim_tps_i2c sim_dd (power_env_of ref_tm ref_ba sim_pd_i2c ref_dd (ref_ch NOTIFY_CAP) mail_ps Release)
        (\<lambda>_. 8000000) report_vars report_power = (Ok (v', dl), s')"
    "(events_publish_turn ref_json (ref_ch 1) sys_subs :: (_, unit, unit) act)
        \<lparr>et_subs = (([], 0, []), rec_data_notifier (counters_of s'), ([], 0, [])), et_net = report_net\<rparr> = (Ok (), t)"
    "mqtt_turn (ref_ch 1) sim_nt ref_net_peers ref_from_slice 0 (et_net t) = (Ok True, n')"
    "sn_acked (net_stack n') = sn_acked (net_stack report_net) @ [(topic, content)]"
    by auto
  with net(3) packet show ?thesis by auto
qed

end
