(* ===== verification/Progress.thy ===== *)
theory Progress
  imports System
begin

text \<open>
  When the client of \<open>systems/net.rs\<close> and the publishing task of \<open>systems/events.rs\<close> make progress.  A
  publisher that waits for room gets it from the next turn of the client, unless both of them wait for
  each other as in \<open>System.locked_up\<close>; and that needs new settings to arrive.
\<close>

section \<open>Calls of the client that return\<close>

text \<open>
  The calls of the client answer, the ticket of the network is registered, and the queue holds no more
  than it has room for.
\<close>

definition healthy_net :: "sys_net \<Rightarrow> bool" where
  "healthy_net n \<longleftrightarrow> net_ok 0 (net_others n) \<and> length (net_outgoing n) \<le> 1
     \<and> (\<forall>a\<in>set (sn_answers (net_stack n)). ended a)"

abbreviation healthy :: "system \<Rightarrow> bool" where
  "healthy s \<equiv> healthy_net (sy_net s)"

lemma sim_attempts:
  "\<forall>a\<in>set (sn_answers k). ended a \<Longrightarrow>
   \<exists>r k'. send_attempts sim_nt t c b n k = (r, k') \<and> ended r \<and> (\<forall>a\<in>set (sn_answers k'). ended a) \<and> sn_inbox k' = sn_inbox k"
proof (induction n arbitrary: k)
  case 0
  then show ?case by (simp add: fail_def)
next
  case (Suc n)
  define a where "a = (case sn_answers k of [] \<Rightarrow> Ok () | a # as \<Rightarrow> a)"
  define k1 where "k1 = k\<lparr>sn_answers := tl (sn_answers k), sn_sent := sn_sent k @ [(t, c)],
    sn_acked := (if a = Ok () then sn_acked k @ [(t, c)] else sn_acked k)\<rparr>"
  have send: "nt_send sim_nt t c b k = (a, k1)" by (simp add: sim_nt_def a_def k1_def Let_def)
  have a: "ended a" and k1: "\<forall>a\<in>set (sn_answers k1). ended a" "sn_inbox k1 = sn_inbox k"
    using Suc.prems by (cases "sn_answers k"; simp add: a_def k1_def)+
  show ?case
  proof (cases "a = Err ImplementationSpecificError")
    case True
    with Suc.IH [OF k1(1)] k1(2) send show ?thesis by simp
  next
    case False
    then have "send_attempts sim_nt t c b (Suc n) k = (a, k1)"
      by (simp add: send split: outcome.split reason_code.split)
    with a k1 show ?thesis by simp
  qed
qed

lemma sys_feed:
  assumes "net_ok 0 w"
  shows "\<exists>x. np_feed sys_peers 0 w = (Ok (), w\<lparr>nw_watchdog := x\<rparr>) \<and> net_ok 0 (w\<lparr>nw_watchdog := x\<rparr>)"
proof -
  from assms have "0 < (16 :: nat)" "count (nw_watchdog w) \<le> 16" by (auto simp: net_ok_def)
  from rba.feed_refines [OF this] obtain x where
    "(wd_feed ref_ba 0 :: (u16 wd_inner, unit, unit) act) (nw_watchdog w) = (Ok (), x)" "count x = count (nw_watchdog w)" by blast
  with assms show ?thesis
    by (intro exI [of _ x]) (simp add: net_peers_of_def zoom_def wd_ticket_feed_def net_ok_def)
qed

text \<open>A message that waits is taken by the next turn of the client.\<close>

lemma client_takes:
  assumes "healthy_net n" "net_outgoing n \<noteq> []"
  shows "\<exists>n'. client_turn n = (Ok True, n') \<and> healthy_net n' \<and> net_outgoing n' = []
    \<and> nw_config (net_others n') = nw_config (net_others n) \<and> sn_inbox (net_stack n') = sn_inbox (net_stack n)"
proof -
  from assms obtain m where m: "net_outgoing n = [m]"
    by (cases "net_outgoing n") (auto simp: healthy_net_def)
  from assms(1) sys_feed [of "net_others n"] obtain x where
    x: "np_feed sys_peers 0 (net_others n) = (Ok (), (net_others n)\<lparr>nw_watchdog := x\<rparr>)" "net_ok 0 ((net_others n)\<lparr>nw_watchdog := x\<rparr>)"
    by (auto simp: healthy_net_def)
  from assms(1) sim_attempts [of "net_stack n" "msg_topic m" "msg_content m" False 5] obtain r k where
    r: "send_attempts sim_nt (msg_topic m) (msg_content m) False 5 (net_stack n) = (r, k)" "ended r"
      "\<forall>a\<in>set (sn_answers k). ended a" "sn_inbox k = sn_inbox (net_stack n)"
    by (auto simp: healthy_net_def)
  have "\<exists>n'. client_turn n = (Ok True, n') \<and> net_others n' = (net_others n)\<lparr>nw_watchdog := x\<rparr> \<and> net_outgoing n' = []
      \<and> net_stack n' = k"
    using r(1,2) by (cases r) (auto simp: client_turn_def mqtt_turn_def bindA_def zoom_def x(1) ref_ch_def m mqtt_outgoing_def tryA_def
        send_message_qos1_def net_log_def modifyA_def ret_def)
  with x(2) r(3,4) show ?thesis by (auto simp: healthy_net_def)
qed

text \<open>Otherwise a message is received, whatever becomes of it.\<close>

lemma incoming_keeps:
  assumes "mqtt_incoming sim_nt sys_peers from_slice n = (r, n')"
  shows "nw_watchdog (net_others n') = nw_watchdog (net_others n)" "sn_answers (net_stack n') = sn_answers (net_stack n)"
    "net_outgoing n' = net_outgoing n"
proof -
  have "nw_watchdog (net_others n') = nw_watchdog (net_others n) \<and> sn_answers (net_stack n') = sn_answers (net_stack n)"
    using assms
    by (auto simp: mqtt_incoming_def bindA_def tryA_def zoom_def sim_nt_def process_message_def net_peers_of_def net_log_def
        modifyA_def ret_def split: list.splits outcome.splits prod.splits option.splits topic.splits sum.splits reason_code.splits)
  then show "nw_watchdog (net_others n') = nw_watchdog (net_others n)" "sn_answers (net_stack n') = sn_answers (net_stack n)"
    by simp_all
  show "net_outgoing n' = net_outgoing n" by (rule incoming_queue [OF assms])
qed

lemma client_receives:
  assumes "healthy_net n" "net_outgoing n = []"
  shows "\<exists>x. client_turn n = mqtt_incoming sim_nt sys_peers ref_from_slice (n\<lparr>net_others := (net_others n)\<lparr>nw_watchdog := x\<rparr>\<rparr>)
    \<and> healthy_net (n\<lparr>net_others := (net_others n)\<lparr>nw_watchdog := x\<rparr>\<rparr>)"
proof -
  from assms(1) sys_feed [of "net_others n"] obtain x where
    x: "np_feed sys_peers 0 (net_others n) = (Ok (), (net_others n)\<lparr>nw_watchdog := x\<rparr>)" "net_ok 0 ((net_others n)\<lparr>nw_watchdog := x\<rparr>)"
    by (auto simp: healthy_net_def)
  with assms show ?thesis
    by (intro exI [of _ x]) (simp add: client_turn_def mqtt_turn_def bindA_def zoom_def ref_ch_def healthy_net_def)
qed

lemma turn_healthy:
  assumes "healthy_net n" "client_turn n = (r, n')"
  shows "healthy_net n'"
proof (cases "net_outgoing n = []")
  case False
  from client_takes [OF assms(1) this] assms(2) show ?thesis by auto
next
  case True
  from client_receives [OF assms(1) this] obtain x where
    x: "client_turn n = mqtt_incoming sim_nt sys_peers ref_from_slice (n\<lparr>net_others := (net_others n)\<lparr>nw_watchdog := x\<rparr>\<rparr>)"
    "healthy_net (n\<lparr>net_others := (net_others n)\<lparr>nw_watchdog := x\<rparr>\<rparr>)" by blast
  with assms(2) have "mqtt_incoming sim_nt sys_peers ref_from_slice (n\<lparr>net_others := (net_others n)\<lparr>nw_watchdog := x\<rparr>\<rparr>) = (r, n')"
    by simp
  from incoming_keeps [OF this] x(2) show ?thesis by (simp add: healthy_net_def net_ok_def)
qed

section \<open>Steps of the system\<close>

lemma with_notifier_fields [simp]:
  "net_outgoing (with_notifier q n) = net_outgoing n" "net_stack (with_notifier q n) = net_stack n"
  "nw_watchdog (net_others (with_notifier q n)) = nw_watchdog (net_others n)"
  "cfg_notifier (nw_config (net_others (with_notifier q n))) = q"
  "net_ok i (net_others (with_notifier q n)) \<longleftrightarrow> net_ok i (net_others n)"
  "healthy_net (with_notifier q n) \<longleftrightarrow> healthy_net n"
  by (simp_all add: with_notifier_def healthy_net_def net_ok_def)

text \<open>What a step of the publishing task leaves.\<close>

lemma send_keeps:
  assumes "(net_send (ref_ch 1) msg :: (sys_net, unit, unit) act) n = (r, n')"
  shows "net_stack n' = net_stack n" "net_others n' = net_others n" "length (net_outgoing n) \<le> 1 \<Longrightarrow> length (net_outgoing n') \<le> 1"
    "r = Ok () \<Longrightarrow> net_outgoing n' = net_outgoing n @ [msg]" "r = Ok () \<longleftrightarrow> net_outgoing n = []"
  using assms by (auto simp: net_send_def zoom_def send_to_def ref_ch_def split: if_splits)

lemma next_keeps: "mail_next q = Some (m, q') \<Longrightarrow> fst (snd q') = fst (snd q)"
  by (cases q rule: mail_next.cases) auto

lemma select_keeps:
  "events_select sys_subs (a, b, c) = Some (m, (a', b', c')) \<Longrightarrow> fst (snd c') = fst (snd c)"
  by (auto simp: events_select_def sys_subs_def dest: next_keeps split: option.splits)

lemma publish_turn_keeps:
  assumes "publish_turn t = (r, t')"
  shows "net_stack (et_net t') = net_stack (et_net t)" "net_others (et_net t') = net_others (et_net t)"
    "length (net_outgoing (et_net t)) \<le> 1 \<Longrightarrow> length (net_outgoing (et_net t')) \<le> 1"
    "fst (snd (snd (snd (et_subs t')))) = fst (snd (snd (snd (et_subs t))))"
proof -
  have turn: "events_publish_turn ref_json (ref_ch 1) sys_subs t = (r, t')" using assms by (simp add: publish_turn_def)
  have "net_stack (et_net t') = net_stack (et_net t) \<and> net_others (et_net t') = net_others (et_net t)
    \<and> (length (net_outgoing (et_net t)) \<le> 1 \<longrightarrow> length (net_outgoing (et_net t')) \<le> 1)
    \<and> fst (snd (snd (snd (et_subs t')))) = fst (snd (snd (snd (et_subs t))))"
  proof (cases "events_select sys_subs (et_subs t)")
    case None
    with turn show ?thesis by (auto simp: events_publish_turn_def)
  next
    case (Some mu)
    obtain m a b c where mu: "events_select sys_subs (et_subs t) = Some (m, (a, b, c))" by (cases mu) (auto simp: Some)
    obtain a0 b0 c0 where u: "et_subs t = (a0, b0, c0)" by (cases "et_subs t") auto
    have pubs: "fst (snd c) = fst (snd c0)" using select_keeps mu unfolding u by blast
    show ?thesis
    proof (cases "\<exists>msg. events_message ref_json m = Some (Inr msg)")
      case True
      then obtain msg n where msg: "events_message ref_json m = Some (Inr msg)"
        "(net_send (ref_ch 1) msg :: (sys_net, unit, unit) act) (et_net t) = (r, n)" "t' = t\<lparr>et_subs := (a, b, c), et_net := n\<rparr>"
        using turn mu by (auto simp: events_publish_turn_def zoom_def split: prod.splits)
      from send_keeps [OF msg(2)] msg(3) pubs u show ?thesis by simp
    next
      case False
      with turn mu have "t' = t\<lparr>et_subs := (a, b, c)\<rparr>"
        by (auto simp: events_publish_turn_def ret_def panic_def split: option.splits sum.splits)
      with pubs u show ?thesis by simp
    qed
  qed
  then show "net_stack (et_net t') = net_stack (et_net t)" "net_others (et_net t') = net_others (et_net t)"
    "length (net_outgoing (et_net t)) \<le> 1 \<Longrightarrow> length (net_outgoing (et_net t')) \<le> 1"
    "fst (snd (snd (snd (et_subs t')))) = fst (snd (snd (snd (et_subs t))))" by blast+
qed

abbreviation publishing :: "system \<Rightarrow> nat" where
  "publishing s \<equiv> fst (snd (cfg_notifier (sys_config s)))"

lemma after_publish_keeps:
  assumes "publish_turn (sys_task s) = (r, t)"
  shows "sy_client (after_publish t pc s) = sy_client s" "sy_publish (after_publish t pc s) = pc"
    "net_stack (sy_net (after_publish t pc s)) = net_stack (sy_net s)" "publishing (after_publish t pc s) = publishing s"
    "healthy s \<Longrightarrow> healthy (after_publish t pc s)"
proof -
  obtain a b c where u: "et_subs t = (a, b, c)" by (cases "et_subs t") auto
  note k = publish_turn_keeps [OF assms]
  show "sy_client (after_publish t pc s) = sy_client s" "sy_publish (after_publish t pc s) = pc"
    "net_stack (sy_net (after_publish t pc s)) = net_stack (sy_net s)" "publishing (after_publish t pc s) = publishing s"
    using k u by (simp_all add: after_publish_def sys_task_def)
  show "healthy s \<Longrightarrow> healthy (after_publish t pc s)"
    using k(1-3) u by (simp add: after_publish_def sys_task_def healthy_net_def)
qed

lemma publish_step_keeps:
  assumes "publish_step s = Some s'"
  shows "sy_client s' = sy_client s \<and> net_stack (sy_net s') = net_stack (sy_net s) \<and> publishing s' = publishing s
    \<and> (healthy s \<longrightarrow> healthy s')"
proof (cases "sy_publish s")
  case PublishSelect
  obtain r t where t: "publish_turn (sys_task s) = (r, t)" by fastforce
  from assms PublishSelect t obtain pc where "s' = after_publish t pc s"
    by (auto simp: publish_step_def split: outcome.splits option.splits sum.splits)
  with after_publish_keeps [OF t, of pc] show ?thesis by simp
next
  case (PublishSending msg)
  obtain r n where n: "(net_send (ref_ch 1) msg :: (sys_net, unit, unit) act) (sy_net s) = (r, n)" by fastforce
  from assms PublishSending n have "s' = s\<lparr>sy_net := n, sy_publish := PublishSelect\<rparr>"
    by (auto simp: publish_step_def split: outcome.splits)
  with send_keeps [OF n] show ?thesis by (simp add: healthy_net_def)
qed

lemma client_step_healthy:
  assumes "client_step s = Some s'" "healthy s"
  shows "healthy s' \<and> sy_publish s' = sy_publish s"
proof (cases "sy_client s")
  case ClientSelect
  obtain r n where n: "client_turn (sy_net s) = (r, n)" by fastforce
  from assms(1) ClientSelect n have "sy_net s' = n \<and> sy_publish s' = sy_publish s"
    by (auto simp: client_step_def Let_def split: outcome.splits if_splits)
  with turn_healthy [OF assms(2) n] show ?thesis by simp
next
  case (ClientPublishing v)
  with assms show ?thesis by (auto simp: client_step_def split: option.splits)
qed

lemma run_healthy:
  assumes "system_run ev s = Some s'" "healthy s"
  shows "healthy s'"
proof (cases ev)
  case EvClient
  with client_step_healthy assms show ?thesis by simp
next
  case EvPublish
  with publish_step_keeps assms show ?thesis by simp
qed (use assms in \<open>auto simp: healthy_net_def split: client_pc.splits option.splits\<close>)

lemma runs_healthy: "healthy s \<Longrightarrow> healthy (system_runs evs s)"
proof (induction evs arbitrary: s)
  case (Cons ev evs)
  then show ?case using run_healthy [of ev s] by (cases "system_run ev s") simp_all
qed simp

section \<open>Who waits for whom\<close>

lemma send_step:
  assumes "sy_publish s = PublishSending m"
  shows "publish_step s = (if net_outgoing (sy_net s) = []
    then Some (s\<lparr>sy_net := (sy_net s)\<lparr>net_outgoing := [m]\<rparr>, sy_publish := PublishSelect\<rparr>) else None)"
  using assms by (simp add: publish_step_def net_send_def zoom_def send_to_def ref_ch_def)

lemma blocked_locked:
  assumes "healthy s" "sy_publish s = PublishSending m"
  shows "client_step s = None \<and> publish_step s = None \<longleftrightarrow> locked_up s"
proof
  assume "locked_up s"
  from locked_up_blocks [OF this] show "client_step s = None \<and> publish_step s = None" by simp
next
  assume none: "client_step s = None \<and> publish_step s = None"
  with send_step [OF assms(2)] have full: "net_outgoing (sy_net s) \<noteq> []" by (auto split: if_splits)
  show "locked_up s"
  proof (cases "sy_client s")
    case ClientSelect
    with client_takes [OF assms(1) full] none show ?thesis by (auto simp: client_step_def)
  next
    case (ClientPublishing v)
    obtain h p u where q: "cfg_notifier (sys_config s) = (h, p, u)" by (cases "cfg_notifier (sys_config s)") auto
    from ClientPublishing none q have "u \<noteq> []" by (auto simp: client_step_def mail_ps_def)
    with ClientPublishing full q assms(2) show ?thesis by (simp add: locked_up_def)
  qed
qed

section \<open>Without new settings\<close>

text \<open>What may arrive: anything but settings that can be read.\<close>

fun no_settings :: "(reason_code, packet) outcome \<Rightarrow> bool" where
  "no_settings (Ok (topic, buf)) \<longleftrightarrow> topic \<noteq> ''slakkotron/config'' \<or> ref_from_slice buf = None"
| "no_settings (Err e) \<longleftrightarrow> True"
| "no_settings _ \<longleftrightarrow> False"

definition calm :: "system \<Rightarrow> bool" where
  "calm s \<longleftrightarrow> healthy s \<and> sy_client s = ClientSelect \<and> publishing s = 0
     \<and> (\<forall>m\<in>set (sn_inbox (net_stack (sy_net s))). no_settings m)"

lemma incoming_calm:
  assumes "\<forall>m\<in>set (sn_inbox (net_stack n)). no_settings m"
    and "mqtt_incoming sim_nt sys_peers ref_from_slice n = (r, n')"
  shows "nw_config (net_others n') = nw_config (net_others n)"
    "set (sn_inbox (net_stack n')) \<subseteq> set (sn_inbox (net_stack n))"
proof -
  have "nw_config (net_others n') = nw_config (net_others n) \<and> set (sn_inbox (net_stack n')) \<subseteq> set (sn_inbox (net_stack n))"
  proof (cases "sn_inbox (net_stack n)")
    case Nil
    with assms(2) show ?thesis by (auto simp: mqtt_incoming_def bindA_def tryA_def zoom_def sim_nt_def)
  next
    case (Cons m ms)
    with assms(1) have "no_settings m" by simp
    then show ?thesis
    proof (cases m rule: no_settings.cases)
      case (1 topic buf)
      with Cons assms \<open>no_settings m\<close> show ?thesis
        by (auto simp: mqtt_incoming_def bindA_def tryA_def zoom_def sim_nt_def process_message_def topic_try_parse_def
            net_log_def modifyA_def ret_def split: if_splits)
    next
      case (2 e)
      with Cons assms(2) show ?thesis
        by (cases e) (auto simp: mqtt_incoming_def bindA_def tryA_def zoom_def sim_nt_def net_log_def modifyA_def ret_def)
    qed simp_all
  qed
  then show "nw_config (net_others n') = nw_config (net_others n)"
    "set (sn_inbox (net_stack n')) \<subseteq> set (sn_inbox (net_stack n))" by simp_all
qed

lemma turn_calm:
  assumes "healthy_net n" "\<forall>m\<in>set (sn_inbox (net_stack n)). no_settings m" "client_turn n = (r, n')"
  shows "nw_config (net_others n') = nw_config (net_others n)" "\<forall>m\<in>set (sn_inbox (net_stack n')). no_settings m"
proof -
  have "nw_config (net_others n') = nw_config (net_others n) \<and> set (sn_inbox (net_stack n')) \<subseteq> set (sn_inbox (net_stack n))"
  proof (cases "net_outgoing n = []")
    case False
    with client_takes [OF assms(1) False] assms(3) show ?thesis by auto
  next
    case True
    from client_receives [OF assms(1) True] obtain x where
      "mqtt_incoming sim_nt sys_peers ref_from_slice (n\<lparr>net_others := (net_others n)\<lparr>nw_watchdog := x\<rparr>\<rparr>) = (r, n')"
      using assms(3) by auto
    from incoming_calm [OF _ this] assms(2) show ?thesis by simp
  qed
  with assms(2) show "nw_config (net_others n') = nw_config (net_others n)" "\<forall>m\<in>set (sn_inbox (net_stack n')). no_settings m"
    by auto
qed

lemma run_calm:
  assumes "system_run ev s = Some s'" "calm s" "\<And>m. ev = EvArrives m \<Longrightarrow> no_settings m"
  shows "calm s'"
proof -
  from assms(2) have h: "healthy s" and c: "sy_client s = ClientSelect" "publishing s = 0"
    and inbox: "\<forall>m\<in>set (sn_inbox (net_stack (sy_net s))). no_settings m" by (auto simp: calm_def)
  have "sy_client s' = ClientSelect \<and> publishing s' = 0 \<and> (\<forall>m\<in>set (sn_inbox (net_stack (sy_net s'))). no_settings m)"
  proof (cases ev)
    case EvClient
    obtain r n where n: "client_turn (sy_net s) = (r, n)" by fastforce
    from turn_calm [OF h inbox n] c EvClient assms(1) n show ?thesis
      by (auto simp: client_step_def Let_def split: outcome.splits if_splits)
  next
    case EvPublish
    with publish_step_keeps [of s s'] assms(1) c inbox show ?thesis by simp
  next
    case (EvArrives m)
    with assms(1,3) c inbox show ?thesis by auto
  next
    case EvConfigPush
    with assms(1) c inbox show ?thesis by (auto simp: mail_ps_def split: prod.splits)
  qed (use assms(1) c inbox in \<open>auto split: option.splits\<close>)
  with run_healthy [OF assms(1) h] show ?thesis by (simp add: calm_def)
qed

lemma runs_calm: "calm s \<Longrightarrow> (\<And>m. EvArrives m \<in> set evs \<Longrightarrow> no_settings m) \<Longrightarrow> calm (system_runs evs s)"
proof (induction evs arbitrary: s)
  case (Cons ev evs)
  from Cons.prems(2) have "\<And>m. EvArrives m \<in> set evs \<Longrightarrow> no_settings m" "\<And>m. ev = EvArrives m \<Longrightarrow> no_settings m" by auto
  with Cons.IH Cons.prems(1) run_calm [of ev s] show ?case by (cases "system_run ev s") simp_all
qed simp

text \<open>A calm system lets a waiting message through.\<close>

lemma calm_lets_through:
  assumes "calm s" "sy_publish s = PublishSending m"
  shows "\<exists>n\<le>1. sy_publish (system_runs (replicate n EvClient @ [EvPublish]) s) = PublishSelect
    \<and> net_outgoing (sy_net (system_runs (replicate n EvClient @ [EvPublish]) s)) = [m]"
proof (cases "net_outgoing (sy_net s) = []")
  case True
  with send_step [OF assms(2)] show ?thesis by (intro exI [of _ 0]) simp
next
  case False
  from assms(1) have h: "healthy s" and c: "sy_client s = ClientSelect" by (auto simp: calm_def)
  from client_takes [OF h False] obtain n where n: "client_turn (sy_net s) = (Ok True, n)" "net_outgoing n = []" by blast
  have client: "client_step s = Some (s\<lparr>sy_net := n\<rparr>)" by (simp add: client_step_def c n(1))
  have "sy_publish (s\<lparr>sy_net := n\<rparr>) = PublishSending m" using assms(2) by simp
  from send_step [OF this] n(2) client show ?thesis by (intro exI [of _ 1]) simp
qed

section \<open>Properties\<close>

text \<open>The start of the two tasks, with the answers that the broker gives to the first messages.\<close>

definition answering :: "(reason_code, unit) outcome list \<Rightarrow> system" where
  "answering as = system_boot\<lparr>sy_net := (sy_net system_boot)\<lparr>net_stack := sim_idle\<lparr>sn_answers := as\<rparr>\<rparr>\<rparr>"

lemma answering_calm: "\<forall>a\<in>set as. ended a \<Longrightarrow> calm (answering as)"
  by (simp add: answering_def calm_def healthy_net_def system_boot_def net_ok_def sim_idle_def)


text \<open>A report and the counters are published, of which the second waits; a message that is no settings arrives.\<close>

definition two_reports :: "system_event list" where
  "two_reports = [EvStats small_report, EvRecord record_data_default, EvArrives (Err NetworkError), EvPublish, EvPublish]"

lemma two_reports_wait: "\<exists>m. sy_publish (system_runs two_reports (answering [])) = PublishSending m"
proof -
  define s where "s = system_runs (take 3 two_reports) (answering [])"
  have s: "sy_publish s = PublishSelect" "sy_stats s = ([small_report], 0, [small_report])"
    "sy_record s = ([record_data_default], 0, [record_data_default])" "net_outgoing (sy_net s) = []"
    by (simp_all add: s_def two_reports_def answering_def system_boot_def mail_ps_def)
  from publish_takes_report [OF s(1,2,4)] obtain s1 m1 where s1: "publish_step s = Some s1" "net_outgoing (sy_net s1) = [m1]"
    "sy_stats s1 = ([small_report], 0, [])" "sy_record s1 = sy_record s" "sy_publish s1 = PublishSelect"
    by (auto simp: small_report_def)
  from publish_waits [OF s1(5,3) _ s1(2)] s1(4) s(3) obtain s2 m2 where
    s2: "publish_step s1 = Some s2" "sy_publish s2 = PublishSending m2" by auto
  have "two_reports = take 3 two_reports @ [EvPublish, EvPublish]" by (simp add: two_reports_def)
  then have "system_runs two_reports (answering []) = s2"
    using s1(1) s2(1) by (metis s_def system_runs_append system_runs.simps system_run.simps(2) option.simps(5))
  with s2(2) show ?thesis by blast
qed


end
