(* ===== verification/Shared_Flash.thy ===== *)
theory Shared_Flash
  imports Config Record_Log
begin

text \<open>
  \<open>Config\<close> and \<open>Record\<close> on one flash: both keep a reference to the same \<open>Storage\<close>, under whose lock each of
  their stores and fetches runs.  The theories of the two systems have the flash in their state; here
  each of them is lent the one flash for the time of a step.  An update of the settings that waits for its
  subscribers is two steps, between which it holds the lock of the settings.
\<close>

section \<open>The two systems\<close>

record ('f, 'g, 'c, 'q) shared =
  sh_flash :: 'f
  sh_updating :: bool
  sh_config :: "('f, 'g) config"
  sh_record :: "('f, 'c, 'q) record_world"

definition lent_config :: "('f, 'g, 'c, 'q) shared \<Rightarrow> ('f, 'g) config" where
  "lent_config s = (sh_config s)\<lparr>cfg_flash := sh_flash s\<rparr>"

definition lent_record :: "('f, 'g, 'c, 'q) shared \<Rightarrow> ('f, 'c, 'q) record_world" where
  "lent_record s = (sh_record s)\<lparr>rw_sys := (rw_sys (sh_record s))\<lparr>rec_flash := sh_flash s\<rparr>\<rparr>"

abbreviation on_config :: "(('f, 'g) config, 'e, 'a) act \<Rightarrow> (('f, 'g, 'c, 'q) shared, 'e, 'a) act" where
  "on_config \<equiv> zoom lent_config (\<lambda>c s. s\<lparr>sh_config := c, sh_flash := cfg_flash c\<rparr>)"

abbreviation on_record :: "(('f, 'c, 'q) record_world, 'e, 'a) act \<Rightarrow> (('f, 'g, 'c, 'q) shared, 'e, 'a) act" where
  "on_record \<equiv> zoom lent_record (\<lambda>w s. s\<lparr>sh_record := w, sh_flash := rec_flash (rw_sys w)\<rparr>)"

text \<open>What the two systems are made of, besides the storage, and what a subscriber of the settings does that reads.\<close>

record ('g, 'c, 'q) shared_parts =
  pa_settings_pc :: "settings postcard"
  pa_settings_ps :: "('g, settings) pubsub_ops"
  pa_settings_read :: "'g \<Rightarrow> 'g"
  pa_record_pc :: "record_data postcard"
  pa_record_ch :: "('c, unit) channel_ops"
  pa_record_ps :: "('q, record_data) pubsub_ops"

text \<open>
  The start of the two, one after the other, and their events in any order: an update and the end of one that
  waited, the timer of the task that publishes the settings, a subscriber that reads them, and the events of
  the counters.  What needs the lock of the settings waits while an update holds it.
\<close>

definition shared_boot :: "profile \<Rightarrow> ('f, 'se) seq_storage \<Rightarrow> partition_entry \<Rightarrow> ('g, 'c, 'q) shared_parts \<Rightarrow> instant \<Rightarrow>
    ('f, 'e, ('f, 'g, 'c, 'q) shared) act" where
  "shared_boot p ss part pa t =
     bindA (config_init p ss part (pa_settings_pc pa) (pa_settings_ps pa)) (\<lambda>config.
     bindA (record_init p ss part (pa_record_pc pa) (pa_record_ch pa) (pa_record_ps pa)) (\<lambda>record.
     bindA (readA (\<lambda>f. f)) (\<lambda>f.
       ret \<lparr>sh_flash = f, sh_updating = False, sh_config = config, sh_record = record_start record t\<rparr>)))"

datatype shared_event = ShUpdate "settings \<Rightarrow> settings" | ShFinish | ShPush | ShRead | ShRecord record_event

fun shared_exec :: "profile \<Rightarrow> time_ops \<Rightarrow> ('f, 'se) seq_storage \<Rightarrow> partition_entry \<Rightarrow> ('g, 'c, 'q) shared_parts \<Rightarrow>
    shared_event \<Rightarrow> (('f, 'g, 'c, 'q) shared, unit, unit) act" where
  "shared_exec p tm ss part pa (ShUpdate f) s =
     (if sh_updating s then (Pending, s)
      else case on_config (config_update p ss part (pa_settings_pc pa) (pa_settings_ps pa) f) s of
        (Pending, s') \<Rightarrow> (Ok (), s'\<lparr>sh_updating := True\<rparr>)
      | r \<Rightarrow> r)"
| "shared_exec p tm ss part pa ShFinish s =
     (if sh_updating s
      then seqA (on_config (config_update_finish (pa_settings_ps pa))) (modifyA (\<lambda>s. s\<lparr>sh_updating := False\<rparr>)) s
      else (Pending, s))"
| "shared_exec p tm ss part pa ShPush s =
     (if sh_updating s then (Pending, s) else on_config (config_push_turn (pa_settings_ps pa) PushTimer) s)"
| "shared_exec p tm ss part pa ShRead s =
     on_config (modifyA (\<lambda>c. c\<lparr>cfg_notifier := pa_settings_read pa (cfg_notifier c)\<rparr>)) s"
| "shared_exec p tm ss part pa (ShRecord ev) s =
     on_record (record_exec p tm ss part (pa_record_pc pa) (pa_record_ch pa) (pa_record_ps pa) ev) s"

fun updates_of :: "shared_event list \<Rightarrow> (settings \<Rightarrow> settings) list" where
  "updates_of [] = []"
| "updates_of (ShUpdate f # evs) = f # updates_of evs"
| "updates_of (ev # evs) = updates_of evs"

section \<open>What one does to the flash of the other\<close>

lemma entries_differ: "entry_key (settings_entry spc) \<noteq> entry_key (record_entry rpc)"
  by (simp add: settings_entry_def record_entry_def)

lemma fetch_other:
  assumes "seq_storage_entry ss items ent" "storage_fetch p ss part ent f = (Ok r, f')"
  shows "stored_entry items p part other f' = stored_entry items p part other f"
  using seq_storage_entry.fetch_spec(2) [OF assms]
  by (cases "part_range p part") (simp_all add: stored_entry_def)

lemma update_flash:
  fixes ss :: "('f, 'se) seq_storage" and c :: "('f, 'g) config"
  assumes "(config_update p ss part pc ps f :: (('f, 'g) config, unit, unit) act) c = (res, c')" "res = Ok () \<or> res = Pending"
  shows "cfg_flash c' = cfg_flash c \<or> (\<exists>v. storage_store p ss part (settings_entry pc) v (cfg_flash c) = (Ok (), cfg_flash c'))"
proof (cases "f (cfg_settings c) = cfg_settings c")
  case True
  with config_update_same [where 'e = unit, of f c p ss part pc ps] assms show ?thesis by simp
next
  case False
  obtain r g where store: "storage_store p ss part (settings_entry pc) (f (cfg_settings c)) (cfg_flash c) = (r, g)" by fastforce
  have "r \<noteq> Pending" using store storage_not_pending(1) [of p ss part "settings_entry pc"] by auto
  with assms [unfolded config_update_changed [where f = f, OF refl False store] Let_def]
  have "r = Ok ()" "cfg_flash c' = g" by (auto split: outcome.splits option.splits)
  with store show ?thesis by blast
qed

lemma record_flash:
  fixes ss :: "('f, 'se) seq_storage" and w :: "('f, 'c, 'q) record_world"
  assumes "record_exec p tm ss part pc ch ps ev w = (Ok (), w')"
  shows "rec_flash (rw_sys w') = rec_flash (rw_sys w)
    \<or> (\<exists>v. storage_store p ss part (record_entry pc) v (rec_flash (rw_sys w)) = (Ok (), rec_flash (rw_sys w')))"
proof (cases ev)
  case (RecordLog d)
  then show ?thesis
  proof (cases "log_overflows p d (rec_data (rw_sys w))")
    case True
    then obtain s' where "(record_log_overcurrent p tm ch ps (rw_now w) d :: (('f, 'c, 'q) record_sys, unit, unit) act) (rw_sys w)
        = (Panic, s')" using log_overflow_panics by blast
    with assms RecordLog show ?thesis by (simp add: zoom_def)
  next
    case False
    with assms RecordLog show ?thesis
      by (auto simp: zoom_Ok_iff log_run schedule_run Let_def split: if_splits option.splits)
  qed
next
  case RecordSync
  with assms show ?thesis
    by (cases "rw_pc w") (auto simp: act_Ok_iff receive_from_def split: if_splits option.splits)
qed (use assms in \<open>auto simp: zoom_Ok_iff record_publish_immediate_def\<close>)

section \<open>Both keep what they promise\<close>

text \<open>Settings and counters are kept as each system keeps them on a flash of its own.\<close>

locale shared_systems =
  settings: config_system p ss part "pa_settings_pc pa" "stored_entry items p part (settings_entry (pa_settings_pc pa))"
    "pa_settings_ps pa" history publishers backlog +
  counters: record_system p ss part "pa_record_pc pa" "stored_entry items p part (record_entry (pa_record_pc pa))"
    "pa_record_ch pa" queued "pa_record_ps pa" history' publishers' backlog' tm
  for p and ss :: "('f, 'se) seq_storage" and part and pa :: "('g, 'c, 'q) shared_parts" and items
    and history publishers backlog queued history' publishers' backlog' tm +
  assumes settings_entry: "seq_storage_entry ss items (settings_entry (pa_settings_pc pa))"
    and record_entry: "seq_storage_entry ss items (record_entry (pa_record_pc pa))"
begin

abbreviation saved_settings :: "'f \<Rightarrow> settings option" where
  "saved_settings \<equiv> stored_entry items p part (settings_entry (pa_settings_pc pa))"

abbreviation saved_record :: "'f \<Rightarrow> record_data option" where
  "saved_record \<equiv> stored_entry items p part (record_entry (pa_record_pc pa))"

definition shared_inv :: "('f, 'g, 'c, 'q) shared \<Rightarrow> bool" where
  "shared_inv s \<longleftrightarrow> settings.persisted (lent_config s)
     \<and> counters.linked (lent_record s) \<and> counters.lossless (lent_record s) \<and> counters.paced (lent_record s)"

text \<open>A change of the flash that leaves an entry leaves what its system promises.\<close>

lemma persisted_lent: "saved_settings f = saved_settings (cfg_flash c) \<Longrightarrow>
    settings.persisted (c\<lparr>cfg_flash := f\<rparr>) \<longleftrightarrow> settings.persisted c"
  by (simp add: settings.persisted_def split: option.split)

lemma counters_lent:
  assumes "saved_record f = saved_record (rec_flash (rw_sys w))"
  shows "counters.linked (w\<lparr>rw_sys := (rw_sys w)\<lparr>rec_flash := f\<rparr>\<rparr>) \<longleftrightarrow> counters.linked w"
    "counters.lossless (w\<lparr>rw_sys := (rw_sys w)\<lparr>rec_flash := f\<rparr>\<rparr>) \<longleftrightarrow> counters.lossless w"
    "counters.paced (w\<lparr>rw_sys := (rw_sys w)\<lparr>rec_flash := f\<rparr>\<rparr>) \<longleftrightarrow> counters.paced w"
  using assms
  by (simp_all add: counters.linked_def counters.notified_def counters.lossless_def counters.paced_def counters.taken_def
      data_saved_def Let_def split: sync_pc.split)

lemma boot_inv:
  assumes "(shared_boot p ss part pa t :: ('f, unit, ('f, 'g, 'c, 'q) shared) act) f = (Ok s, f')"
  shows "shared_inv s" "cfg_settings (sh_config s) = (case saved_settings f of Some v \<Rightarrow> v | None \<Rightarrow> settings_default)"
    "rec_data (rw_sys (sh_record s)) = data_saved saved_record f"
proof -
  from assms obtain c f1 r where
    c: "(config_init p ss part (pa_settings_pc pa) (pa_settings_ps pa) :: ('f, unit, ('f, 'g) config) act) f = (Ok c, f1)"
    and r: "(record_init p ss part (pa_record_pc pa) (pa_record_ch pa) (pa_record_ps pa) :: ('f, unit, ('f, 'c, 'q) record_sys) act) f1
      = (Ok r, f')"
    and s: "s = \<lparr>sh_flash = f', sh_updating = False, sh_config = c, sh_record = record_start r t\<rparr>"
    by (auto simp: shared_boot_def act_Ok_iff)
  obtain x where x: "storage_fetch p ss part (settings_entry (pa_settings_pc pa)) f = (Ok x, f1)"
    using c by (auto simp: config_init_def act_Ok_iff)
  obtain y where y: "storage_fetch p ss part (record_entry (pa_record_pc pa)) f1 = (Ok y, f')"
    and data: "rec_data r = (case y of Some v \<Rightarrow> v | None \<Rightarrow> record_data_default)" "rec_flash r = f'"
    using r by (auto simp: record_init_def act_Ok_iff)
  note pers = settings.init_persisted [OF c]
  have same: "saved_settings f' = saved_settings f1" by (rule fetch_other [OF record_entry y])
  have first: "saved_record f1 = saved_record f" by (rule fetch_other [OF settings_entry x])
  show "cfg_settings (sh_config s) = (case saved_settings f of Some v \<Rightarrow> v | None \<Rightarrow> settings_default)"
    using pers(3) by (simp add: s)
  show "rec_data (rw_sys (sh_record s)) = data_saved saved_record f"
    using counters.fetch_stored [OF y] first data(1) by (simp add: s record_start_def data_saved_def)
  have "lent_record s = record_start r t" using data(2) by (simp add: s lent_record_def record_start_def)
  moreover have "lent_config s = c\<lparr>cfg_flash := f'\<rparr>" by (simp add: s lent_config_def)
  ultimately show "shared_inv s"
    using counters.init_establishes [OF r, of t] pers(1) persisted_lent [of f' c] same pers(2) by (simp add: shared_inv_def)
qed

text \<open>What changes only the channel of the settings; an update, which waits or not; an event of the counters.\<close>

lemma channel_inv:
  assumes "sh_config s' = (lent_config s)\<lparr>cfg_notifier := q\<rparr>" "sh_flash s' = sh_flash s" "sh_record s' = sh_record s"
    and "shared_inv s"
  shows "shared_inv s' \<and> cfg_settings (sh_config s') = cfg_settings (sh_config s)"
proof -
  have "lent_config s' = (lent_config s)\<lparr>cfg_notifier := q\<rparr>" "lent_record s' = lent_record s"
    using assms(1-3) by (simp_all add: lent_config_def lent_record_def)
  with assms(1,4) show ?thesis by (auto simp: shared_inv_def settings.persisted_def lent_config_def split: option.splits)
qed

lemma update_run_inv:
  assumes "(config_update p ss part (pa_settings_pc pa) (pa_settings_ps pa) f :: (('f, 'g) config, unit, unit) act) (lent_config s) = (res, c)"
    and "res = Ok () \<or> res = Pending" "shared_inv s"
  shows "shared_inv (s\<lparr>sh_config := c, sh_flash := cfg_flash c, sh_updating := b\<rparr>) \<and> cfg_settings c = f (cfg_settings (sh_config s))"
proof -
  let ?s = "s\<lparr>sh_config := c, sh_flash := cfg_flash c, sh_updating := b\<rparr>"
  from update_flash [OF assms(1,2)] have "cfg_flash c = sh_flash s
      \<or> (\<exists>v. storage_store p ss part (settings_entry (pa_settings_pc pa)) v (sh_flash s) = (Ok (), cfg_flash c))"
    by (simp add: lent_config_def)
  then have same: "saved_record (cfg_flash c) = saved_record (rec_flash (rw_sys (lent_record s)))"
    using seq_storage_entry.store_other [OF settings_entry _ entries_differ [symmetric], of p part _ "sh_flash s" "cfg_flash c"]
    by (auto simp: lent_record_def)
  have "lent_record ?s = (lent_record s)\<lparr>rw_sys := (rw_sys (lent_record s))\<lparr>rec_flash := cfg_flash c\<rparr>\<rparr>" "lent_config ?s = c"
    by (simp_all add: lent_record_def lent_config_def)
  moreover have "settings.persisted c \<and> cfg_settings c = f (cfg_settings (sh_config s))"
    using assms settings.update_persisted [of f "lent_config s" c] settings.waiting_persisted [of f "lent_config s" c]
    by (auto simp: shared_inv_def lent_config_def)
  ultimately show ?thesis using assms(3) counters_lent [OF same] by (simp add: shared_inv_def)
qed

lemma update_inv:
  assumes "shared_exec p tm ss part pa (ShUpdate f) s = (Ok (), s')" "shared_inv s"
  shows "shared_inv s' \<and> cfg_settings (sh_config s') = f (cfg_settings (sh_config s))"
proof -
  obtain res c where run: "(config_update p ss part (pa_settings_pc pa) (pa_settings_ps pa) f :: (('f, 'g) config, unit, unit) act)
      (lent_config s) = (res, c)" by fastforce
  from assms(1) run obtain b where "res = Ok () \<or> res = Pending" "s' = s\<lparr>sh_config := c, sh_flash := cfg_flash c, sh_updating := b\<rparr>"
    by (cases res) (auto simp: zoom_def split: if_splits intro: that [of "sh_updating s"] that [of True])
  with update_run_inv [OF run, of b] assms(2) show ?thesis by simp
qed

lemma record_inv:
  assumes "shared_exec p tm ss part pa (ShRecord ev) s = (Ok (), s')" "shared_inv s"
  shows "shared_inv s' \<and> cfg_settings (sh_config s') = cfg_settings (sh_config s)"
proof -
  from assms(1) obtain w where
    w: "record_exec p tm ss part (pa_record_pc pa) (pa_record_ch pa) (pa_record_ps pa) ev (lent_record s) = (Ok (), w)"
    and s': "s' = s\<lparr>sh_record := w, sh_flash := rec_flash (rw_sys w)\<rparr>" by (auto simp: zoom_Ok_iff)
  from record_flash [OF w] have "rec_flash (rw_sys w) = sh_flash s
      \<or> (\<exists>v. storage_store p ss part (record_entry (pa_record_pc pa)) v (sh_flash s) = (Ok (), rec_flash (rw_sys w)))"
    by (simp add: lent_record_def)
  then have same: "saved_settings (rec_flash (rw_sys w)) = saved_settings (cfg_flash (lent_config s))"
    using seq_storage_entry.store_other [OF record_entry _ entries_differ, of p part _ "sh_flash s" "rec_flash (rw_sys w)"]
    by (auto simp: lent_config_def)
  have "lent_config s' = (lent_config s)\<lparr>cfg_flash := rec_flash (rw_sys w)\<rparr>" "lent_record s' = w"
    by (simp_all add: s' lent_record_def lent_config_def)
  with counters.event_keeps [OF w] assms(2) persisted_lent [OF same] show ?thesis
    by (simp add: shared_inv_def s')
qed

lemma event_inv:
  assumes "shared_exec p tm ss part pa ev s = (Ok (), s')" "shared_inv s"
  shows "shared_inv s' \<and> cfg_settings (sh_config s') = fold (\<lambda>f. f) (updates_of [ev]) (cfg_settings (sh_config s))"
proof (cases ev)
  case (ShUpdate f)
  with update_inv [of f s s'] assms show ?thesis by simp
next
  case (ShRecord e)
  with record_inv [of e s s'] assms show ?thesis by simp
next
  case ShFinish
  with assms(1) obtain q where "s' = s\<lparr>sh_config := (lent_config s)\<lparr>cfg_notifier := q\<rparr>, sh_updating := False\<rparr>"
    by (auto simp: config_update_finish_def act_Ok_iff lent_config_def split: if_splits)
  with channel_inv [of s' q s] assms(2) ShFinish show ?thesis by simp
next
  case ShPush
  with assms(1) obtain q where "s' = s\<lparr>sh_config := (lent_config s)\<lparr>cfg_notifier := q\<rparr>\<rparr>"
    by (auto simp: config_publish_immediate_def act_Ok_iff lent_config_def split: if_splits)
  with channel_inv [of s' q s] assms(2) ShPush show ?thesis by simp
next
  case ShRead
  with assms(1) obtain q where "s' = s\<lparr>sh_config := (lent_config s)\<lparr>cfg_notifier := q\<rparr>\<rparr>"
    by (auto simp: act_Ok_iff lent_config_def)
  with channel_inv [of s' q s] assms(2) ShRead show ?thesis by simp
qed

lemma runs_inv:
  "forA (shared_exec p tm ss part pa) evs s = (Ok (), s') \<Longrightarrow> shared_inv s \<Longrightarrow>
   shared_inv s' \<and> cfg_settings (sh_config s') = fold (\<lambda>f. f) (updates_of evs) (cfg_settings (sh_config s))"
proof (induction evs arbitrary: s)
  case (Cons ev evs)
  from Cons.prems(1) obtain s1 where s1: "shared_exec p tm ss part pa ev s = (Ok (), s1)"
    "forA (shared_exec p tm ss part pa) evs s1 = (Ok (), s')" by (auto simp: bindA_Ok_iff)
  from event_inv [OF s1(1) Cons.prems(2)] Cons.IH [OF s1(2)] show ?case by (cases ev) simp_all
qed simp

text \<open>What a second start on the same flash finds.\<close>

lemma second_start:
  assumes "shared_inv s"
    and "(shared_boot p ss part pa t :: ('f, unit, ('f, 'g, 'c, 'q) shared) act) (sh_flash s) = (Ok s2, f2)"
  shows "cfg_settings (sh_config s2) = cfg_settings (sh_config s)"
    "rec_sync_at (rw_sys (sh_record s)) = None \<Longrightarrow> rw_pc (sh_record s) = SyncStore (rec_data (rw_sys (sh_record s)))
       \<or> rec_data (rw_sys (sh_record s2)) = rec_data (rw_sys (sh_record s))"
  using boot_inv(2,3) [OF assms(2)] assms(1)
  by (auto simp: shared_inv_def settings.persisted_def counters.lossless_def lent_config_def lent_record_def
      split: option.splits sync_pc.splits)

end

lemma shared_systemsI:
  assumes "seq_map ss items" "postcard_codec (pa_settings_pc pa)" "postcard_codec (pa_record_pc pa)"
    and "pubsub (pa_settings_ps pa) history publishers backlog" "bounded_channel (pa_record_ch pa) queued NOTIFY_CAP"
    and "pubsub (pa_record_ps pa) history' publishers' backlog'" "embassy_time tm"
  shows "shared_systems p ss part pa items history publishers backlog queued history' publishers' backlog' tm"
proof -
  have "seq_storage_entry ss items (settings_entry (pa_settings_pc pa))" "seq_storage_entry ss items (record_entry (pa_record_pc pa))"
    using assms(1-3) by (auto intro!: seq_storage_entryI simp: settings_entry_def record_entry_def)
  with config_systemI [OF assms(1,2,4)] record_systemI [OF assms(1,3,5-7)] show ?thesis
    by (intro shared_systems.intro shared_systems_axioms.intro)
qed

section \<open>A provider\<close>

definition ref_parts :: "(settings list \<times> nat \<times> nat, unit list, record_data list \<times> nat \<times> nat) shared_parts" where
  "ref_parts = \<lparr>pa_settings_pc = ref_settings_pc, pa_settings_ps = ref_ps,
     pa_settings_read = (\<lambda>(h, p, b). (h, p, 0)), pa_record_pc = ref_record_pc,
     pa_record_ch = ref_ch NOTIFY_CAP, pa_record_ps = ref_ps\<rparr>"

interpretation ref_shared: shared_systems Release ref_ss ref_nvs ref_parts "\<lambda>rng f. f rng"
    fst "\<lambda>q. fst (snd q)" "\<lambda>q. snd (snd q)" "\<lambda>c. c" fst "\<lambda>q. fst (snd q)" "\<lambda>q. snd (snd q)" ref_tm
  by (rule shared_systemsI)
    (simp_all add: ref_parts_def rss.seq_map_axioms ref_settings_pc.postcard_codec_axioms ref_record_pc.postcard_codec_axioms
      rps.pubsub_axioms rch.bounded_channel_axioms rtm.embassy_time_axioms)

section \<open>Properties\<close>


text \<open>
  An update of the settings, an overcurrent of 7 seconds, the sync of the counters ten seconds later, and an
  update that waits, because nobody has read the settings of the first one.
\<close>

definition flash_events :: "shared_event list" where
  "flash_events = [ShUpdate ref_raise, ShRecord (RecordLog 7), ShRecord (RecordTick 10000000)] @ replicate 5 (ShRecord RecordSync)"

definition ref_lower :: "settings \<Rightarrow> settings" where
  "ref_lower v = v\<lparr>iout_ma := Milliamps 250\<rparr>"

abbreviation ref_shared_exec where
  "ref_shared_exec \<equiv> shared_exec Release ref_tm ref_ss ref_nvs ref_parts"

type_synonym ref_shared = "(ref_flash, settings list \<times> nat \<times> nat, unit list, record_data list \<times> nat \<times> nat) shared"

abbreviation ref_shared_boot :: "instant \<Rightarrow> (ref_flash, unit, ref_shared) act" where
  "ref_shared_boot \<equiv> shared_boot Release ref_ss ref_nvs ref_parts"

lemma ref_fetch_stored:
  "stored_entry (\<lambda>rng f. f rng) Release ref_nvs ent f = Some v \<Longrightarrow> storage_fetch Release ref_ss ref_nvs ent f = (Ok (Some v), f)"
  by (auto simp: stored_entry_def part_range_def ref_nvs_def storage_fetch_def bindA_def map_errA_def liftR_def ret_def ref_ss_def
      key_serialized value_deserialize_from_def split: option.splits bind_splits simp del: key_serialize_into.simps)

lemma ref_boot_stored:
  assumes "stored_entry (\<lambda>rng f. f rng) Release ref_nvs (settings_entry ref_settings_pc) f = Some v"
    and "stored_entry (\<lambda>rng f. f rng) Release ref_nvs (record_entry ref_record_pc) f = Some d"
  shows "\<exists>s. ref_shared_boot t f = (Ok s, f)"
  by (simp add: shared_boot_def config_init_def record_init_def ref_parts_def bindA_def unwrapA_def readA_def ret_def
      ref_fetch_stored [OF assms(1)] ref_fetch_stored [OF assms(2)])

definition ref_shared_start :: ref_shared where
  "ref_shared_start = \<lparr>sh_flash = (\<lambda>_ _. None), sh_updating = False, sh_config = ref_system, sh_record = ref_world\<rparr>"

lemma ref_shared_boot_empty: "ref_shared_boot 5 (\<lambda>_ _. None) = (Ok ref_shared_start, \<lambda>_ _. None)"
proof -
  have "(config_init Release ref_ss ref_nvs ref_settings_pc ref_ps ::
      (ref_flash, unit, (ref_flash, settings list \<times> nat \<times> nat) config) act) (\<lambda>_ _. None) = (Ok ref_system, \<lambda>_ _. None)"
    by (simp add: ref_init ref_system_def)
  moreover have "(record_init Release ref_ss ref_nvs ref_record_pc (ref_ch NOTIFY_CAP) ref_ps ::
      (ref_flash, unit, (ref_flash, unit list, record_data list \<times> nat \<times> nat) record_sys) act) (\<lambda>_ _. None) =
    (Ok (rw_sys ref_world), \<lambda>_ _. None)"
    by (simp add: record_init_def storage_fetch_def part_range_def ref_nvs_def bindA_def map_errA_def
        liftR_def ret_def unwrapA_def readA_def ref_ss_def key_serialized record_entry_def ref_ps_def
        ref_ch_def ref_world_def record_start_def del: key_serialize_into.simps)
  ultimately show ?thesis
    by (simp add: shared_boot_def ref_parts_def bindA_def readA_def ret_def ref_shared_start_def)
      (simp add: ref_world_def record_start_def)
qed

text \<open>The state once the overcurrent was logged, and the events of the task after it.\<close>

definition ref_logged_on :: "ref_flash \<Rightarrow> (ref_flash, settings list \<times> nat \<times> nat) config \<Rightarrow> instant option \<Rightarrow> unit list \<Rightarrow>
    sync_pc \<Rightarrow> instant \<Rightarrow> nat \<Rightarrow> ref_shared" where
  "ref_logged_on g c at ch pc now n = \<lparr>sh_flash = g, sh_updating = False, sh_config = c, sh_record = \<lparr>rw_sys = \<lparr>rec_data = log_data 7 record_data_default,
     rec_sync_at = at, rec_flash = g, rec_sync_notifier = ch, rec_data_notifier = ([log_data 7 record_data_default], 0, 1)\<rparr>,
     rw_pc = pc, rw_now = now, rw_writes = n\<rparr>\<rparr>"

lemma ref_sync_steps:
  assumes "storage_store Release ref_ss ref_nvs (record_entry ref_record_pc) (log_data 7 record_data_default) g = (Ok (), g')"
  shows "forA ref_shared_exec (ShRecord (RecordTick 10000000) # replicate 5 (ShRecord RecordSync))
      (ref_logged_on g c (Some 10000005) [()] SyncReceive 5 0)
    = (Ok (), ref_logged_on g' c None [] SyncReceive 10000005 1)"
proof -
  note run = ref_logged_on_def lent_record_def zoom_def bindA_def ret_def modifyA_def readA_def ref_parts_def
  have "ref_shared_exec (ShRecord (RecordTick 10000000)) (ref_logged_on g c (Some 10000005) [()] SyncReceive 5 0)
      = (Ok (), ref_logged_on g c (Some 10000005) [()] SyncReceive 10000005 0)"
    by (simp add: run)
  moreover have "ref_shared_exec (ShRecord RecordSync) (ref_logged_on g c (Some 10000005) [()] SyncReceive 10000005 0)
      = (Ok (), ref_logged_on g c (Some 10000005) [] SyncRead 10000005 0)"
    by (simp add: run receive_from_def ref_ch_def)
  moreover have "ref_shared_exec (ShRecord RecordSync) (ref_logged_on g c (Some 10000005) [] SyncRead 10000005 0)
      = (Ok (), ref_logged_on g c (Some 10000005) [] (SyncSleep 10000005) 10000005 0)"
    by (simp add: run)
  moreover have "ref_shared_exec (ShRecord RecordSync) (ref_logged_on g c (Some 10000005) [] (SyncSleep 10000005) 10000005 0)
      = (Ok (), ref_logged_on g c (Some 10000005) [] SyncTake 10000005 0)"
    by (simp add: run)
  moreover have "ref_shared_exec (ShRecord RecordSync) (ref_logged_on g c (Some 10000005) [] SyncTake 10000005 0)
      = (Ok (), ref_logged_on g c None [] (SyncStore (log_data 7 record_data_default)) 10000005 0)"
    by (simp add: run)
  moreover have "ref_shared_exec (ShRecord RecordSync) (ref_logged_on g c None [] (SyncStore (log_data 7 record_data_default)) 10000005 0)
      = (Ok (), ref_logged_on g' c None [] SyncReceive 10000005 1)"
    by (simp add: run unwrapA_def assms)
  moreover have "replicate 5 x = [x, x, x, x, x]" for x :: shared_event by (simp add: numeral_eq_Suc)
  ultimately show ?thesis
    by (simp add: bindA_Ok del: shared_exec.simps One_nat_def)
qed

lemma ref_raise_run:
  "\<exists>c. (config_update Release ref_ss ref_nvs ref_settings_pc ref_ps ref_raise ::
      ((ref_flash, settings list \<times> nat \<times> nat) config, unit, unit) act) ref_system = (Ok (), c)
    \<and> cfg_settings c = ref_raise settings_default \<and> cfg_notifier c = ([ref_raise settings_default], 0, 1)"
proof -
  have "ref_raise (cfg_settings ref_system) \<noteq> cfg_settings ref_system"
    using ref_raise_changes by (simp add: ref_system_def)
  from config_update_changed [where 'e = unit and f = ref_raise, OF refl this ref_settings_store, of ref_ps]
  show ?thesis by (simp add: Let_def ref_ps_def ref_system_def)
qed

lemma ref_lower_waits:
  fixes s :: ref_shared
  assumes "\<not> sh_updating s" "cfg_settings (sh_config s) = ref_raise settings_default"
    and "cfg_notifier (sh_config s) = ([ref_raise settings_default], 0, 1)"
    and "stored_entry (\<lambda>rng f. f rng) Release ref_nvs (record_entry ref_record_pc) (sh_flash s) = Some d"
  shows "\<exists>s'. ref_shared_exec (ShUpdate ref_lower) s = (Ok (), s') \<and> sh_updating s' \<and> sh_record s' = sh_record s
    \<and> stored_entry (\<lambda>rng f. f rng) Release ref_nvs (settings_entry ref_settings_pc) (sh_flash s') = Some (ref_lower (ref_raise settings_default))
    \<and> stored_entry (\<lambda>rng f. f rng) Release ref_nvs (record_entry ref_record_pc) (sh_flash s') = Some d"
proof -
  let ?new = "ref_lower (ref_raise settings_default)"
  have new: "ref_lower (cfg_settings (lent_config s)) = ?new" "?new \<noteq> cfg_settings (lent_config s)"
    using assms(2) by (simp_all add: lent_config_def ref_lower_def ref_raise_def settings_default_def)
  obtain g where store: "storage_store Release ref_ss ref_nvs (settings_entry ref_settings_pc) ?new (cfg_flash (lent_config s)) = (Ok (), g)"
    using ref_settings_store by blast
  have notifier: "cfg_notifier (lent_config s) = ([ref_raise settings_default], 0, 1)" using assms(3) by (simp add: lent_config_def)
  from config_update_changed [where 'e = unit and f = ref_lower, OF new store, of ref_ps]
  have "(config_update Release ref_ss ref_nvs ref_settings_pc ref_ps ref_lower ::
      ((ref_flash, settings list \<times> nat \<times> nat) config, unit, unit) act) (lent_config s)
    = (Pending, (lent_config s)\<lparr>cfg_settings := ?new, cfg_flash := g, cfg_notifier := ([ref_raise settings_default], 1, 1)\<rparr>)"
    by (simp add: notifier Let_def ref_ps_def)
  then have "ref_shared_exec (ShUpdate ref_lower) s = (Ok (), s\<lparr>sh_config := (lent_config s)\<lparr>cfg_settings := ?new, cfg_flash := g,
      cfg_notifier := ([ref_raise settings_default], 1, 1)\<rparr>, sh_flash := g, sh_updating := True\<rparr>)"
    using assms(1) by (simp add: zoom_def ref_parts_def)
  moreover have "seq_storage_entry ref_ss (\<lambda>rng f. f rng) (settings_entry ref_settings_pc)"
    using ref_shared.settings_entry by (simp add: ref_parts_def)
  from kv_entry.store_stored [OF seq_storage_entry.contract [OF this] store] seq_storage_entry.store_other [OF this store entries_differ [symmetric]]
  have "stored_entry (\<lambda>rng f. f rng) Release ref_nvs (settings_entry ref_settings_pc) g = Some ?new"
    "stored_entry (\<lambda>rng f. f rng) Release ref_nvs (record_entry ref_record_pc) g = Some d"
    using assms(4) by (simp_all add: lent_config_def)
  ultimately show ?thesis by simp
qed

lemma ref_shared_run:
  "\<exists>s1. forA ref_shared_exec flash_events ref_shared_start = (Ok (), s1)
    \<and> rec_sync_at (rw_sys (sh_record s1)) = None \<and> rw_pc (sh_record s1) = SyncReceive
    \<and> rec_data (rw_sys (sh_record s1)) = log_data 7 record_data_default
    \<and> \<not> sh_updating s1 \<and> cfg_settings (sh_config s1) = ref_raise settings_default
    \<and> cfg_notifier (sh_config s1) = ([ref_raise settings_default], 0, 1)
    \<and> (\<exists>v d. stored_entry (\<lambda>rng f. f rng) Release ref_nvs (settings_entry ref_settings_pc) (sh_flash s1) = Some v
        \<and> stored_entry (\<lambda>rng f. f rng) Release ref_nvs (record_entry ref_record_pc) (sh_flash s1) = Some d)"
proof -
  have new: "ref_raise (cfg_settings ref_system) \<noteq> cfg_settings ref_system"
    using ref_raise_changes by (simp add: ref_system_def)
  from ref_raise_run obtain c where
    c: "(config_update Release ref_ss ref_nvs ref_settings_pc ref_ps ref_raise ::
      ((ref_flash, settings list \<times> nat \<times> nat) config, unit, unit) act) ref_system = (Ok (), c)"
    and kept: "cfg_settings c = ref_raise settings_default" "cfg_notifier c = ([ref_raise settings_default], 0, 1)" by blast
  from ref_config.update_Ok(2) [OF c new] have
    saved: "stored_entry (\<lambda>rng f. f rng) Release ref_nvs (settings_entry ref_settings_pc) (cfg_flash c) = Some (ref_raise (cfg_settings ref_system))" .
  from ref_record_store obtain g' where
    store: "storage_store Release ref_ss ref_nvs (record_entry ref_record_pc) (log_data 7 record_data_default) (cfg_flash c) = (Ok (), g')" by blast
  have "seq_storage_entry ref_ss (\<lambda>rng f. f rng) (record_entry ref_record_pc)"
    using ref_shared.record_entry by (simp add: ref_parts_def)
  from seq_storage_entry.store_other [OF this store entries_differ] kv_entry.store_stored [OF seq_storage_entry.contract [OF this] store]
  have entries: "stored_entry (\<lambda>rng f. f rng) Release ref_nvs (settings_entry ref_settings_pc) g' = Some (ref_raise (cfg_settings ref_system))"
    "stored_entry (\<lambda>rng f. f rng) Release ref_nvs (record_entry ref_record_pc) g' = Some (log_data 7 record_data_default)"
    using saved by simp_all
  have update: "ref_shared_exec (ShUpdate ref_raise) ref_shared_start = (Ok (), ref_shared_start\<lparr>sh_config := c, sh_flash := cfg_flash c\<rparr>)"
    using c by (simp add: ref_shared_start_def zoom_def lent_config_def ref_parts_def ref_system_def)
  have "\<not> log_overflows Release 7 record_data_default" by (simp add: log_overflows_def)
  then have log: "ref_shared_exec (ShRecord (RecordLog 7)) (ref_shared_start\<lparr>sh_config := c, sh_flash := cfg_flash c\<rparr>)
      = (Ok (), ref_logged_on (cfg_flash c) c (Some 10000005) [()] SyncReceive 5 0)"
    by (simp add: zoom_def lent_record_def ref_shared_start_def ref_world_def record_start_def ref_parts_def log_run schedule_run Let_def
        ref_logged_on_def ref_tm_def ref_ch_def ref_ps_def NOTIFY_CAP_def SYNC_PERIOD_SECS_def)
  have events: "flash_events = ShUpdate ref_raise # ShRecord (RecordLog 7) # ShRecord (RecordTick 10000000) # replicate 5 (ShRecord RecordSync)"
    by (simp add: flash_events_def)
  have "forA ref_shared_exec flash_events ref_shared_start = (Ok (), ref_logged_on g' c None [] SyncReceive 10000005 1)"
    unfolding events forA.simps(2) [of _ "ShUpdate ref_raise"] bindA_Ok [of "ref_shared_exec (ShUpdate ref_raise)", OF update]
      forA.simps(2) [of _ "ShRecord (RecordLog 7)"] bindA_Ok [of "ref_shared_exec (ShRecord (RecordLog 7))", OF log]
    by (rule ref_sync_steps [OF store])
  with entries kept show ?thesis by (simp add: ref_logged_on_def)
qed


end
