(* ===== verification/Locks.thy ===== *)
theory Locks
  imports Prelude
begin

text \<open>
  The mutexes of the firmware and the order in which its operations take them.  The theories of the systems
  have each operation as one step on the state behind its mutex; here the same operations are the sequences
  of what they lock, release and await, run by tasks that interleave at each of them.
\<close>

section \<open>Operations\<close>

text \<open>
  The mutex of each system (\<open>Watchdog\<close>, \<open>PowerExt\<close>, \<open>Usbpd\<close>, \<open>Record\<close>, \<open>Config\<close>, \<open>Storage\<close>, \<open>Stats\<close>) and that of the
  bus of both chips, which \<open>I2cDevice\<close> holds for one transaction.  \<open>Await\<close> is an \<open>await\<close> of something other than a
  mutex: the hardware, the time, a channel.
\<close>

datatype mutex = MWatchdog | MPower | MUsb | MRecord | MConfig | MStorage | MStats | MBus

datatype lock_op = Lock mutex | Unlock mutex | Await

definition locked :: "mutex \<Rightarrow> lock_op list \<Rightarrow> lock_op list" where
  "locked m ops = Lock m # ops @ [Unlock m]"

definition bus_transactions :: "nat \<Rightarrow> lock_op list" where
  "bus_transactions n = concat (replicate n (locked MBus [Await]))"

text \<open>\<open>WatchdogTicket::feed\<close> and \<open>Watchdog::ticket\<close>; \<open>Storage::store\<close> and \<open>Storage::fetch\<close>, whose flash is blocking.\<close>

definition feed_locks :: "lock_op list" where
  "feed_locks = locked MWatchdog []"

definition storage_locks :: "lock_op list" where
  "storage_locks = locked MStorage []"

text \<open>\<open>Config::update\<close>, with the publication of settings that changed; \<open>fetch\<close>, \<open>publish_immediate\<close>, the push task.\<close>

definition update_locks :: "bool \<Rightarrow> lock_op list" where
  "update_locks changed = locked MConfig (if changed then storage_locks @ [Await] else [])"

definition config_locks :: "lock_op list" where
  "config_locks = locked MConfig []"

text \<open>\<open>Record::log_overcurrent\<close>, with the notification of a sync that was not due; \<open>publish_immediate\<close>; \<open>sync_task\<close>.\<close>

definition log_locks :: "bool \<Rightarrow> lock_op list" where
  "log_locks notify = locked MRecord (if notify then [Await] else [])"

definition record_locks :: "lock_op list" where
  "record_locks = locked MRecord []"

definition sync_locks :: "lock_op list" where
  "sync_locks = Await # locked MRecord [] @ Await # locked MRecord [] @ storage_locks"

text \<open>\<open>Usbpd::set_pin\<close>; the start and a turn of \<open>state_task\<close>.\<close>

definition set_pin_locks :: "lock_op list" where
  "set_pin_locks = locked MUsb (bus_transactions 1)"

definition usb_start_locks :: "lock_op list" where
  "usb_start_locks = locked MUsb (bus_transactions 1)"

definition usb_turn_locks :: "lock_op list" where
  "usb_turn_locks = locked MUsb (bus_transactions 2) @ [Await]"

text \<open>
  \<open>PowerExt::persist\<close> writes a register and modifies another, \<open>init\<close> modifies two before that; a turn of
  \<open>config_task\<close>; \<open>state\<close>; and a turn of \<open>monitor_task\<close> in each of its branches.
\<close>

definition persist_locks :: "lock_op list" where
  "persist_locks = locked MPower (bus_transactions 3)"

definition power_init_locks :: "lock_op list" where
  "power_init_locks = Await # bus_transactions 4 @ feed_locks @ config_locks @ persist_locks"

definition config_task_locks :: "lock_op list" where
  "config_task_locks = Await # persist_locks"

definition power_state_locks :: "lock_op list" where
  "power_state_locks = locked MPower []"

datatype monitor_branch = MonFault | MonActivate | MonLog bool | MonNothing

definition monitor_locks :: "monitor_branch \<Rightarrow> lock_op list" where
  "monitor_locks branch = locked MPower (bus_transactions 1 @ feed_locks @
     (case branch of
        MonFault \<Rightarrow> bus_transactions 2 @ set_pin_locks
      | MonActivate \<Rightarrow> bus_transactions 2 @ set_pin_locks
      | MonLog notify \<Rightarrow> log_locks notify
      | MonNothing \<Rightarrow> [])) @ [Await]"

text \<open>A turn of the task of \<open>Stats\<close>, and \<open>latest_data\<close>.\<close>

definition stats_turn_locks :: "lock_op list" where
  "stats_turn_locks = Await # power_state_locks @ locked MStats [] @ [Await]"

definition latest_data_locks :: "lock_op list" where
  "latest_data_locks = locked MStats []"

text \<open>
  A turn of the connected client, which sends a message in one to five attempts, receives new settings, or
  receives what it does not act on; and of the task of \<open>Events\<close> that answers a connection; the publishing task,
  the loop of the application.
\<close>

datatype client_branch = ClientSends nat | ClientUpdates bool | ClientIgnores

definition client_turn_locks :: "client_branch \<Rightarrow> lock_op list" where
  "client_turn_locks branch = feed_locks @ Await #
     (case branch of
        ClientSends attempts \<Rightarrow> replicate attempts Await
      | ClientUpdates changed \<Rightarrow> update_locks changed
      | ClientIgnores \<Rightarrow> [])"

definition events_net_locks :: "lock_op list" where
  "events_net_locks = Await # record_locks @ config_locks"

definition events_publish_locks :: "lock_op list" where
  "events_publish_locks = [Await, Await]"

definition app_turn_locks :: "lock_op list" where
  "app_turn_locks = feed_locks @ [Await]"

definition system_calls :: "lock_op list list" where
  "system_calls = [feed_locks, storage_locks, update_locks True, update_locks False, config_locks, log_locks True, log_locks False,
     record_locks, sync_locks, set_pin_locks, usb_start_locks, usb_turn_locks, persist_locks, power_init_locks, config_task_locks,
     power_state_locks, monitor_locks MonFault, monitor_locks MonActivate, monitor_locks (MonLog True), monitor_locks (MonLog False),
     monitor_locks MonNothing, stats_turn_locks, latest_data_locks, client_turn_locks (ClientUpdates True),
     client_turn_locks (ClientUpdates False), client_turn_locks ClientIgnores, events_net_locks, events_publish_locks, app_turn_locks]
     @ map (\<lambda>attempts. client_turn_locks (ClientSends attempts)) [1..<6]"

section \<open>Tasks\<close>

text \<open>
  What each task has left to do, and who holds which mutex.  A task that wants a mutex waits until it is
  free; what is awaited otherwise comes about at some time.
\<close>

record lock_state =
  lk_tasks :: "lock_op list list"
  lk_owner :: "mutex \<rightharpoonup> nat"

definition lock_start :: "lock_op list list list \<Rightarrow> lock_state" where
  "lock_start callss = \<lparr>lk_tasks = map concat callss, lk_owner = Map.empty\<rparr>"

definition lock_step :: "nat \<Rightarrow> lock_state \<Rightarrow> lock_state option" where
  "lock_step i s =
     (if i < length (lk_tasks s)
      then (case lk_tasks s ! i of
          [] \<Rightarrow> None
        | Await # ops \<Rightarrow> Some (s\<lparr>lk_tasks := (lk_tasks s)[i := ops]\<rparr>)
        | Lock m # ops \<Rightarrow>
            (if lk_owner s m = None then Some (s\<lparr>lk_tasks := (lk_tasks s)[i := ops], lk_owner := (lk_owner s)(m \<mapsto> i)\<rparr>) else None)
        | Unlock m # ops \<Rightarrow> Some (s\<lparr>lk_tasks := (lk_tasks s)[i := ops], lk_owner := (lk_owner s)(m := None)\<rparr>))
      else None)"

fun lock_runs :: "nat list \<Rightarrow> lock_state \<Rightarrow> lock_state option" where
  "lock_runs [] s = Some s"
| "lock_runs (i # is) s = (case lock_step i s of None \<Rightarrow> None | Some s' \<Rightarrow> lock_runs is s')"

definition steps_left :: "lock_state \<Rightarrow> nat" where
  "steps_left s = sum_list (map length (lk_tasks s))"

section \<open>An order of the mutexes\<close>

text \<open>
  Operations that keep an order: a mutex is taken only while all that are held are of lower rank, and the one
  that was taken last is released first.  The first argument is what is held, the last one first.
\<close>

fun ordered :: "(mutex \<Rightarrow> nat) \<Rightarrow> mutex list \<Rightarrow> lock_op list \<Rightarrow> bool" where
  "ordered rank held [] \<longleftrightarrow> held = []"
| "ordered rank held (Lock m # ops) \<longleftrightarrow> (\<forall>k \<in> set held. rank k < rank m) \<and> ordered rank (m # held) ops"
| "ordered rank held (Unlock m # ops) \<longleftrightarrow> (case held of [] \<Rightarrow> False | k # rest \<Rightarrow> k = m \<and> ordered rank rest ops)"
| "ordered rank held (Await # ops) \<longleftrightarrow> ordered rank held ops"

lemma ordered_append: "ordered rank held xs \<Longrightarrow> ordered rank [] ys \<Longrightarrow> ordered rank held (xs @ ys)"
  by (induction rank held xs rule: ordered.induct) (auto split: list.splits)

lemma ordered_concat: "\<forall>c \<in> set cs. ordered rank [] c \<Longrightarrow> ordered rank [] (concat cs)"
  by (induction cs) (simp_all add: ordered_append)

lemma ordered_distinct: "ordered rank held ops \<Longrightarrow> distinct held \<Longrightarrow> m \<in> set held \<Longrightarrow> Unlock m \<in> set ops"
proof (induction rank held ops rule: ordered.induct)
  case (3 rank held k ops)
  then show ?case by (cases held) auto
qed auto

locale lock_discipline =
  fixes rank :: "mutex \<Rightarrow> nat" and calls :: "lock_op list list"
  assumes call_ordered: "c \<in> set calls \<Longrightarrow> ordered rank [] c"
begin

definition held_by :: "(nat \<Rightarrow> mutex list) \<Rightarrow> lock_state \<Rightarrow> bool" where
  "held_by held s \<longleftrightarrow>
     (\<forall>i < length (lk_tasks s). ordered rank (held i) (lk_tasks s ! i) \<and> distinct (held i))
     \<and> (\<forall>m i. lk_owner s m = Some i \<longleftrightarrow> i < length (lk_tasks s) \<and> m \<in> set (held i))"

lemma start_held:
  assumes "\<forall>cs \<in> set callss. set cs \<subseteq> set calls"
  shows "held_by (\<lambda>_. []) (lock_start callss)"
proof -
  have "ordered rank [] (concat cs)" if "cs \<in> set callss" for cs
    using assms call_ordered that by (blast intro: ordered_concat)
  then show ?thesis by (auto simp: held_by_def lock_start_def)
qed

lemma step_held:
  assumes "lock_step i s = Some s'" "held_by held s"
  shows "\<exists>held'. held_by held' s'"
proof -
  have i: "i < length (lk_tasks s)" using assms(1) by (simp add: lock_step_def split: if_splits)
  with assms(2) have own: "ordered rank (held i) (lk_tasks s ! i)" "distinct (held i)"
    and owner: "\<And>m j. lk_owner s m = Some j \<longleftrightarrow> j < length (lk_tasks s) \<and> m \<in> set (held j)"
    and others: "\<And>j. j < length (lk_tasks s) \<Longrightarrow> ordered rank (held j) (lk_tasks s ! j) \<and> distinct (held j)"
    by (simp_all add: held_by_def)
  obtain op ops where ops: "lk_tasks s ! i = op # ops"
    using assms(1) i by (cases "lk_tasks s ! i") (simp_all add: lock_step_def)
  show ?thesis
  proof (cases op)
    case Await
    with assms(1) i ops have "s' = s\<lparr>lk_tasks := (lk_tasks s)[i := ops]\<rparr>" by (simp add: lock_step_def)
    with own ops Await owner others i have "held_by held s'" by (auto simp: held_by_def nth_list_update)
    then show ?thesis by blast
  next
    case (Lock m)
    with assms(1) i ops have free: "lk_owner s m = None"
      and s': "s' = s\<lparr>lk_tasks := (lk_tasks s)[i := ops], lk_owner := (lk_owner s)(m \<mapsto> i)\<rparr>"
      by (auto simp: lock_step_def split: if_splits)
    have new: "m \<notin> set (held j)" if "j < length (lk_tasks s)" for j using owner [of m j] free that by simp
    have "held_by (held(i := m # held i)) s'"
      using own ops Lock owner others i new by (auto simp: held_by_def s' nth_list_update)
    then show ?thesis by blast
  next
    case (Unlock m)
    with assms(1) i ops have s': "s' = s\<lparr>lk_tasks := (lk_tasks s)[i := ops], lk_owner := (lk_owner s)(m := None)\<rparr>"
      by (simp add: lock_step_def)
    from own(1) ops Unlock obtain rest where rest: "held i = m # rest" "ordered rank rest ops"
      by (auto split: list.splits)
    have alone: "m \<notin> set (held j)" if "j < length (lk_tasks s)" "j \<noteq> i" for j
      using owner [of m j] owner [of m i] i that rest(1) by auto
    have "held_by (held(i := rest)) s'"
      using own ops Unlock owner others i rest alone by (auto simp: held_by_def s' nth_list_update)
    then show ?thesis by blast
  qed
qed

lemma runs_held: "lock_runs is s = Some s' \<Longrightarrow> held_by held s \<Longrightarrow> \<exists>held'. held_by held' s'"
proof (induction "is" arbitrary: s held)
  case (Cons i "is")
  from Cons.prems(1) obtain s1 where s1: "lock_step i s = Some s1" "lock_runs is s1 = Some s'" by (auto split: option.splits)
  from step_held [OF s1(1) Cons.prems(2)] Cons.IH [OF s1(2)] show ?case by blast
qed auto

lemma not_waiting:
  "i < length (lk_tasks s) \<Longrightarrow> lk_tasks s ! i = op # ops \<Longrightarrow> \<forall>m. op \<noteq> Lock m \<Longrightarrow> lock_step i s \<noteq> None"
  by (cases op) (simp_all add: lock_step_def)

text \<open>Whoever waits for a mutex waits for a task that wants none, or one of higher rank.\<close>

lemma waiting_ends:
  assumes "held_by held s" "i < length (lk_tasks s)" "lk_tasks s ! i = Lock m # ops" "\<forall>k. rank k < n" "n \<le> d + rank m"
  shows "\<exists>j. lock_step j s \<noteq> None"
  using assms(2,3,5)
proof (induction d arbitrary: i m ops)
  case 0
  with assms(4) show ?case by (metis add_0 not_le)
next
  case (Suc d)
  show ?case
  proof (cases "lk_owner s m")
    case None
    with Suc.prems have "lock_step i s \<noteq> None" by (simp add: lock_step_def)
    then show ?thesis ..
  next
    case (Some j)
    with assms(1) have j: "j < length (lk_tasks s)" "m \<in> set (held j)" "ordered rank (held j) (lk_tasks s ! j)"
      by (auto simp: held_by_def)
    then obtain op rest where rest: "lk_tasks s ! j = op # rest" by (cases "lk_tasks s ! j") auto
    show ?thesis
    proof (cases op)
      case (Lock k)
      with j rest have "rank m < rank k" by auto
      with Suc.prems(3) have "n \<le> d + rank k" by simp
      with Suc.IH [OF j(1)] rest Lock show ?thesis by blast
    qed (use not_waiting [OF j(1) rest] in auto)
  qed
qed

lemma some_task_steps:
  assumes "held_by held s" "i < length (lk_tasks s)" "lk_tasks s ! i \<noteq> []"
  shows "\<exists>j. lock_step j s \<noteq> None"
proof -
  obtain op ops where ops: "lk_tasks s ! i = op # ops" using assms(3) by (cases "lk_tasks s ! i") auto
  obtain n where n: "\<forall>k. rank k < n"
  proof
    show "\<forall>k. rank k < Suc (sum_list (map rank [MWatchdog, MPower, MUsb, MRecord, MConfig, MStorage, MStats, MBus]))"
    proof
      fix k
      show "rank k < Suc (sum_list (map rank [MWatchdog, MPower, MUsb, MRecord, MConfig, MStorage, MStats, MBus]))"
        by (cases k) simp_all
    qed
  qed
  show ?thesis
  proof (cases op)
    case (Lock m)
    with waiting_ends [OF assms(1,2) _ n, of m ops n] ops show ?thesis by simp
  qed (use not_waiting [OF assms(2) ops] in auto)
qed

end

lemma step_left:
  assumes "lock_step i s = Some s'"
  shows "steps_left s = Suc (steps_left s')"
proof -
  have i: "i < length (lk_tasks s)" using assms by (simp add: lock_step_def split: if_splits)
  obtain op ops where ops: "lk_tasks s ! i = op # ops"
    using assms i by (cases "lk_tasks s ! i") (simp_all add: lock_step_def)
  have "lk_tasks s' = (lk_tasks s)[i := ops]"
    using assms i ops by (auto simp: lock_step_def split: lock_op.splits if_splits)
  moreover have "length (op # ops) \<le> sum_list (map length (lk_tasks s))"
    using i ops by (metis elem_le_sum_list length_map nth_map)
  ultimately show ?thesis
    using i ops by (simp add: steps_left_def map_update sum_list_update)
qed

lemma runs_left: "lock_runs is s = Some s' \<Longrightarrow> steps_left s = length is + steps_left s'"
proof (induction "is" arbitrary: s)
  case (Cons i "is")
  from Cons.prems obtain s1 where s1: "lock_step i s = Some s1" "lock_runs is s1 = Some s'" by (auto split: option.splits)
  from step_left [OF s1(1)] Cons.IH [OF s1(2)] show ?case by simp
qed simp

section \<open>The order of this program\<close>

fun lock_rank :: "mutex \<Rightarrow> nat" where
  "lock_rank MPower = 0"
| "lock_rank MConfig = 0"
| "lock_rank MStats = 0"
| "lock_rank MUsb = 1"
| "lock_rank MWatchdog = 1"
| "lock_rank MRecord = 1"
| "lock_rank MStorage = 1"
| "lock_rank MBus = 2"

lemmas lock_scripts =
  feed_locks_def storage_locks_def update_locks_def config_locks_def log_locks_def record_locks_def sync_locks_def set_pin_locks_def
  usb_start_locks_def usb_turn_locks_def persist_locks_def power_init_locks_def config_task_locks_def power_state_locks_def
  monitor_locks_def stats_turn_locks_def latest_data_locks_def client_turn_locks_def events_net_locks_def events_publish_locks_def
  app_turn_locks_def locked_def bus_transactions_def

interpretation sys: lock_discipline lock_rank system_calls
proof
  fix c
  assume "c \<in> set system_calls"
  then show "ordered lock_rank [] c"
    by (auto simp: system_calls_def lock_scripts numeral_eq_Suc)
qed

section \<open>Properties\<close>

text \<open>C8: The mutexes of the firmware cannot lock it up.  Any number of tasks, each with any sequence of
  the operations of the systems, interleaved in any way: as long as some task has something left to do, some
  task can go on, every mutex that is held is one that its holder is going to release, and when all are done
  every mutex is free; and they are done after as many steps as there are, whatever the order.  What is
  awaited besides the mutexes is taken to come about: that the publication within an update may not is
  another matter.\<close>

theorem mutexes_never_lock_up:
  assumes "\<forall>cs \<in> set callss. set cs \<subseteq> set system_calls" "lock_runs is (lock_start callss) = Some s"
  shows "((\<exists>j. lock_step j s \<noteq> None) \<or> (\<forall>ops \<in> set (lk_tasks s). ops = []) \<and> lk_owner s = Map.empty)
    \<and> (\<forall>m i. lk_owner s m = Some i \<longrightarrow> Unlock m \<in> set (lk_tasks s ! i))
    \<and> length is + steps_left s = sum_list (map (length \<circ> concat) callss)"
proof -
  from sys.runs_held [OF assms(2) sys.start_held [OF assms(1)]] obtain held where held: "sys.held_by held s" ..
  have release: "Unlock m \<in> set (lk_tasks s ! i)" if "lk_owner s m = Some i" for m i
    using held that ordered_distinct [of lock_rank "held i" "lk_tasks s ! i" m] by (auto simp: sys.held_by_def)
  have "(\<exists>j. lock_step j s \<noteq> None) \<or> (\<forall>ops \<in> set (lk_tasks s). ops = []) \<and> lk_owner s = Map.empty"
  proof (cases "\<forall>ops \<in> set (lk_tasks s). ops = []")
    case True
    have "lk_owner s m = None" for m
    proof (cases "lk_owner s m")
      case (Some i)
      with held have "i < length (lk_tasks s)" by (auto simp: sys.held_by_def)
      with release [OF Some] True nth_mem [of i "lk_tasks s"] show ?thesis by fastforce
    qed
    with True show ?thesis by auto
  next
    case False
    then obtain i where "i < length (lk_tasks s)" "lk_tasks s ! i \<noteq> []" by (metis in_set_conv_nth)
    from sys.some_task_steps [OF held this] show ?thesis ..
  qed
  moreover have "length is + steps_left s = sum_list (map (length \<circ> concat) callss)"
    using runs_left [OF assms(2)] by (simp add: steps_left_def lock_start_def comp_def)
  ultimately show ?thesis using release by blast
qed

text \<open>
  The monitor takes its mutex and that of the bus; the task with new settings waits for the first of them, and
  an update holds those of the settings and of the storage.
\<close>

definition held_up :: "lock_op list list list" where
  "held_up = [[monitor_locks (MonLog True)], [config_task_locks], [update_locks True]]"

theorem mutexes_never_lock_up_witness:
  "\<exists>s. lock_runs [0, 0, 1, 2, 2] (lock_start held_up) = Some s
    \<and> lk_owner s MPower = Some 0 \<and> lk_owner s MStorage = Some 2 \<and> lock_step 1 s = None \<and> (\<exists>j. lock_step j s \<noteq> None)"
proof -
  have "set (concat held_up) \<subseteq> set system_calls" by (simp add: held_up_def system_calls_def)
  then have calls: "\<forall>cs \<in> set held_up. set cs \<subseteq> set system_calls" by auto
  have tasks: "lock_start held_up = \<lparr>lk_tasks = [monitor_locks (MonLog True), config_task_locks, update_locks True], lk_owner = Map.empty\<rparr>"
    by (simp add: lock_start_def held_up_def)
  obtain s where run: "lock_runs [0, 0, 1, 2, 2] (lock_start held_up) = Some s"
    and s: "lk_owner s MPower = Some 0" "lk_owner s MStorage = Some 2" "lock_step 1 s = None" "lk_owner s MBus = Some 0"
    unfolding tasks by (simp add: lock_step_def lock_scripts)
  from mutexes_never_lock_up [OF calls run] s run show ?thesis by auto
qed

end
