(* ===== verification/Boot.thy ===== *)
theory Boot
  imports Executors
begin

text \<open>
  What a start needs once only: the static cells and the tasks that each \<open>init\<close> of \<open>systems/\<close> takes, the
  subscriptions that each task opens with, \<open>main\<close> of \<open>main.rs\<close> and the board of \<open>bsp/rev1.rs\<close>.  A cell that
  is initialised twice, a task that runs already and a channel without room for a subscriber panic.
\<close>

section \<open>Cells, tasks and channels\<close>

datatype static_cell =
    ClocksCell | I2cBusCell | ExecutorCell | WatchdogCell | UsbpdCell | StorageCell | ConfigCell | RecordCell
  | PowerExtCell | StatsCell | NetResourcesCell | NetStackCell | NetCell

datatype task =
    AppTask | UsbpdStateTask | ConfigPushTask | RecordSyncTask | RecordPushTask | PowerMonitorTask
  | PowerConfigTask | StatsTask | NetConnectionTask | NetStackTask | NetMainTask | EventsNetTask | EventsPublishTask

datatype executor = ThreadExecutor | HighPrioExecutor

datatype subscribed = SettingsChannel | RecordChannel | StatsChannel | NetEventsChannel

text \<open>
  \<open>StaticCell::init\<close>, \<open>Spawner::spawn\<close> and \<open>PubSubChannel::subscriber\<close>, each \<open>None\<close> where it panics or where
  its error is unwrapped, and the drop of a subscriber.  A task of the executor macro can run once at a time.
\<close>

record 's boot_ops =
  static_init :: "static_cell \<Rightarrow> 's \<Rightarrow> 's option"
  spawn_on :: "executor \<Rightarrow> task \<Rightarrow> 's \<Rightarrow> 's option"
  new_subscriber :: "subscribed \<Rightarrow> 's \<Rightarrow> 's option"
  drop_subscriber :: "subscribed \<Rightarrow> 's \<Rightarrow> 's"

locale boot_crates =
  fixes b :: "'s boot_ops" and cells :: "'s \<Rightarrow> static_cell set" and placed :: "'s \<Rightarrow> task \<rightharpoonup> executor"
    and subs :: "'s \<Rightarrow> subscribed \<Rightarrow> nat"
  assumes init_fresh: "c \<notin> cells s \<Longrightarrow> \<exists>s'. static_init b c s = Some s' \<and> cells s' = insert c (cells s)
      \<and> placed s' = placed s \<and> subs s' = subs s"
    and init_twice: "c \<in> cells s \<Longrightarrow> static_init b c s = None"
    and spawn_free: "placed s t = None \<Longrightarrow> \<exists>s'. spawn_on b e t s = Some s' \<and> placed s' = (placed s)(t \<mapsto> e)
      \<and> cells s' = cells s \<and> subs s' = subs s"
    and spawn_running: "placed s t \<noteq> None \<Longrightarrow> spawn_on b e t s = None"
    and subscriber_room: "subs s ch < DATA_SUBS \<Longrightarrow> \<exists>s'. new_subscriber b ch s = Some s'
      \<and> subs s' = (subs s)(ch := Suc (subs s ch)) \<and> cells s' = cells s \<and> placed s' = placed s"
    and subscriber_full: "DATA_SUBS \<le> subs s ch \<Longrightarrow> new_subscriber b ch s = None"
    and subscriber_drop: "0 < subs s ch \<Longrightarrow> subs (drop_subscriber b ch s) = (subs s)(ch := subs s ch - 1)
      \<and> cells (drop_subscriber b ch s) = cells s \<and> placed (drop_subscriber b ch s) = placed s"

definition or_panic :: "('s \<Rightarrow> 's option) \<Rightarrow> ('s, 'e, unit) act" where
  "or_panic f s = (case f s of None \<Rightarrow> (Panic, s) | Some s' \<Rightarrow> (Ok (), s'))"

definition cell_init :: "'s boot_ops \<Rightarrow> static_cell \<Rightarrow> ('s, 'e, unit) act" where
  "cell_init b c = or_panic (static_init b c)"

definition must_spawn :: "'s boot_ops \<Rightarrow> executor \<Rightarrow> task \<Rightarrow> ('s, 'e, unit) act" where
  "must_spawn b e t = or_panic (spawn_on b e t)"

section \<open>What each init takes\<close>

definition watchdog_boot :: "'s boot_ops \<Rightarrow> ('s, 'e, unit) act" where
  "watchdog_boot b = cell_init b WatchdogCell"

definition usbpd_boot_task :: "'s boot_ops \<Rightarrow> executor \<Rightarrow> ('s, 'e, unit) act" where
  "usbpd_boot_task b spawner = seqA (cell_init b UsbpdCell) (must_spawn b spawner UsbpdStateTask)"

definition storage_boot :: "'s boot_ops \<Rightarrow> ('s, 'e, unit) act" where
  "storage_boot b = cell_init b StorageCell"

definition config_boot :: "'s boot_ops \<Rightarrow> executor \<Rightarrow> ('s, 'e, unit) act" where
  "config_boot b spawner = seqA (cell_init b ConfigCell) (must_spawn b spawner ConfigPushTask)"

definition record_boot :: "'s boot_ops \<Rightarrow> executor \<Rightarrow> ('s, 'e, unit) act" where
  "record_boot b spawner =
     seqA (cell_init b RecordCell) (
     seqA (must_spawn b spawner RecordSyncTask) (must_spawn b spawner RecordPushTask))"

definition power_boot :: "'s boot_ops \<Rightarrow> executor \<Rightarrow> ('s, 'e, unit) act" where
  "power_boot b spawner =
     seqA (cell_init b PowerExtCell) (
     seqA (must_spawn b spawner PowerMonitorTask) (must_spawn b spawner PowerConfigTask))"

definition stats_boot :: "'s boot_ops \<Rightarrow> executor \<Rightarrow> ('s, 'e, unit) act" where
  "stats_boot b spawner = seqA (cell_init b StatsCell) (must_spawn b spawner StatsTask)"

definition net_boot :: "'s boot_ops \<Rightarrow> executor \<Rightarrow> ('s, 'e, unit) act" where
  "net_boot b spawner =
     seqA (cell_init b NetResourcesCell) (
     seqA (cell_init b NetStackCell) (
     seqA (cell_init b NetCell) (
     seqA (must_spawn b spawner NetConnectionTask) (
     seqA (must_spawn b spawner NetStackTask) (must_spawn b spawner NetMainTask)))))"

definition events_init :: "'s boot_ops \<Rightarrow> executor \<Rightarrow> ('s, 'e, unit) act" where
  "events_init b spawner = seqA (must_spawn b spawner EventsNetTask) (must_spawn b spawner EventsPublishTask)"

section \<open>Subscribers\<close>

definition config_subscriber :: "'s boot_ops \<Rightarrow> ('s, 'e, unit) act" where
  "config_subscriber b = or_panic (new_subscriber b SettingsChannel)"

definition record_subscriber :: "'s boot_ops \<Rightarrow> ('s, 'e, unit) act" where
  "record_subscriber b = or_panic (new_subscriber b RecordChannel)"

definition stats_subscriber :: "'s boot_ops \<Rightarrow> ('s, 'e, unit) act" where
  "stats_subscriber b = or_panic (new_subscriber b StatsChannel)"

definition event_subscriber :: "'s boot_ops \<Rightarrow> ('s, 'e, unit) act" where
  "event_subscriber b = or_panic (new_subscriber b NetEventsChannel)"

text \<open>
  What a task does before its loop.  \<open>push_task\<close> of \<open>record.rs\<close> does so in its loop, in which it drops its
  subscriber at the end of a turn and opens another for the next.
\<close>

fun task_prologue :: "'s boot_ops \<Rightarrow> task \<Rightarrow> ('s, 'e, unit) act" where
  "task_prologue b ConfigPushTask = config_subscriber b"
| "task_prologue b PowerConfigTask = config_subscriber b"
| "task_prologue b RecordPushTask = record_subscriber b"
| "task_prologue b EventsNetTask = event_subscriber b"
| "task_prologue b EventsPublishTask =
     seqA (stats_subscriber b) (seqA (record_subscriber b) (config_subscriber b))"
| "task_prologue b _ = ret ()"

definition record_push_again :: "'s boot_ops \<Rightarrow> ('s, 'e, unit) act" where
  "record_push_again b = seqA (modifyA (drop_subscriber b RecordChannel)) (record_subscriber b)"

section \<open>The start\<close>

text \<open>\<open>main\<close> spawns the application on the executor that it then runs.\<close>

definition main_boot :: "'s boot_ops \<Rightarrow> instant \<Rightarrow> ('s, 'e, thread_exec) act" where
  "main_boot b t = seqA (must_spawn b ThreadExecutor AppTask) (ret (thread_boot True t))"

text \<open>
  The systems, in the order of \<open>app\<close> and with those that are commented out there; the output supply is
  given the spawner of the interrupt executor.
\<close>

datatype system_init =
    InitWatchdog | InitUsbpd | InitStorage | InitConfig | InitRecord | InitPowerExt | InitStats | InitNet | InitEvents

fun boot_init :: "'s boot_ops \<Rightarrow> system_init \<Rightarrow> ('s, 'e, unit) act" where
  "boot_init b InitWatchdog = watchdog_boot b"
| "boot_init b InitUsbpd = usbpd_boot_task b ThreadExecutor"
| "boot_init b InitStorage = storage_boot b"
| "boot_init b InitConfig = config_boot b ThreadExecutor"
| "boot_init b InitRecord = record_boot b ThreadExecutor"
| "boot_init b InitPowerExt = power_boot b HighPrioExecutor"
| "boot_init b InitStats = stats_boot b ThreadExecutor"
| "boot_init b InitNet = net_boot b ThreadExecutor"
| "boot_init b InitEvents = events_init b ThreadExecutor"

definition app_inits :: "system_init list" where
  "app_inits = [InitWatchdog, InitUsbpd, InitStorage, InitConfig, InitRecord, InitNet]"

text \<open>A task that was spawned is polled for the first time between the steps of \<open>app\<close> or after them.\<close>

datatype boot_event = Init system_init | FirstPoll task

fun boot_event_run :: "'s boot_ops \<Rightarrow> boot_event \<Rightarrow> ('s, 'e, unit) act" where
  "boot_event_run b (Init i) = boot_init b i"
| "boot_event_run b (FirstPoll t) = task_prologue b t"

section \<open>The board\<close>

text \<open>
  What \<open>Bsp::init\<close> asks of esp-hal and esp-wifi, in its order; \<open>OutputPin\<close> has the level that the pin is
  driven to.  The random numbers and the radio are parameters: \<open>rng_random\<close> draws one number,
  \<open>wifi_new\<close> is \<open>esp_wifi::initialize\<close> and \<open>new_with_mode\<close>, \<open>None\<close> where one of the two errors is unwrapped.
\<close>

datatype hw_step =
    SystemControlNew | IoNew | ClocksMax | RtcNew | SystemTimerNew | RngNew | WifiInitialize | EmbassyInit
  | I2cNew nat nat nat nat | AdcPinWithCal nat | AdcNew | OutputPin nat bool | InputPin nat | WatchdogTimer | DelayNew

record ('r, 'w) board_ops =
  rng_random :: "'r \<Rightarrow> u32 \<times> 'r"
  wifi_new :: "'r \<Rightarrow> 'w option"

record ('s, 'r) host =
  ho_boot :: 's
  ho_rng :: 'r
  ho_intr :: intr_exec
  ho_steps :: "hw_step list"

text \<open>\<open>Bsp\<close>: drivers are told by the pins they were made of; a spawner by its software interrupt.\<close>

record 'w wifi_bsp =
  wifi_radio :: 'w
  wifi_seed :: u64

record stats_pins =
  pin_vprog :: nat
  pin_vsupply :: nat
  pin_vout :: nat

record power_pins =
  pin_enable :: nat
  pin_nint :: nat

record usbpd_pins =
  pin_reset :: nat
  pin_int :: nat

record 'w bsp =
  bsp_wifi :: "'w wifi_bsp"
  bsp_stats :: stats_pins
  bsp_power_ext :: power_pins
  bsp_usb_pd :: usbpd_pins
  bsp_high_prio_spawner :: nat

abbreviation on_boot :: "('s, 'e, 'a) act \<Rightarrow> (('s, 'r) host, 'e, 'a) act" where
  "on_boot \<equiv> zoom ho_boot (\<lambda>x h. h\<lparr>ho_boot := x\<rparr>)"

definition hw :: "hw_step \<Rightarrow> (('s, 'r) host, 'e, unit) act" where
  "hw x = modifyA (\<lambda>h. h\<lparr>ho_steps := ho_steps h @ [x]\<rparr>)"

text \<open>Of two random numbers the first is the high half; \<open><<\<close> binds tighter than \<open>|\<close> in Rust.\<close>

definition seed_of :: "u32 \<Rightarrow> u32 \<Rightarrow> u64" where
  "seed_of hi lo = push_bit 32 (ucast hi) OR ucast lo"

definition wifi_boot :: "('r, 'w) board_ops \<Rightarrow> (('s, 'r) host, 'e, 'w wifi_bsp) act" where
  "wifi_boot ops =
     seqA (hw SystemTimerNew) (
     seqA (hw RngNew) (
     bindA (zoom ho_rng (\<lambda>x h. h\<lparr>ho_rng := x\<rparr>) (\<lambda>r. case rng_random ops r of (x, r') \<Rightarrow> (Ok x, r'))) (\<lambda>hi.
     bindA (zoom ho_rng (\<lambda>x h. h\<lparr>ho_rng := x\<rparr>) (\<lambda>r. case rng_random ops r of (x, r') \<Rightarrow> (Ok x, r'))) (\<lambda>lo.
     seqA (hw WifiInitialize) (
     bindA (readA (\<lambda>h. wifi_new ops (ho_rng h))) (\<lambda>w.
     bindA (unwrapO w) (\<lambda>radio. ret \<lparr>wifi_radio = radio, wifi_seed = seed_of hi lo\<rparr>)))))))"

definition bsp_init :: "'s boot_ops \<Rightarrow> ('r, 'w) board_ops \<Rightarrow> nat \<Rightarrow> (('s, 'r) host, 'e, 'w bsp) act" where
  "bsp_init b ops core =
     seqA (hw SystemControlNew) (
     seqA (hw IoNew) (
     seqA (seqA (hw ClocksMax) (on_boot (cell_init b ClocksCell))) (
     seqA (hw RtcNew) (
     bindA (wifi_boot ops) (\<lambda>wifi.
     seqA (hw EmbassyInit) (
     seqA (seqA (hw (I2cNew 5 4 400000 20)) (on_boot (cell_init b I2cBusCell))) (
     seqA (seqA (hw (AdcPinWithCal 1)) (seqA (hw (AdcPinWithCal 0)) (seqA (hw (AdcPinWithCal 3)) (hw AdcNew)))) (
     seqA (seqA (hw (OutputPin 10 False)) (hw (InputPin 20))) (
     seqA (seqA (hw (OutputPin 7 False)) (hw (InputPin 21))) (
     seqA (hw WatchdogTimer) (
     seqA (hw DelayNew) (
     seqA (on_boot (cell_init b ExecutorCell)) (
     seqA (zoom ho_intr (\<lambda>x h. h\<lparr>ho_intr := x\<rparr>) (intr_start core 2)) (
     ret \<lparr>bsp_wifi = wifi, bsp_stats = \<lparr>pin_vprog = 1, pin_vsupply = 0, pin_vout = 3\<rparr>,
          bsp_power_ext = \<lparr>pin_enable = 10, pin_nint = 20\<rparr>, bsp_usb_pd = \<lparr>pin_reset = 7, pin_int = 21\<rparr>,
          bsp_high_prio_spawner = 2\<rparr>))))))))))))))"

text \<open>The start: \<open>main\<close>, the board, and then the systems while their tasks are polled.\<close>

definition start_up :: "'s boot_ops \<Rightarrow> ('r, 'w) board_ops \<Rightarrow> nat \<Rightarrow> instant \<Rightarrow> boot_event list \<Rightarrow>
    (('s, 'r) host, 'e, thread_exec \<times> 'w bsp) act" where
  "start_up b ops core t evs =
     bindA (on_boot (main_boot b t)) (\<lambda>exec.
     bindA (bsp_init b ops core) (\<lambda>board.
     seqA (on_boot (forA (boot_event_run b) evs)) (ret (exec, board))))"

section \<open>What an event takes\<close>

fun ev_cells :: "boot_event \<Rightarrow> static_cell list" where
  "ev_cells (Init InitWatchdog) = [WatchdogCell]"
| "ev_cells (Init InitUsbpd) = [UsbpdCell]"
| "ev_cells (Init InitStorage) = [StorageCell]"
| "ev_cells (Init InitConfig) = [ConfigCell]"
| "ev_cells (Init InitRecord) = [RecordCell]"
| "ev_cells (Init InitPowerExt) = [PowerExtCell]"
| "ev_cells (Init InitStats) = [StatsCell]"
| "ev_cells (Init InitNet) = [NetResourcesCell, NetStackCell, NetCell]"
| "ev_cells _ = []"

fun ev_tasks :: "boot_event \<Rightarrow> task list" where
  "ev_tasks (Init InitUsbpd) = [UsbpdStateTask]"
| "ev_tasks (Init InitConfig) = [ConfigPushTask]"
| "ev_tasks (Init InitRecord) = [RecordSyncTask, RecordPushTask]"
| "ev_tasks (Init InitPowerExt) = [PowerMonitorTask, PowerConfigTask]"
| "ev_tasks (Init InitStats) = [StatsTask]"
| "ev_tasks (Init InitNet) = [NetConnectionTask, NetStackTask, NetMainTask]"
| "ev_tasks (Init InitEvents) = [EventsNetTask, EventsPublishTask]"
| "ev_tasks _ = []"

fun ev_executor :: "boot_event \<Rightarrow> executor" where
  "ev_executor (Init InitPowerExt) = HighPrioExecutor"
| "ev_executor _ = ThreadExecutor"

fun opens :: "task \<Rightarrow> subscribed set" where
  "opens ConfigPushTask = {SettingsChannel}"
| "opens PowerConfigTask = {SettingsChannel}"
| "opens RecordPushTask = {RecordChannel}"
| "opens EventsNetTask = {NetEventsChannel}"
| "opens EventsPublishTask = {StatsChannel, RecordChannel, SettingsChannel}"
| "opens _ = {}"

fun ev_opens :: "boot_event \<Rightarrow> subscribed set" where
  "ev_opens (FirstPoll t) = opens t"
| "ev_opens (Init i) = {}"

text \<open>
  A step that takes the cells \<open>C\<close>, starts the tasks \<open>T\<close> on the executor \<open>e\<close> and opens the channels \<open>O\<close>
  does so where all of them are free, and panics where one is not.
\<close>

definition takes :: "('s \<Rightarrow> static_cell set) \<Rightarrow> ('s \<Rightarrow> task \<rightharpoonup> executor) \<Rightarrow> ('s \<Rightarrow> subscribed \<Rightarrow> nat) \<Rightarrow>
    ('s, 'e, unit) act \<Rightarrow> static_cell set \<Rightarrow> task set \<Rightarrow> executor \<Rightarrow> subscribed set \<Rightarrow> bool" where
  "takes cells placed subs m C T e Ch \<longleftrightarrow> (\<forall>s.
     if C \<inter> cells s = {} \<and> (\<forall>t\<in>T. placed s t = None) \<and> (\<forall>ch\<in>Ch. subs s ch < DATA_SUBS)
     then \<exists>s'. m s = (Ok (), s') \<and> cells s' = cells s \<union> C
       \<and> placed s' = (\<lambda>t. if t \<in> T then Some e else placed s t)
       \<and> subs s' = (\<lambda>ch. subs s ch + (if ch \<in> Ch then 1 else 0))
     else \<exists>s'. m s = (Panic, s'))"

lemma takes_Ok:
  assumes "takes cells placed subs m C T e Ch" "C \<inter> cells s = {}" "\<forall>t\<in>T. placed s t = None"
    "\<forall>ch\<in>Ch. subs s ch < DATA_SUBS"
  obtains s' where "m s = (Ok (), s')" "cells s' = cells s \<union> C"
    "placed s' = (\<lambda>t. if t \<in> T then Some e else placed s t)"
    "subs s' = (\<lambda>ch. subs s ch + (if ch \<in> Ch then 1 else 0))"
  using assms(1)[unfolded takes_def, rule_format, of s] assms(2-4) by (auto split: if_splits)

lemma takes_Panic:
  assumes "takes cells placed subs m C T e Ch"
    "\<not> (C \<inter> cells s = {} \<and> (\<forall>t\<in>T. placed s t = None) \<and> (\<forall>ch\<in>Ch. subs s ch < DATA_SUBS))"
  obtains s' where "m s = (Panic, s')"
  using assms(1)[unfolded takes_def, rule_format, of s] assms(2) that by (auto split: if_splits)

lemma takes_nothing: "takes cells placed subs (ret ()) {} {} e {}"
  by (simp add: takes_def ret_def)

lemma takes_seq:
  assumes m: "takes cells placed subs m C T e Ch" and n: "takes cells placed subs n C' T' e Ch'"
    and "C \<inter> C' = {}" "T \<inter> T' = {}" "Ch \<inter> Ch' = {}"
  shows "takes cells placed subs (seqA m n) (C \<union> C') (T \<union> T') e (Ch \<union> Ch')"
  unfolding takes_def
proof (rule allI)
  fix s
  let ?free = "\<lambda>C T Ch s. C \<inter> cells s = {} \<and> (\<forall>t\<in>T. placed s t = None) \<and> (\<forall>ch\<in>Ch. subs s ch < DATA_SUBS)"
  show "if ?free (C \<union> C') (T \<union> T') (Ch \<union> Ch') s
     then \<exists>s'. seqA m n s = (Ok (), s') \<and> cells s' = cells s \<union> (C \<union> C')
       \<and> placed s' = (\<lambda>t. if t \<in> T \<union> T' then Some e else placed s t)
       \<and> subs s' = (\<lambda>ch. subs s ch + (if ch \<in> Ch \<union> Ch' then 1 else 0))
     else \<exists>s'. seqA m n s = (Panic, s')"
  proof (cases "?free C T Ch s")
    case False
    with takes_Panic [OF m, of s] obtain s' where "m s = (Panic, s')" by blast
    then have "\<exists>s'. seqA m n s = (Panic, s')" by (simp add: bindA_def)
    moreover have "\<not> ?free (C \<union> C') (T \<union> T') (Ch \<union> Ch') s" using False by blast
    ultimately show ?thesis by (simp only: if_False)
  next
    case True
    with takes_Ok [OF m, of s] obtain s1 where s1: "m s = (Ok (), s1)" "cells s1 = cells s \<union> C"
      "placed s1 = (\<lambda>t. if t \<in> T then Some e else placed s t)"
      "subs s1 = (\<lambda>ch. subs s ch + (if ch \<in> Ch then 1 else 0))" by blast
    have "\<forall>t\<in>T'. t \<notin> T" "\<forall>ch\<in>Ch'. ch \<notin> Ch" using assms(4,5) by blast+
    then have iff: "?free C' T' Ch' s1 \<longleftrightarrow> ?free (C \<union> C') (T \<union> T') (Ch \<union> Ch') s"
      using True s1(2-4) assms(3) by auto
    show ?thesis
    proof (cases "?free C' T' Ch' s1")
      case False
      with takes_Panic [OF n, of s1] obtain s' where "n s1 = (Panic, s')" by blast
      then have "\<exists>s'. seqA m n s = (Panic, s')" by (simp add: bindA_def s1(1))
      with False iff show ?thesis by (simp only: if_False)
    next
      case free: True
      with takes_Ok [OF n, of s1] obtain s2 where s2: "n s1 = (Ok (), s2)" "cells s2 = cells s1 \<union> C'"
        "placed s2 = (\<lambda>t. if t \<in> T' then Some e else placed s1 t)"
        "subs s2 = (\<lambda>ch. subs s1 ch + (if ch \<in> Ch' then 1 else 0))" by blast
      have "seqA m n s = (Ok (), s2)" by (simp add: bindA_def s1(1) s2(1))
      moreover have "cells s2 = cells s \<union> (C \<union> C')" using s1(2) s2(2) by blast
      moreover have "placed s2 = (\<lambda>t. if t \<in> T \<union> T' then Some e else placed s t)" by (auto simp: s1(3) s2(3) fun_eq_iff)
      moreover have "subs s2 = (\<lambda>ch. subs s ch + (if ch \<in> Ch \<union> Ch' then 1 else 0))"
        using assms(5) by (auto simp: s1(4) s2(4) fun_eq_iff)
      ultimately show ?thesis using free iff by (metis (no_types, lifting))
    qed
  qed
qed

context boot_crates
begin

lemma cell_takes: "takes cells placed subs (cell_init b c :: ('s, 'e, unit) act) {c} {} e {}"
proof -
  have "\<exists>s'. (cell_init b c :: ('s, 'e, unit) act) s = (Panic, s')" if "c \<in> cells s" for s
    using init_twice [OF that] by (simp add: cell_init_def or_panic_def)
  moreover have "\<exists>s'. (cell_init b c :: ('s, 'e, unit) act) s = (Ok (), s') \<and> cells s' = insert c (cells s) \<and> placed s' = placed s \<and> subs s' = subs s"
    if "c \<notin> cells s" for s
    using init_fresh [OF that] by (auto simp: cell_init_def or_panic_def)
  ultimately show ?thesis by (simp add: takes_def)
qed

lemma spawn_takes: "takes cells placed subs (must_spawn b e t :: ('s, 'e, unit) act) {} {t} e {}"
proof -
  have "\<exists>s'. (must_spawn b e t :: ('s, 'e, unit) act) s = (Panic, s')" if "placed s t \<noteq> None" for s
    using spawn_running [OF that] by (simp add: must_spawn_def or_panic_def)
  moreover have "\<exists>s'. (must_spawn b e t :: ('s, 'e, unit) act) s = (Ok (), s') \<and> cells s' = cells s
      \<and> placed s' = (\<lambda>x. if x = t then Some e else placed s x) \<and> subs s' = subs s" if "placed s t = None" for s
    using spawn_free [OF that, of e] by (auto simp: must_spawn_def or_panic_def fun_eq_iff)
  ultimately show ?thesis by (simp add: takes_def)
qed

lemma subscriber_takes: "takes cells placed subs (or_panic (new_subscriber b ch) :: ('s, 'e, unit) act) {} {} e {ch}"
proof -
  have "\<exists>s'. (or_panic (new_subscriber b ch) :: ('s, 'e, unit) act) s = (Panic, s')" if "\<not> subs s ch < DATA_SUBS" for s
    using subscriber_full [of s ch] that by (simp add: or_panic_def)
  moreover have "\<exists>s'. (or_panic (new_subscriber b ch) :: ('s, 'e, unit) act) s = (Ok (), s') \<and> cells s' = cells s \<and> placed s' = placed s
      \<and> subs s' = (\<lambda>x. subs s x + (if x = ch then 1 else 0))" if "subs s ch < DATA_SUBS" for s
    using subscriber_room [OF that] by (auto simp: or_panic_def fun_eq_iff)
  ultimately show ?thesis by (simp add: takes_def)
qed

lemmas boot_defs = watchdog_boot_def usbpd_boot_task_def storage_boot_def config_boot_def record_boot_def
  power_boot_def stats_boot_def net_boot_def events_init_def config_subscriber_def record_subscriber_def
  stats_subscriber_def event_subscriber_def

lemma event_takes:
  "takes cells placed subs (boot_event_run b ev) (set (ev_cells ev)) (set (ev_tasks ev)) (ev_executor ev) (ev_opens ev)"
proof (cases ev)
  case (Init i)
  show ?thesis
    unfolding Init
    by (cases i; simp add: boot_defs cell_takes)
      (rule takes_seq [where C = "{_}" and T = "{}" and Ch = "{}", OF cell_takes, simplified]
         takes_seq [where T = "{_}" and C = "{}" and Ch = "{}", OF spawn_takes, simplified] spawn_takes | force)+
next
  case (FirstPoll t)
  show ?thesis
    unfolding FirstPoll
    by (cases t; simp add: boot_defs takes_nothing subscriber_takes)
      (rule takes_seq [where C = "{}" and T = "{}" and Ch = "{_}", OF subscriber_takes, simplified] subscriber_takes | force)+
qed

end

section \<open>Nothing is taken twice\<close>

text \<open>What the board and the events \<open>D\<close> have taken.\<close>

definition started :: "('s \<Rightarrow> static_cell set) \<Rightarrow> ('s \<Rightarrow> task \<rightharpoonup> executor) \<Rightarrow> ('s \<Rightarrow> subscribed \<Rightarrow> nat) \<Rightarrow>
    boot_event set \<Rightarrow> 's \<Rightarrow> bool" where
  "started cells placed subs D s \<longleftrightarrow>
     cells s = {ClocksCell, I2cBusCell, ExecutorCell} \<union> (\<Union>ev\<in>D. set (ev_cells ev))
   \<and> placed s AppTask = Some ThreadExecutor
   \<and> (\<forall>t e. t \<noteq> AppTask \<longrightarrow> placed s t = Some e \<longleftrightarrow> (\<exists>ev\<in>D. t \<in> set (ev_tasks ev) \<and> e = ev_executor ev))
   \<and> (\<forall>ch. subs s ch = card {t. FirstPoll t \<in> D \<and> ch \<in> opens t})"

lemma cell_of_one:
  assumes "c \<in> set (ev_cells ev)" "c \<in> set (ev_cells ev')"
  shows "ev = ev'"
  using assms by (cases ev rule: ev_cells.cases; cases ev' rule: ev_cells.cases; simp; fail)

lemma task_of_one:
  assumes "t \<in> set (ev_tasks ev)" "t \<in> set (ev_tasks ev')"
  shows "ev = ev'"
  using assms by (cases ev rule: ev_tasks.cases; cases ev' rule: ev_tasks.cases; auto; fail)

lemma board_cells_free: "{ClocksCell, I2cBusCell, ExecutorCell} \<inter> set (ev_cells ev) = {}"
  by (cases ev rule: ev_cells.cases) simp_all

lemma app_task_free: "AppTask \<notin> set (ev_tasks ev)"
  by (cases ev rule: ev_tasks.cases) simp_all

text \<open>A channel is opened by at most three tasks.\<close>

lemma openers: "{t. ch \<in> opens t} =
    (case ch of SettingsChannel \<Rightarrow> {ConfigPushTask, PowerConfigTask, EventsPublishTask}
     | RecordChannel \<Rightarrow> {RecordPushTask, EventsPublishTask} | StatsChannel \<Rightarrow> {EventsPublishTask}
     | NetEventsChannel \<Rightarrow> {EventsNetTask})"
proof -
  have "ch \<in> opens t \<longleftrightarrow> t \<in> (case ch of SettingsChannel \<Rightarrow> {ConfigPushTask, PowerConfigTask, EventsPublishTask}
     | RecordChannel \<Rightarrow> {RecordPushTask, EventsPublishTask} | StatsChannel \<Rightarrow> {EventsPublishTask}
     | NetEventsChannel \<Rightarrow> {EventsNetTask})" for t
    by (cases t; cases ch; simp)
  then show ?thesis by blast
qed

lemma openers_bound: "finite {t. P t \<and> ch \<in> opens t}" "card {t. P t \<and> ch \<in> opens t} \<le> 3"
proof -
  have all: "finite {t. ch \<in> opens t}" "card {t. ch \<in> opens t} \<le> 3"
    unfolding openers by (cases ch; simp)+
  show "finite {t. P t \<and> ch \<in> opens t}" by (rule finite_subset [OF _ all(1)]) blast
  have "card {t. P t \<and> ch \<in> opens t} \<le> card {t. ch \<in> opens t}" by (rule card_mono [OF all(1)]) blast
  with all(2) show "card {t. P t \<and> ch \<in> opens t} \<le> 3" by simp
qed

lemma openers_insert:
  assumes "ev \<notin> D"
  shows "card {t. FirstPoll t \<in> insert ev D \<and> ch \<in> opens t}
    = card {t. FirstPoll t \<in> D \<and> ch \<in> opens t} + (if ch \<in> ev_opens ev then 1 else 0)"
proof (cases ev)
  case (Init i)
  then show ?thesis by simp
next
  case (FirstPoll t)
  show ?thesis
  proof (cases "ch \<in> opens t")
    case True
    have "{t. FirstPoll t \<in> insert ev D \<and> ch \<in> opens t} = insert t {t. FirstPoll t \<in> D \<and> ch \<in> opens t}"
      using True FirstPoll by auto
    then show ?thesis using openers_bound(1) [of "\<lambda>t. FirstPoll t \<in> D" ch] assms True FirstPoll by simp
  next
    case False
    then have "{t. FirstPoll t \<in> insert ev D \<and> ch \<in> opens t} = {t. FirstPoll t \<in> D \<and> ch \<in> opens t}"
      using FirstPoll by auto
    then show ?thesis using False FirstPoll by simp
  qed
qed

context boot_crates
begin

lemma started_step:
  assumes st: "started cells placed subs D s" and new: "ev \<notin> D"
  shows "\<exists>s'. (boot_event_run b ev :: ('s, 'e, unit) act) s = (Ok (), s') \<and> started cells placed subs (insert ev D) s'"
proof -
  have c: "cells s = {ClocksCell, I2cBusCell, ExecutorCell} \<union> (\<Union>ev\<in>D. set (ev_cells ev))"
    and a: "placed s AppTask = Some ThreadExecutor"
    and p: "\<And>t e. t \<noteq> AppTask \<Longrightarrow> placed s t = Some e \<longleftrightarrow> (\<exists>ev\<in>D. t \<in> set (ev_tasks ev) \<and> e = ev_executor ev)"
    and q: "\<And>ch. subs s ch = card {t. FirstPoll t \<in> D \<and> ch \<in> opens t}"
    using st by (auto simp: started_def)
  have "set (ev_cells ev) \<inter> cells s = {}"
    unfolding c using cell_of_one [of _ ev] new board_cells_free [of ev] by blast
  moreover have "\<forall>t\<in>set (ev_tasks ev). placed s t = None"
  proof
    fix t assume t: "t \<in> set (ev_tasks ev)"
    then have "t \<noteq> AppTask" using app_task_free by metis
    with p [of t] t new task_of_one [of t ev] show "placed s t = None" by (cases "placed s t") blast+
  qed
  moreover have "subs s ch < DATA_SUBS" for ch
    using openers_bound(2) [of "\<lambda>t. FirstPoll t \<in> D" ch] by (simp add: q DATA_SUBS_def)
  then have "\<forall>ch\<in>ev_opens ev. subs s ch < DATA_SUBS" by blast
  ultimately obtain s' where s': "(boot_event_run b ev :: ('s, 'e, unit) act) s = (Ok (), s')"
    "cells s' = cells s \<union> set (ev_cells ev)"
    "placed s' = (\<lambda>t. if t \<in> set (ev_tasks ev) then Some (ev_executor ev) else placed s t)"
    "subs s' = (\<lambda>ch. subs s ch + (if ch \<in> ev_opens ev then 1 else 0))"
    by (rule takes_Ok [OF event_takes])
  have "placed s' t = Some e \<longleftrightarrow> (\<exists>ev'\<in>insert ev D. t \<in> set (ev_tasks ev') \<and> e = ev_executor ev')"
    if "t \<noteq> AppTask" for t e
    using p [OF that, of e] task_of_one [of t ev] by (auto simp: s'(3))
  then have "started cells placed subs (insert ev D) s'"
    unfolding started_def using c a app_task_free [of ev] openers_insert [OF new] q
    by (simp add: s'(2-4) Un_ac)
  with s'(1) show ?thesis by blast
qed

lemma started_run:
  "started cells placed subs D s \<Longrightarrow> distinct evs \<Longrightarrow> set evs \<inter> D = {} \<Longrightarrow>
   \<exists>s'. (forA (boot_event_run b) evs :: ('s, 'e, unit) act) s = (Ok (), s') \<and> started cells placed subs (D \<union> set evs) s'"
proof (induction evs arbitrary: D s)
  case (Cons ev evs)
  from Cons.prems(3) have new: "ev \<notin> D" by simp
  from started_step [OF Cons.prems(1) new] obtain s1 where
    s1: "(boot_event_run b ev :: ('s, 'e, unit) act) s = (Ok (), s1)" "started cells placed subs (insert ev D) s1" by blast
  from Cons.prems(2,3) have "distinct evs" "set evs \<inter> insert ev D = {}" by auto
  from Cons.IH [OF s1(2) this] obtain s' where
    s': "(forA (boot_event_run b) evs :: ('s, 'e, unit) act) s1 = (Ok (), s')" "started cells placed subs (insert ev D \<union> set evs) s'" by blast
  have "insert ev D \<union> set evs = D \<union> set (ev # evs)" by auto
  with s' s1(1) show ?case by (simp add: bindA_def)
qed (simp add: ret_def)

lemma push_again:
  assumes st: "started cells placed subs D s" and "FirstPoll RecordPushTask \<in> D"
  shows "\<exists>s'. (record_push_again b :: ('s, 'e, unit) act) s = (Ok (), s') \<and> started cells placed subs D s'"
proof -
  let ?n = "subs s RecordChannel" and ?s = "drop_subscriber b RecordChannel s"
  have "?n = card {t. FirstPoll t \<in> D \<and> RecordChannel \<in> opens t}" using st by (simp add: started_def)
  moreover have "RecordPushTask \<in> {t. FirstPoll t \<in> D \<and> RecordChannel \<in> opens t}" using assms(2) by simp
  ultimately have n: "0 < ?n" "?n \<le> 3"
    using openers_bound [of "\<lambda>t. FirstPoll t \<in> D" RecordChannel] by (auto simp: card_gt_0_iff)
  from subscriber_drop [OF n(1)] have
    d: "subs ?s = (subs s)(RecordChannel := ?n - 1)" "cells ?s = cells s" "placed ?s = placed s" by simp_all
  then have "subs ?s RecordChannel < DATA_SUBS" using n by (simp add: DATA_SUBS_def)
  from subscriber_room [OF this] d n(1) obtain s' where
    "new_subscriber b RecordChannel ?s = Some s'" "subs s' = subs s" "cells s' = cells s" "placed s' = placed s" by auto
  then show ?thesis
    using st by (simp add: record_push_again_def record_subscriber_def or_panic_def bindA_def modifyA_def started_def)
qed

lemma init_again:
  assumes st: "started cells placed subs D s" and "Init i \<in> D"
  shows "\<exists>s'. (boot_init b i :: ('s, 'e, unit) act) s = (Panic, s')"
proof -
  have "\<exists>t\<in>set (ev_tasks (Init i)). placed s t \<noteq> None" if none: "ev_cells (Init i) = []"
  proof -
    from none have i: "i = InitEvents" by (cases i) simp_all
    have "placed s EventsNetTask = Some (ev_executor (Init i))"
      using st assms(2) i by (force simp: started_def)
    with i show ?thesis by simp
  qed
  moreover have "set (ev_cells (Init i)) \<inter> cells s \<noteq> {}" if "ev_cells (Init i) \<noteq> []"
    using that st assms(2) by (fastforce simp: started_def neq_Nil_conv)
  ultimately have "\<not> (set (ev_cells (Init i)) \<inter> cells s = {} \<and> (\<forall>t\<in>set (ev_tasks (Init i)). placed s t = None)
      \<and> (\<forall>ch\<in>ev_opens (Init i). subs s ch < DATA_SUBS))"
    by (cases "ev_cells (Init i) = []") auto
  from takes_Panic [OF event_takes this] show ?thesis by auto
qed

end

section \<open>The board is brought up\<close>

lemma unat_seed_of: "unat (seed_of hi lo) = unat hi * 2 ^ 32 + unat lo"
proof -
  have lo: "uint lo < 4294967296" "0 \<le> uint lo" and hi: "uint hi < 4294967296" "0 \<le> uint hi"
    using unsigned_less [of lo, where ?'a = int] unsigned_less [of hi, where ?'a = int] by simp_all
  have self: "take_bit 64 (uint lo) = uint lo" "take_bit 32 (uint lo) = uint lo" "take_bit 32 (uint hi) = uint hi"
    using lo hi by (simp_all add: take_bit_int_eq_self)
  have "uint (seed_of hi lo) = concat_bit 32 (uint lo) (uint hi)"
    by (simp add: seed_of_def concat_bit_def unsigned_or_eq unsigned_push_bit_eq unsigned_ucast_eq take_bit_push_bit
        or.commute self)
  also have "\<dots> = uint hi * 2 ^ 32 + uint lo"
    by (simp add: concat_bit_eq push_bit_eq_mult self)
  finally have "int (unat (seed_of hi lo)) = int (unat hi * 2 ^ 32 + unat lo)" by simp
  then show ?thesis by (simp only: of_nat_eq_iff)
qed

definition board_steps :: "hw_step list" where
  "board_steps = [SystemControlNew, IoNew, ClocksMax, RtcNew, SystemTimerNew, RngNew, WifiInitialize, EmbassyInit,
     I2cNew 5 4 400000 20, AdcPinWithCal 1, AdcPinWithCal 0, AdcPinWithCal 3, AdcNew, OutputPin 10 False, InputPin 20,
     OutputPin 7 False, InputPin 21, WatchdogTimer, DelayNew]"

text \<open>The pins that a step hands to a driver.\<close>

fun pins_of :: "hw_step \<Rightarrow> nat list" where
  "pins_of (I2cNew sda scl hz timeout) = [sda, scl]"
| "pins_of (AdcPinWithCal n) = [n]"
| "pins_of (OutputPin n level) = [n]"
| "pins_of (InputPin n) = [n]"
| "pins_of _ = []"

definition fresh_host :: "'s \<Rightarrow> 'r \<Rightarrow> ('s, 'r) host" where
  "fresh_host s r = \<lparr>ho_boot = s, ho_rng = r, ho_intr = intr_new, ho_steps = []\<rparr>"

lemma intr_start_first:
  "\<exists>x. (intr_start core 2 :: (intr_exec, 'e, unit) act) intr_new = (Ok (), x) \<and> ie_handlers x 2 \<and> intr_inv x"
proof -
  define x where "x = intr_new\<lparr>ie_core := (ie_core intr_new)(2 := Some core),
    ie_executors := (ie_executors intr_new)(2 := Some 2), ie_handlers := (ie_handlers intr_new)(2 := True)\<rparr>"
  have "(intr_start core 2 :: (intr_exec, 'e, unit) act) intr_new = (Ok (), x)"
    by (simp add: intr_start_def intr_new_def callback_defs x_def)
  moreover have "ie_handlers x 2" by (simp add: x_def)
  moreover have "intr_inv x" by (auto simp: x_def intr_inv_def intr_new_def callback_defs)
  ultimately show ?thesis by blast
qed

lemma wifi_boot_Ok:
  assumes "rng_random ops (ho_rng h) = (hi, r1)" "rng_random ops r1 = (lo, r2)" "wifi_new ops r2 = Some radio"
  shows "wifi_boot ops h = (Ok \<lparr>wifi_radio = radio, wifi_seed = seed_of hi lo\<rparr>,
    h\<lparr>ho_rng := r2, ho_steps := ho_steps h @ [SystemTimerNew, RngNew, WifiInitialize]\<rparr>)"
  using assms by (simp add: wifi_boot_def hw_def bindA_def modifyA_def zoom_def readA_def ret_def)

context boot_crates
begin

lemma bsp_init_Ok:
  assumes draws: "rng_random ops r = (hi, r1)" "rng_random ops r1 = (lo, r2)" "wifi_new ops r2 = Some radio"
    and "cells s = {}" "placed s AppTask = Some ThreadExecutor" "\<And>t. t \<noteq> AppTask \<Longrightarrow> placed s t = None" "subs s = (\<lambda>_. 0)"
  shows "\<exists>h'. (bsp_init b ops core :: (('s, 'r) host, 'e, 'w bsp) act) (fresh_host s r) = (Ok
      \<lparr>bsp_wifi = \<lparr>wifi_radio = radio, wifi_seed = seed_of hi lo\<rparr>, bsp_stats = \<lparr>pin_vprog = 1, pin_vsupply = 0, pin_vout = 3\<rparr>,
        bsp_power_ext = \<lparr>pin_enable = 10, pin_nint = 20\<rparr>, bsp_usb_pd = \<lparr>pin_reset = 7, pin_int = 21\<rparr>, bsp_high_prio_spawner = 2\<rparr>, h')
    \<and> started cells placed subs {} (ho_boot h') \<and> ho_steps h' = board_steps
    \<and> ie_handlers (ho_intr h') 2 \<and> intr_inv (ho_intr h')"
proof -
  from takes_Ok [OF cell_takes [where 'e = 'e, of ClocksCell], of s] assms(4) obtain s1 where
    s1: "(cell_init b ClocksCell :: ('s, 'e, unit) act) s = (Ok (), s1)" "cells s1 = {ClocksCell}" "placed s1 = placed s" "subs s1 = subs s"
    by auto
  from takes_Ok [OF cell_takes [where 'e = 'e, of I2cBusCell], of s1] s1(2) obtain s2 where
    s2: "(cell_init b I2cBusCell :: ('s, 'e, unit) act) s1 = (Ok (), s2)" "cells s2 = {I2cBusCell, ClocksCell}" "placed s2 = placed s1"
      "subs s2 = subs s1" by auto
  from takes_Ok [OF cell_takes [where 'e = 'e, of ExecutorCell], of s2] s2(2) obtain s3 where
    s3: "(cell_init b ExecutorCell :: ('s, 'e, unit) act) s2 = (Ok (), s3)" "cells s3 = {ExecutorCell, I2cBusCell, ClocksCell}"
      "placed s3 = placed s2" "subs s3 = subs s2" by auto
  from intr_start_first [where 'e = 'e, of core] obtain x where
    x: "(intr_start core 2 :: (intr_exec, 'e, unit) act) intr_new = (Ok (), x)" "ie_handlers x 2" "intr_inv x" by blast
  have "placed s3 = placed s" "subs s3 = (\<lambda>_. 0)" using s1 s2 s3 assms(7) by simp_all
  then have st: "started cells placed subs {} s3"
    using assms(5,6) s3(2) by (auto simp: started_def)
  note wifi = wifi_boot_Ok [of ops _ hi r1 lo r2 radio, OF _ draws(2,3)]
  show ?thesis
    using st x(2,3)
    by (simp add: bsp_init_def fresh_host_def bindA_def hw_def modifyA_def zoom_def wifi draws(1) s1(1) s2(1) s3(1) x(1) ret_def board_steps_def)
qed

lemma main_boot_Ok:
  assumes "placed s = Map.empty"
  shows "\<exists>s'. (main_boot b t :: ('s, 'e, thread_exec) act) s = (Ok (thread_boot True t), s')
    \<and> cells s' = cells s \<and> placed s' = [AppTask \<mapsto> ThreadExecutor] \<and> subs s' = subs s"
proof -
  have "placed s AppTask = None" using assms by simp
  from spawn_free [OF this, of ThreadExecutor] obtain s' where
    "spawn_on b ThreadExecutor AppTask s = Some s'" "cells s' = cells s" "placed s' = (placed s)(AppTask \<mapsto> ThreadExecutor)"
    "subs s' = subs s" by blast
  then show ?thesis using assms by (simp add: main_boot_def must_spawn_def or_panic_def bindA_def ret_def)
qed

end

section \<open>A provider\<close>

type_synonym ref_host = "static_cell set \<times> (task \<rightharpoonup> executor) \<times> (subscribed \<Rightarrow> nat)"

definition ref_boot :: "ref_host boot_ops" where
  "ref_boot = \<lparr>
     static_init = (\<lambda>c (cs, p, q). if c \<in> cs then None else Some (insert c cs, p, q)),
     spawn_on = (\<lambda>e t (cs, p, q). if p t = None then Some (cs, p(t \<mapsto> e), q) else None),
     new_subscriber = (\<lambda>ch (cs, p, q). if q ch < DATA_SUBS then Some (cs, p, q(ch := Suc (q ch))) else None),
     drop_subscriber = (\<lambda>ch (cs, p, q). (cs, p, q(ch := q ch - 1)))\<rparr>"

interpretation rboot: boot_crates ref_boot fst "\<lambda>s. fst (snd s)" "\<lambda>s. snd (snd s)"
  by unfold_locales (auto simp: ref_boot_def split: prod.splits if_splits)

section \<open>Properties\<close>

text \<open>The start runs to its end: \<open>main\<close>, the board, and the systems in any order, their tasks polled at any time.\<close>

lemma start_up_Ok:
  assumes "boot_crates b cells placed subs"
    and "cells s = {}" "placed s = Map.empty" "subs s = (\<lambda>_. 0)"
    and "rng_random ops r = (hi, r1)" "rng_random ops r1 = (lo, r2)" "wifi_new ops r2 = Some radio"
    and "distinct evs"
  shows "\<exists>h'. (start_up b ops core t evs :: (('s, 'r) host, 'e, thread_exec \<times> 'w bsp) act) (fresh_host s r) = (Ok (thread_boot True t,
      \<lparr>bsp_wifi = \<lparr>wifi_radio = radio, wifi_seed = seed_of hi lo\<rparr>, bsp_stats = \<lparr>pin_vprog = 1, pin_vsupply = 0, pin_vout = 3\<rparr>,
        bsp_power_ext = \<lparr>pin_enable = 10, pin_nint = 20\<rparr>, bsp_usb_pd = \<lparr>pin_reset = 7, pin_int = 21\<rparr>, bsp_high_prio_spawner = 2\<rparr>), h')
    \<and> started cells placed subs (set evs) (ho_boot h') \<and> ho_steps h' = board_steps
    \<and> ie_handlers (ho_intr h') 2 \<and> intr_inv (ho_intr h')"
proof -
  from boot_crates.main_boot_Ok [where 'e = 'e, OF assms(1,3), of t] assms(2,4) obtain s1 where
    s1: "(main_boot b t :: ('s, 'e, thread_exec) act) s = (Ok (thread_boot True t), s1)" "cells s1 = {}"
      "placed s1 = [AppTask \<mapsto> ThreadExecutor]" "subs s1 = (\<lambda>_. 0)" by auto
  then have app: "placed s1 AppTask = Some ThreadExecutor" "\<And>t. t \<noteq> AppTask \<Longrightarrow> placed s1 t = None" by simp_all
  from boot_crates.bsp_init_Ok [where 'e = 'e, OF assms(1,5-7) s1(2) app s1(4), of core] obtain h1 where
    h1: "(bsp_init b ops core :: (('s, 'r) host, 'e, 'w bsp) act) (fresh_host s1 r) = (Ok
      \<lparr>bsp_wifi = \<lparr>wifi_radio = radio, wifi_seed = seed_of hi lo\<rparr>, bsp_stats = \<lparr>pin_vprog = 1, pin_vsupply = 0, pin_vout = 3\<rparr>,
        bsp_power_ext = \<lparr>pin_enable = 10, pin_nint = 20\<rparr>, bsp_usb_pd = \<lparr>pin_reset = 7, pin_int = 21\<rparr>, bsp_high_prio_spawner = 2\<rparr>, h1)"
    "started cells placed subs {} (ho_boot h1)" "ho_steps h1 = board_steps" "ie_handlers (ho_intr h1) 2" "intr_inv (ho_intr h1)" by blast
  from boot_crates.started_run [where 'e = 'e, OF assms(1) h1(2) assms(8)] obtain s2 where
    s2: "(forA (boot_event_run b) evs :: ('s, 'e, unit) act) (ho_boot h1) = (Ok (), s2)" "started cells placed subs (set evs) s2" by auto
  have "(on_boot (main_boot b t) :: (('s, 'r) host, 'e, thread_exec) act) (fresh_host s r) = (Ok (thread_boot True t), fresh_host s1 r)"
    by (simp add: zoom_def fresh_host_def s1(1))
  then show ?thesis
    using s2(2) h1(3-5) by (simp add: start_up_def bindA_def h1(1) zoom_def s2(1) ret_def)
qed

text \<open>C12: From a fresh start, \<open>main\<close>, the board and the systems, initialised in any order while their tasks are
  polled for the first time at any point, return without a panic.  Each task is then on the executor of
  the system that spawned it (the monitor and the settings of the output supply on the interrupt
  executor, whose handler is installed, all others on the thread-mode executor), every channel has at
  most three subscribers of the four it has room for, the seed of the network is the two random numbers
  one after the other, the enable pin of the regulator and the reset pin of the USB controller are driven
  low, no pin is given to two drivers, and the RTC is initialised before the radio.  The push task of the
  records finds room for the subscriber that it opens anew in each turn, and a system that is
  initialised a second time panics.\<close>

theorem start_up_resources:
  assumes "boot_crates b cells placed subs"
    and "cells s = {}" "placed s = Map.empty" "subs s = (\<lambda>_. 0)"
    and "rng_random ops r = (hi, r1)" "rng_random ops r1 = (lo, r2)" "wifi_new ops r2 = Some radio"
    and "distinct evs"
  shows "\<exists>board h'. (start_up b ops core t evs :: (('s, 'r) host, unit, thread_exec \<times> 'w bsp) act) (fresh_host s r)
        = (Ok (thread_boot True t, board), h')
    \<and> unat (wifi_seed (bsp_wifi board)) = unat hi * 2 ^ 32 + unat lo
    \<and> placed (ho_boot h') AppTask = Some ThreadExecutor
    \<and> (\<forall>x e. x \<noteq> AppTask \<longrightarrow> placed (ho_boot h') x = Some e
        \<longleftrightarrow> (\<exists>ev\<in>set evs. x \<in> set (ev_tasks ev) \<and> e = ev_executor ev))
    \<and> (\<forall>ch. subs (ho_boot h') ch \<le> 3)
    \<and> ie_handlers (ho_intr h') (bsp_high_prio_spawner board)
    \<and> OutputPin (pin_enable (bsp_power_ext board)) False \<in> set (ho_steps h')
    \<and> OutputPin (pin_reset (bsp_usb_pd board)) False \<in> set (ho_steps h')
    \<and> distinct (concat (map pins_of (ho_steps h')))
    \<and> (\<exists>xs ys zs. ho_steps h' = xs @ RtcNew # ys @ WifiInitialize # zs)
    \<and> (FirstPoll RecordPushTask \<in> set evs \<longrightarrow> (\<exists>s'. (record_push_again b :: ('s, unit, unit) act) (ho_boot h') = (Ok (), s')
        \<and> subs s' = subs (ho_boot h')))
    \<and> (\<forall>i. Init i \<in> set evs \<longrightarrow> (\<exists>s'. (boot_init b i :: ('s, unit, unit) act) (ho_boot h') = (Panic, s')))"
proof -
  from start_up_Ok [where 'e = unit, OF assms, of core t] obtain h' where
    run: "(start_up b ops core t evs :: (('s, 'r) host, unit, thread_exec \<times> 'w bsp) act) (fresh_host s r) = (Ok (thread_boot True t,
      \<lparr>bsp_wifi = \<lparr>wifi_radio = radio, wifi_seed = seed_of hi lo\<rparr>, bsp_stats = \<lparr>pin_vprog = 1, pin_vsupply = 0, pin_vout = 3\<rparr>,
        bsp_power_ext = \<lparr>pin_enable = 10, pin_nint = 20\<rparr>, bsp_usb_pd = \<lparr>pin_reset = 7, pin_int = 21\<rparr>, bsp_high_prio_spawner = 2\<rparr>), h')"
    and st: "started cells placed subs (set evs) (ho_boot h')" and steps: "ho_steps h' = board_steps" and "ie_handlers (ho_intr h') 2"
    by blast
  have "\<exists>xs ys zs. board_steps = xs @ RtcNew # ys @ WifiInitialize # zs"
    by (rule exI [of _ "take 3 board_steps"], rule exI [of _ "[SystemTimerNew, RngNew]"], rule exI [of _ "drop 7 board_steps"])
      (simp add: board_steps_def)
  moreover have "distinct (concat (map pins_of board_steps))" by (simp add: board_steps_def)
  moreover have "OutputPin 10 False \<in> set board_steps" "OutputPin 7 False \<in> set board_steps" by (simp_all add: board_steps_def)
  moreover have "subs (ho_boot h') ch \<le> 3" for ch
    using st openers_bound(2) [of "\<lambda>t. FirstPoll t \<in> set evs" ch] by (simp add: started_def)
  moreover have "\<exists>s'. (boot_init b i :: ('s, unit, unit) act) (ho_boot h') = (Panic, s')" if "Init i \<in> set evs" for i
    by (rule boot_crates.init_again [OF assms(1) st that])
  moreover have "\<exists>s'. (record_push_again b :: ('s, unit, unit) act) (ho_boot h') = (Ok (), s') \<and> subs s' = subs (ho_boot h')"
    if "FirstPoll RecordPushTask \<in> set evs"
    using boot_crates.push_again [where 'e = unit, OF assms(1) st that] st by (auto simp: started_def fun_eq_iff)
  ultimately show ?thesis
    using run \<open>ie_handlers (ho_intr h') 2\<close> st steps by (simp add: unat_seed_of started_def)
qed

text \<open>The systems that \<open>app\<close> starts, with a radio and random numbers that count.\<close>

definition app_events :: "boot_event list" where
  "app_events = map Init app_inits @ map FirstPoll [UsbpdStateTask, ConfigPushTask, RecordSyncTask, RecordPushTask,
     NetConnectionTask, NetStackTask, NetMainTask]"

definition counting_rng :: "(u32, unit) board_ops" where
  "counting_rng = \<lparr>rng_random = (\<lambda>n. (n, n + 1)), wifi_new = (\<lambda>_. Some ())\<rparr>"

theorem start_up_resources_witness:
  "\<exists>board h'. (start_up ref_boot counting_rng 0 0 app_events :: ((ref_host, u32) host, unit, thread_exec \<times> unit bsp) act)
      (fresh_host ({}, Map.empty, \<lambda>_. 0) 7) = (Ok (thread_boot True 0, board), h')
    \<and> unat (wifi_seed (bsp_wifi board)) = 7 * 2 ^ 32 + 8
    \<and> fst (snd (ho_boot h')) NetMainTask = Some ThreadExecutor \<and> fst (snd (ho_boot h')) PowerMonitorTask = None
    \<and> (\<exists>s'. (boot_init ref_boot InitUsbpd :: (ref_host, unit, unit) act) (ho_boot h') = (Panic, s'))"
proof -
  have evs: "distinct app_events" "Init InitNet \<in> set app_events" "Init InitUsbpd \<in> set app_events" "Init InitPowerExt \<notin> set app_events"
    by (simp_all add: app_events_def app_inits_def image_iff)
  have draws: "rng_random counting_rng 7 = (7, 8)" "rng_random counting_rng 8 = (8, 9)" "wifi_new counting_rng 9 = Some ()"
    by (simp_all add: counting_rng_def)
  from start_up_resources [OF rboot.boot_crates_axioms, of "({}, Map.empty, \<lambda>_. 0)", OF _ _ _ draws evs(1), of 0 0]
  obtain board h' where
    run: "(start_up ref_boot counting_rng 0 0 app_events :: ((ref_host, u32) host, unit, thread_exec \<times> unit bsp) act)
      (fresh_host ({}, Map.empty, \<lambda>_. 0) 7) = (Ok (thread_boot True 0, board), h')"
    and seed: "unat (wifi_seed (bsp_wifi board)) = unat (7 :: u32) * 2 ^ 32 + unat (8 :: u32)"
    and placed: "\<And>x e. x \<noteq> AppTask \<Longrightarrow> fst (snd (ho_boot h')) x = Some e
        \<longleftrightarrow> (\<exists>ev\<in>set app_events. x \<in> set (ev_tasks ev) \<and> e = ev_executor ev)"
    and again: "\<And>i. Init i \<in> set app_events \<Longrightarrow> \<exists>s'. (boot_init ref_boot i :: (ref_host, unit, unit) act) (ho_boot h') = (Panic, s')"
    by auto
  have "fst (snd (ho_boot h')) NetMainTask = Some ThreadExecutor"
    unfolding placed [of NetMainTask, simplified] using evs(2) by (intro bexI [of _ "Init InitNet"]) simp_all
  moreover have "ev = Init InitPowerExt" if "PowerMonitorTask \<in> set (ev_tasks ev)" for ev
    by (rule task_of_one [of PowerMonitorTask, OF that]) simp
  then have "fst (snd (ho_boot h')) PowerMonitorTask = None"
    using placed [of PowerMonitorTask] evs(4) by (cases "fst (snd (ho_boot h')) PowerMonitorTask") auto
  ultimately show ?thesis using run seed again [OF evs(3)] by auto
qed

end
