(* ===== verification/App.thy ===== *)
theory App
  imports Net Record_Log Usb_Pd
begin

text \<open>
  \<open>main.rs\<close>: the task \<open>app\<close>, which starts the systems one after the other on one device and then feeds
  its own ticket of the watchdog for ever.  The output supply, the statistics and the events are
  commented out there, and so they are not started here.
\<close>

section \<open>The device and the systems\<close>

text \<open>The parts of the board that the start works on: the watchdog, the controller and the flash.\<close>

record ('m, 'b, 'f) device =
  dev_watchdog :: "'m wd_inner"
  dev_usb :: "'b usbpd_bsp"
  dev_flash :: 'f

record ('f, 'c, 'r, 'o, 'q, 'k, 'g, 'm) systems =
  app_ticket :: nat
  app_part :: partition_entry
  app_record :: "('f, 'c, 'r) record_sys"
  app_net :: "('o, 'q, 'k, ('f, 'g, 'm) net_world) net"
  app_net_ticket :: nat

text \<open>The encodings of the three types that are stored, and the channels that the systems make.\<close>

record app_codecs =
  pc_marker :: "unit postcard"
  pc_settings :: "settings postcard"
  pc_record :: "record_data postcard"

record ('c, 'r, 'o, 'q, 'g) app_channels =
  via_settings :: "('g, settings) pubsub_ops"
  via_sync :: "('c, unit) channel_ops"
  via_record :: "('r, record_data) pubsub_ops"
  via_messages :: "('o, message) channel_ops"
  via_events :: "('q, net_event) pubsub_ops"

abbreviation on_dev_watchdog :: "('m wd_inner, 'e, 'a) act \<Rightarrow> (('m, 'b, 'f) device, 'e, 'a) act" where
  "on_dev_watchdog \<equiv> zoom dev_watchdog (\<lambda>x d. d\<lparr>dev_watchdog := x\<rparr>)"

abbreviation on_dev_usb :: "('b usbpd_bsp, 'e, 'a) act \<Rightarrow> (('m, 'b, 'f) device, 'e, 'a) act" where
  "on_dev_usb \<equiv> zoom dev_usb (\<lambda>x d. d\<lparr>dev_usb := x\<rparr>)"

abbreviation on_dev_flash :: "('f, 'e, 'a) act \<Rightarrow> (('m, 'b, 'f) device, 'e, 'a) act" where
  "on_dev_flash \<equiv> zoom dev_flash (\<lambda>x d. d\<lparr>dev_flash := x\<rparr>)"

section \<open>The start\<close>

text \<open>
  The watchdog and its first ticket, the controller, the storage, and the systems that read it; the
  network is given the settings and the watchdog, of which it takes the second ticket.
\<close>

definition app_start :: "profile \<Rightarrow> 'm bitarray_ops \<Rightarrow> ('b, 'e) i2c_bus \<Rightarrow> ('b, 'e) dd_ops \<Rightarrow> bitfield_ops \<Rightarrow>
    nat \<Rightarrow> nat \<Rightarrow> ('f, 'se) seq_storage \<Rightarrow> app_codecs \<Rightarrow> ('x + partition_entry) list \<Rightarrow>
    ('c, 'r, 'o, 'q, 'g) app_channels \<Rightarrow> 'k \<Rightarrow>
    (('m, 'b, 'f) device, unit, ('f, 'c, 'r, 'o, 'q, 'k, 'g, 'm) systems) act" where
  "app_start p ba i2c dd bf boot polls ss codecs table via stack =
     seqA (modifyA (\<lambda>d. d\<lparr>dev_watchdog := wd_init ba\<rparr>)) (
     bindA (on_dev_watchdog (wd_ticket ba)) (\<lambda>ticket.
     seqA (on_dev_usb (usbpd_init i2c dd bf boot polls)) (
     bindA (on_dev_flash (storage_init p ss (pc_marker codecs) table)) (\<lambda>part.
     bindA (on_dev_flash (config_init p ss part (pc_settings codecs) (via_settings via))) (\<lambda>config.
     bindA (on_dev_flash (record_init p ss part (pc_record codecs) (via_sync via) (via_record via))) (\<lambda>record.
     bindA (zoom (\<lambda>d. \<lparr>nw_config = config, nw_watchdog = dev_watchdog d\<rparr>)
                 (\<lambda>w d. d\<lparr>dev_watchdog := nw_watchdog w\<rparr>)
                 (net_init (via_messages via) (via_events via)
                    (net_peers_of p ss part (pc_settings codecs) (via_settings via) ba) stack)) (\<lambda>(net, net_ticket).
       ret \<lparr>app_ticket = ticket, app_part = part, app_record = record, app_net = net,
            app_net_ticket = net_ticket\<rparr>)))))))"

section \<open>The loop\<close>

text \<open>A turn of the loop of \<open>app\<close>; the timer is the one of the time driver.\<close>

definition app_turn :: "'m bitarray_ops \<Rightarrow> time_ops \<Rightarrow> (duration \<Rightarrow> ('k, unit, unit) act) \<Rightarrow> nat \<Rightarrow>
    (('o, 'q, 'k, ('f, 'g, 'm) net_world) net, unit, unit) act" where
  "app_turn ba tm after ticket =
     seqA (on_others (zoom nw_watchdog (\<lambda>x w. w\<lparr>nw_watchdog := x\<rparr>) (wd_ticket_feed ba ticket)))
          (on_stack (after (from_secs tm WATCHDOG_DEADLINE_SECS)))"

text \<open>The loop runs with the client of the network and with tasks that send messages.\<close>

datatype app_step = AppTurn | NetStep net_step

fun app_step_run :: "'m bitarray_ops \<Rightarrow> time_ops \<Rightarrow> (duration \<Rightarrow> ('k, unit, unit) act) \<Rightarrow> nat \<Rightarrow>
    (net_step \<Rightarrow> (('o, 'q, 'k, ('f, 'g, 'm) net_world) net, unit, unit) act) \<Rightarrow>
    app_step \<Rightarrow> (('o, 'q, 'k, ('f, 'g, 'm) net_world) net, unit, unit) act" where
  "app_step_run ba tm after ticket net_run AppTurn = app_turn ba tm after ticket"
| "app_step_run ba tm after ticket net_run (NetStep step) = net_run step"

section \<open>What a start leaves\<close>

lemma ticket_timeout: "wd_ticket ba w = (r, w') \<Longrightarrow> peri_timeout w' = peri_timeout w"
  by (auto simp: wd_ticket_def wd_feed_def Let_def bindA_def ret_def split: option.splits if_splits)

context bitarray
begin

text \<open>The first ticket feeds the hardware by itself; the second then waits for the first.\<close>

lemma two_tickets:
  assumes "2 \<le> cap"
  shows "\<exists>w1 w2. (wd_ticket ba :: ('m wd_inner, unit, nat) act) (wd_init ba) = (Ok 0, w1)
    \<and> (wd_ticket ba :: ('m wd_inner, unit, nat) act) w1 = (Ok 1, w2)
    \<and> wd_abs bits w2 = \<lparr>tickets = 2, seen = {1}, feeds = 1\<rparr> \<and> peri_timeout w2 = WATCHDOG_DURATION_SECS"
proof -
  have start: "count (wd_init ba) = 0" "wd_abs bits (wd_init ba) = \<lparr>tickets = 0, seen = {}, feeds = 0\<rparr>"
    by (simp_all add: wd_init_def wd_abs_def default_empty)
  have first: "spec_feed 0 \<lparr>tickets = Suc 0, seen = {}, feeds = 0\<rparr> = \<lparr>tickets = Suc 0, seen = {}, feeds = Suc 0\<rparr>"
    by (auto simp: spec_feed_def)
  from ticket_refines [where 'e = unit, of "wd_init ba"] assms start first obtain w1 where
    w1: "(wd_ticket ba :: ('m wd_inner, unit, nat) act) (wd_init ba) = (Ok 0, w1)" "count w1 = 1"
      "wd_abs bits w1 = \<lparr>tickets = 1, seen = {}, feeds = 1\<rparr>"
    by auto
  from ticket_refines [where 'e = unit, of w1] assms w1 obtain w2 where
    w2: "(wd_ticket ba :: ('m wd_inner, unit, nat) act) w1 = (Ok 1, w2)"
      "wd_abs bits w2 = spec_feed 1 \<lparr>tickets = 2, seen = {}, feeds = 1\<rparr>"
    by (auto simp: numeral_2_eq_2)
  have "\<not> {..<2::nat} \<subseteq> {1}" using subsetD [of "{..<2::nat}" "{1}" 0] by auto
  with w2 have "wd_abs bits w2 = \<lparr>tickets = 2, seen = {1}, feeds = 1\<rparr>" by (simp add: spec_feed_def)
  with w1 w2 ticket_timeout [OF w1(1)] ticket_timeout [OF w2(1)] show ?thesis by (simp add: wd_init_def)
qed

end

text \<open>What \<open>Storage::init\<close> leaves of an entry, and what the systems then start with.\<close>

definition kept_entry :: "profile \<Rightarrow> ('f, 'se) seq_storage \<Rightarrow> (flash_range \<Rightarrow> 'f \<Rightarrow> u8 list \<Rightarrow> u8 list option) \<Rightarrow>
    partition_entry \<Rightarrow> unit postcard \<Rightarrow> 'v storage_entry \<Rightarrow> 'f \<Rightarrow> 'v option" where
  "kept_entry p ss items part mpc ent f =
     (case storage_fetch p ss part (marker_entry mpc) f of
        (Ok (Some _), _) \<Rightarrow> stored_entry items p part ent f
      | _ \<Rightarrow> None)"

lemma scan_keeps: "scan_partitions table found f = (r, f') \<Longrightarrow> f' = f"
  by (induction table found rule: scan_partitions.induct) (auto simp: ret_def panic_def split: if_splits)

lemma storage_init_keeps:
  assumes "seq_map ss items" "postcard_codec mpc" "postcard_codec (entry_pc ent)" "entry_key ent \<noteq> KMarker"
    and "(storage_init p ss mpc table :: ('f, unit, partition_entry) act) f = (Ok part, f')"
  shows "stored_entry items p part ent f' = kept_entry p ss items part mpc ent f"
proof -
  from assms(5) have "ensure_initialized p ss part mpc f = (Ok (), f')"
    by (auto simp: storage_init_def act_Ok_iff dest: scan_keeps)
  from ensure_initialized_entries [OF assms(1-3) this assms(4)] show ?thesis
    by (auto simp: kept_entry_def split: prod.splits outcome.splits option.splits if_splits)
qed

lemma settings_record_entries:
  "entry_key (settings_entry pc) = KConfigSettings" "entry_pc (settings_entry pc) = pc"
  "entry_key (record_entry pc') = KRecordData" "entry_pc (record_entry pc') = pc'"
  by (simp_all add: settings_entry_def record_entry_def)

text \<open>The parts of the start, each on its part of the device.\<close>

lemma config_init_fetched:
  assumes "storage_fetch p ss part (settings_entry pc) f = (Ok v, f')"
  shows "(config_init p ss part pc ps :: ('f, unit, ('f, 'g) config) act) f =
    (Ok \<lparr>cfg_settings = (case v of Some x \<Rightarrow> x | None \<Rightarrow> settings_default), cfg_flash = f', cfg_notifier = ps_new ps\<rparr>, f')"
  using assms by (simp add: config_init_def bindA_def unwrapA_def readA_def ret_def)

lemma record_init_fetched:
  assumes "storage_fetch p ss part (record_entry pc) f = (Ok v, f')"
  shows "(record_init p ss part pc ch ps :: ('f, unit, ('f, 'c, 'r) record_sys) act) f =
    (Ok \<lparr>rec_data = (case v of Some x \<Rightarrow> x | None \<Rightarrow> record_data_default), rec_sync_at = None, rec_flash = f',
       rec_sync_notifier = ch_new ch, rec_data_notifier = ps_new ps\<rparr>, f')"
  using assms by (simp add: record_init_def bindA_def unwrapA_def readA_def ret_def)

text \<open>C6: The start of the application.  When the controller answers within the boot timeout and the flash
  can be read, \<open>app\<close> reaches its loop: the controller is provisioned and the memory locked again; the
  network and the application hold tickets 1 and 0 of a watchdog of 30 s that has been fed once and now
  waits for the application's own ticket; and the systems start with the settings and the counters that
  were stored if the partition held the marker, and with the default ones if it did not.\<close>

theorem app_starts:
  fixes d :: "('m, 'b, 'f) device" and via :: "('c, 'r, 'o, 'q, 'g) app_channels"
  assumes "usbpd_device dd i2c chip garbled latency polls bf booting written"
    and "booting (usb_i2c (dev_usb d)) < boot" "\<forall>i < 5. length (sectors (chip (usb_i2c (dev_usb d))) i) = 8"
    and "bitarray ba bits 16" "seq_map ss items"
    and "postcard_codec (pc_marker codecs)" "postcard_codec (pc_settings codecs)" "postcard_codec (pc_record codecs)"
    and "(storage_init p ss (pc_marker codecs) table :: ('f, unit, partition_entry) act) (dev_flash d) = (Ok part, f1)"
    and "storage_fetch p ss part (settings_entry (pc_settings codecs)) f1 = (Ok v, f2)"
    and "storage_fetch p ss part (record_entry (pc_record codecs)) f2 = (Ok r, f3)"
  shows "\<exists>sys d'. app_start p ba i2c dd bf boot polls ss codecs table via stack d = (Ok sys, d')
    \<and> app_ticket sys = 0 \<and> app_net_ticket sys = 1
    \<and> net_wd bits (net_others (app_net sys)) = \<lparr>tickets = 2, seen = {1}, feeds = 1\<rparr>
    \<and> peri_timeout (nw_watchdog (net_others (app_net sys))) = 30
    \<and> map (sectors (chip (usb_i2c (dev_usb d')))) [0..<5] = NVM_DATA \<and> password (chip (usb_i2c (dev_usb d'))) = 0
    \<and> net_cfg (net_others (app_net sys)) =
        (case kept_entry p ss items part (pc_marker codecs) (settings_entry (pc_settings codecs)) (dev_flash d) of
           Some x \<Rightarrow> x | None \<Rightarrow> settings_default)
    \<and> rec_data (app_record sys) =
        (case kept_entry p ss items part (pc_marker codecs) (record_entry (pc_record codecs)) (dev_flash d) of
           Some x \<Rightarrow> x | None \<Rightarrow> record_data_default)"
proof -
  from bitarray.two_tickets [OF assms(4)] obtain w1 w2 where
    w: "(wd_ticket ba :: ('m wd_inner, unit, nat) act) (wd_init ba) = (Ok 0, w1)"
      "(wd_ticket ba :: ('m wd_inner, unit, nat) act) w1 = (Ok 1, w2)"
    and abs: "wd_abs bits w2 = \<lparr>tickets = 2, seen = {1}, feeds = 1\<rparr>" "peri_timeout w2 = WATCHDOG_DURATION_SECS"
    by auto
  from usbpd_device.init [OF assms(1-3)] obtain u where
    u: "usbpd_init i2c dd bf boot polls (dev_usb d) = (Ok (), u)"
      "map (sectors (chip (usb_i2c u))) [0..<5] = NVM_DATA" "password (chip (usb_i2c u)) = 0" by blast
  let ?s = "settings_entry (pc_settings codecs)" and ?r = "record_entry (pc_record codecs)"
  have entries: "seq_storage_entry ss items ?s" "seq_storage_entry ss items ?r"
    using assms(5,7,8) by (auto intro: seq_storage_entryI simp: settings_record_entries)
  note kept = storage_init_keeps [OF assms(5,6) _ _ assms(9)]
  have v: "v = kept_entry p ss items part (pc_marker codecs) ?s (dev_flash d)"
    using seq_storage_entry.fetch_spec(1) [OF entries(1) assms(10)] kept [of ?s] assms(7)
    by (simp add: settings_record_entries)
  have "stored_entry items p part ?r f2 = stored_entry items p part ?r f1"
    using seq_storage_entry.fetch_spec(2) [OF entries(1) assms(10)]
    by (cases "part_range p part") (simp_all add: stored_entry_def)
  with seq_storage_entry.fetch_spec(1) [OF entries(2) assms(11)] kept [of ?r] assms(8)
  have r: "r = kept_entry p ss items part (pc_marker codecs) ?r (dev_flash d)"
    by (simp add: settings_record_entries)
  note run = assms(9) config_init_fetched [OF assms(10)] record_init_fetched [OF assms(11)] w u(1)
  show ?thesis
    using u(2,3) abs
    by (simp add: app_start_def bindA_def zoom_def modifyA_def readA_def ret_def run net_init_def net_peers_of_def
        net_wd_def net_cfg_def v [symmetric] r [symmetric] WATCHDOG_DURATION_SECS_def)
qed

section \<open>The feeds of a run\<close>

context net_system
begin

lemma turn_feeds:
  assumes "mqtt_turn ch nt peers from_slice ticket s = (Ok go, s')" "ok ticket (net_others s)"
  shows "wd (net_others s') = spec_feed ticket (wd (net_others s)) \<and> (ok i (net_others s') \<longleftrightarrow> ok i (net_others s))"
proof -
  from turn_run [OF assms] obtain w where
    w: "wd w = spec_feed ticket (wd (net_others s))" "ok i w \<longleftrightarrow> ok i (net_others s)" and branch:
      "case ch_receive ch (net_outgoing s) of
         Some (m, c) \<Rightarrow> mqtt_outgoing nt m (s\<lparr>net_others := w, net_outgoing := c\<rparr>) = (Ok go, s')
       | None \<Rightarrow> mqtt_incoming nt peers from_slice (s\<lparr>net_others := w\<rparr>) = (Ok go, s')" by blast
  show ?thesis
  proof (cases "ch_receive ch (net_outgoing s)")
    case None
    with branch have "mqtt_incoming nt peers from_slice (s\<lparr>net_others := w\<rparr>) = (Ok go, s')" by simp
    from incoming_run [OF this, of i] w show ?thesis by auto
  next
    case (Some mc)
    with branch obtain m c where "mqtt_outgoing nt m (s\<lparr>net_others := w, net_outgoing := c\<rparr>) = (Ok go, s')"
      by (cases mc) auto
    from outgoing_run [OF this] w show ?thesis by auto
  qed
qed

end

text \<open>The tickets that a run feeds, in their order.\<close>

fun fed :: "nat \<Rightarrow> nat \<Rightarrow> app_step list \<Rightarrow> nat list" where
  "fed a n [] = []"
| "fed a n (AppTurn # steps) = a # fed a n steps"
| "fed a n (NetStep NxTurn # steps) = n # fed a n steps"
| "fed a n (NetStep (NxSend m) # steps) = fed a n steps"

lemma set_fed: "set (fed a n steps) =
    (if AppTurn \<in> set steps then {a} else {}) \<union> (if NetStep NxTurn \<in> set steps then {n} else {})"
  by (induction a n steps rule: fed.induct) auto

lemma app_turn_feeds:
  fixes s :: "('o, 'q, 'k, ('f, 'g, 'm) net_world) net"
  assumes "bitarray ba bits 16" "app_turn ba tm after ticket s = (Ok (), s')" "net_ok ticket (net_others s)"
  shows "net_wd bits (net_others s') = spec_feed ticket (net_wd bits (net_others s))
    \<and> (net_ok i (net_others s') \<longleftrightarrow> net_ok i (net_others s))"
proof -
  from assms(3) have "ticket < 16" "count (nw_watchdog (net_others s)) \<le> 16" by (auto simp: net_ok_def)
  from bitarray.feed_refines [OF assms(1) this] obtain w where
    "(wd_feed ba ticket :: ('m wd_inner, unit, unit) act) (nw_watchdog (net_others s)) = (Ok (), w)"
    "wd_abs bits w = spec_feed ticket (wd_abs bits (nw_watchdog (net_others s)))"
    "count w = count (nw_watchdog (net_others s))" by blast
  with assms(2) show ?thesis
    by (auto simp: app_turn_def act_Ok_iff wd_ticket_feed_def net_wd_def net_ok_def)
qed

lemma run_feeds:
  fixes s :: "('o, 'q, 'k, ('f, 'g, 'm) net_world) net"
  assumes "bitarray ba bits 16" "net_system peers net_cfg (net_wd bits) net_ok"
    and "forA (app_step_run ba tm after a (net_step_run ch nt peers from_slice n)) steps s = (Ok (), s')"
    and "net_ok a (net_others s)" "net_ok n (net_others s)"
  shows "net_wd bits (net_others s') = fold spec_feed (fed a n steps) (net_wd bits (net_others s))"
  using assms(3-)
proof (induction steps arbitrary: s)
  case (Cons step steps)
  let ?run = "app_step_run ba tm after a (net_step_run ch nt peers from_slice n)"
  from Cons.prems(1) obtain t where t: "?run step s = (Ok (), t)" "forA ?run steps t = (Ok (), s')"
    by (auto simp: bindA_Ok_iff)
  have "net_wd bits (net_others t) = fold spec_feed (fed a n [step]) (net_wd bits (net_others s))
    \<and> (\<forall>i. net_ok i (net_others t) \<longleftrightarrow> net_ok i (net_others s))"
  proof (cases "(a, n, [step])" rule: fed.cases)
    case 2
    with t(1) app_turn_feeds [OF assms(1) _ Cons.prems(2)] show ?thesis by auto
  next
    case 3
    with t(1) obtain go where "mqtt_turn ch nt peers from_slice n s = (Ok go, t)" by (auto simp: bindA_Ok_iff)
    from net_system.turn_feeds [OF assms(2) this Cons.prems(3)] 3 show ?thesis by auto
  next
    case (4 a n m)
    with t(1) have "net_others t = net_others s" by (auto simp: net_send_def zoom_Ok_iff)
    with 4 show ?thesis by simp
  qed simp
  moreover have "fed a n (step # steps) = fed a n [step] @ fed a n steps"
    by (cases "(a, n, step # steps)" rule: fed.cases) simp_all
  ultimately show ?case using Cons.IH [OF t(2)] Cons.prems(2,3) by simp
qed simp

section \<open>Properties of the loop\<close>

text \<open>C19: Two tasks keep the device alive.  Whatever the order in which the loop of \<open>app\<close>, the turns of the
  connected client and the sends of other tasks run after the start: when both tasks take a turn the
  hardware watchdog is fed, and when one of the two takes none it is fed at most once more, however
  often the other one runs.\<close>

theorem app_and_client_feed_watchdog:
  fixes s :: "('o, 'q, 'k, ('f, 'g, 'm) net_world) net"
  assumes "config_system p ss part pc stored ps history publishers backlog" "bitarray ba bits 16"
    and "forA (app_step_run ba tm after 0
        (net_step_run ch nt (net_peers_of p ss part pc ps ba) from_slice 1)) steps s = (Ok (), s')"
    and "tickets (net_wd bits (net_others s)) = 2" "\<not> {..<2} \<subseteq> seen (net_wd bits (net_others s))"
  shows "if AppTurn \<in> set steps \<and> NetStep NxTurn \<in> set steps
    then peri_feeds (nw_watchdog (net_others s)) < peri_feeds (nw_watchdog (net_others s'))
    else peri_feeds (nw_watchdog (net_others s')) \<le> Suc (peri_feeds (nw_watchdog (net_others s)))"
proof -
  let ?w = "net_wd bits (net_others s)" and ?is = "fed 0 1 steps"
  have feeds: "feeds (net_wd bits w) = peri_feeds (nw_watchdog w)" for w :: "('f, 'g, 'm) net_world"
    by (simp add: net_wd_def wd_abs_def)
  have ok: "net_ok 0 (net_others s)" "net_ok 1 (net_others s)"
    using assms(4) by (simp_all add: net_ok_def net_wd_def wd_abs_def)
  from run_feeds [OF assms(2) net_systemI [OF assms(1,2)] assms(3) ok]
  have wds: "net_wd bits (net_others s') = fold spec_feed ?is ?w" .
  show ?thesis
  proof (cases "AppTurn \<in> set steps \<and> NetStep NxTurn \<in> set steps")
    case True
    then have "{..<tickets ?w} \<subseteq> set ?is" using assms(4) by (auto simp: set_fed)
    with all_fed_feeds [of ?w ?is] assms(4,5) have "feeds ?w < feeds (fold spec_feed ?is ?w)"
      by (simp add: some_missing_def)
    with True show ?thesis unfolding wds [symmetric] feeds by simp
  next
    case False
    have bound: "feeds (fold spec_feed ?is ?w) \<le> Suc (feeds ?w)" if "j < 2" "j \<notin> set ?is" for j
      using starved_one_feed [of j ?w ?is] that assms(4) by (auto split: if_splits)
    have "0 \<notin> set ?is \<or> 1 \<notin> set ?is" using False by (auto simp: set_fed simp del: One_nat_def)
    then have "feeds (fold spec_feed ?is ?w) \<le> Suc (feeds ?w)" using bound [of 0] bound [of 1] by linarith
    with False show ?thesis unfolding wds [symmetric] feeds by auto
  qed
qed

section \<open>A device\<close>

text \<open>
  A flash that holds the marker and settings, a table with one partition, a controller that boots within
  two reads, and a network that is idle.
\<close>

definition kept_settings :: settings where
  "kept_settings = settings_default\<lparr>backoff_ms := 250\<rparr>"

definition kept_flash :: ref_flash where
  "kept_flash = (\<lambda>_. [[1] \<mapsto> [], [3] \<mapsto> le_bytes (mv_of (vout_mv kept_settings))
     @ le_bytes (ma_of (iout_ma kept_settings)) @ le_bytes (backoff_ms kept_settings)])"

definition ref_codecs :: app_codecs where
  "ref_codecs = \<lparr>pc_marker = unit_pc, pc_settings = ref_settings_pc, pc_record = ref_record_pc\<rparr>"

definition ref_channels :: "(unit list, record_data list \<times> nat \<times> nat, message list, net_event list \<times> nat \<times> nat,
    settings list \<times> nat \<times> nat) app_channels" where
  "ref_channels = \<lparr>via_settings = ref_ps, via_sync = ref_ch NOTIFY_CAP, via_record = ref_ps,
     via_messages = ref_ch 1, via_events = ref_ps\<rparr>"

definition ref_device :: "(u16, sim_pd, ref_flash) device" where
  "ref_device = \<lparr>dev_watchdog = wd_init ref_ba, dev_usb = \<lparr>reset_pin = True, usb_i2c = sim_pd_blank 2\<rparr>,
     dev_flash = kept_flash\<rparr>"

lemma ref_fetch:
  "storage_fetch Release ref_ss ref_nvs ent f = (case f (0x9000, 0xF000) [key_code (entry_key ent)] of
     None \<Rightarrow> (Ok None, f)
   | Some bs \<Rightarrow> (case pc_from_bytes (entry_pc ent) bs of
       None \<Rightarrow> (Err (Flash InvalidData), f) | Some v \<Rightarrow> (Ok (Some v), f)))"
  by (simp add: storage_fetch_def part_range_def ref_nvs_def bindA_def map_errA_def liftR_def ret_def fail_def
      ref_ss_def key_serialized value_deserialize_from_def split: option.split del: key_serialize_into.simps)

lemma ref_device_reads:
  "(storage_init Release ref_ss unit_pc [Inr ref_nvs :: unit + partition_entry] ::
      (ref_flash, unit, partition_entry) act) kept_flash = (Ok ref_nvs, kept_flash)"
  "storage_fetch Release ref_ss ref_nvs (settings_entry ref_settings_pc) kept_flash = (Ok (Some kept_settings), kept_flash)"
  "storage_fetch Release ref_ss ref_nvs (record_entry ref_record_pc) kept_flash = (Ok None, kept_flash)"
  "storage_fetch Release ref_ss ref_nvs (marker_entry unit_pc) kept_flash = (Ok (Some ()), kept_flash)"
proof -
  show marker: "storage_fetch Release ref_ss ref_nvs (marker_entry unit_pc) kept_flash = (Ok (Some ()), kept_flash)"
    by (simp add: ref_fetch kept_flash_def marker_entry_def unit_pc_def)
  have "part_type ref_nvs = DataNvs" by (simp add: ref_nvs_def)
  then show "(storage_init Release ref_ss unit_pc [Inr ref_nvs :: unit + partition_entry] ::
      (ref_flash, unit, partition_entry) act) kept_flash = (Ok ref_nvs, kept_flash)"
    by (simp add: storage_init_def bindA_def ret_def unwrapA_def ensure_initialized_def Let_def marker)
  show "storage_fetch Release ref_ss ref_nvs (settings_entry ref_settings_pc) kept_flash = (Ok (Some kept_settings), kept_flash)"
    by (simp add: ref_fetch kept_flash_def settings_record_entries ref_settings_pc_def le_word_bytes)
  show "storage_fetch Release ref_ss ref_nvs (record_entry ref_record_pc) kept_flash = (Ok None, kept_flash)"
    by (simp add: ref_fetch kept_flash_def settings_record_entries)
qed

theorem app_starts_witness:
  "\<exists>sys d'. app_start Release ref_ba sim_pd_i2c ref_dd ref_bf 100 4 ref_ss ref_codecs
      [Inr ref_nvs :: unit + partition_entry] ref_channels sim_idle ref_device = (Ok sys, d')
    \<and> net_cfg (net_others (app_net sys)) = kept_settings \<and> rec_data (app_record sys) = record_data_default
    \<and> map (sectors (pd_chip (usb_i2c (dev_usb d')))) [0..<5] = NVM_DATA"
proof -
  have kept: "kept_entry Release ref_ss (\<lambda>rng f. f rng) ref_nvs unit_pc (settings_entry ref_settings_pc) kept_flash = Some kept_settings"
    "kept_entry Release ref_ss (\<lambda>rng f. f rng) ref_nvs unit_pc (record_entry ref_record_pc) kept_flash = None"
    using ref_settings.fetch_spec(1) [OF ref_device_reads(2)] ref_record_entry.fetch_spec(1) [OF ref_device_reads(3)]
    by (simp_all add: kept_entry_def ref_device_reads(4))
  have chip: "pd_booting (usb_i2c (dev_usb ref_device)) < 100"
    "\<forall>i < 5. length (sectors (pd_chip (usb_i2c (dev_usb ref_device))) i) = 8"
    by (simp_all add: ref_device_def sim_pd_blank_def sim_blank_def)
  have "dev_flash ref_device = kept_flash" by (simp add: ref_device_def)
  with app_starts [OF sim_pd.usbpd_device_axioms chip rba.bitarray_axioms rss.seq_map_axioms,
      of ref_codecs Release "[Inr ref_nvs :: unit + partition_entry]" ref_nvs kept_flash "Some kept_settings" kept_flash None
        kept_flash ref_channels sim_idle]
  show ?thesis
    by (simp add: ref_codecs_def ref_device_reads kept unit_pc.postcard_codec_axioms ref_settings_pc.postcard_codec_axioms
        ref_record_pc.postcard_codec_axioms) blast
qed

text \<open>Two turns of the loop with a turn of the client between them, which answers a message.\<close>

definition sim_app :: "ref_net" where
  "sim_app = (sim_start sim_flaky)\<lparr>net_outgoing := [sample 1],
     net_others := ref_net_world\<lparr>nw_watchdog := \<lparr>peri_timeout = 30, peri_feeds = 1, mask = 2, count = 2\<rparr>\<rparr>\<rparr>"

abbreviation sim_after_secs :: "duration \<Rightarrow> (sim_net, unit, unit) act" where
  "sim_after_secs \<equiv> (\<lambda>d. ret ())"

abbreviation sim_app_run :: "app_step list \<Rightarrow> (ref_net, unit, unit) act" where
  "sim_app_run \<equiv> forA (app_step_run ref_ba ref_tm sim_after_secs 0
     (net_step_run (ref_ch 1) sim_nt ref_net_peers ref_from_slice 1))"

lemma sim_app_runs:
  "\<exists>s'. sim_app_run [AppTurn, NetStep NxTurn, AppTurn] sim_app = (Ok (), s')"
proof -
  have bits: "set_bit 0 (2 :: u16) = 3" "set_bit 1 (0 :: u16) = 2" "set_bit 0 (2 :: u16) = 3" "bit (3 :: u16) 0" "bit (3 :: u16) 1"
    by (simp_all add: set_bit_eq)
  show ?thesis
    by (simp add: app_turn_def sim_app_def sim_start_def ref_net_world_def zoom_def bindA_def wd_ticket_feed_def
        wd_feed_def ref_ba_def Let_def bits numeral_2_eq_2 sim_flaky_def sim_idle_def mqtt_turn_def net_peers_of_def
        ref_ch_def mqtt_outgoing_def tryA_def send_message_qos1_def sim_nt_def eval_nat_numeral net_log_def modifyA_def
        ret_def)
qed

theorem app_and_client_feed_watchdog_witness:
  "\<exists>s'. sim_app_run [AppTurn, NetStep NxTurn, AppTurn] sim_app = (Ok (), s')
    \<and> 1 < peri_feeds (nw_watchdog (net_others s'))"
proof -
  from sim_app_runs obtain s' where run: "sim_app_run [AppTurn, NetStep NxTurn, AppTurn] sim_app = (Ok (), s')" by blast
  have start: "tickets (net_wd ref_bits (net_others sim_app)) = 2" "0 \<notin> seen (net_wd ref_bits (net_others sim_app))"
    "peri_feeds (nw_watchdog (net_others sim_app)) = 1"
    by (simp_all add: sim_app_def net_wd_def wd_abs_def)
  then have "\<not> {..<2} \<subseteq> seen (net_wd ref_bits (net_others sim_app))"
    using subsetD [of "{..<2}" "seen (net_wd ref_bits (net_others sim_app))" 0] by auto
  with app_and_client_feed_watchdog [OF ref_config.config_system_axioms rba.bitarray_axioms run] start run
  show ?thesis by auto
qed

end
