(* ===== verification/Logger.thy ===== *)
theory Logger
  imports Units "HOL-Library.Sublist"
begin

text \<open>
  \<open>logger.rs\<close>: the level and the targets chosen at build time, and the line that is printed for a
  record; \<open>serialnumber.rs\<close>, the text of the serial number; and what \<open>app\<close> of \<open>main.rs\<close> prints before it
  starts the board.  The level names of the log crate and the hexadecimal encoding of the hex crate are
  parameters.
\<close>

section \<open>The level\<close>

datatype level = LevelError | LevelWarn | LevelInfo | LevelDebug | LevelTrace

text \<open>The filter \<open>Off\<close> is \<open>None\<close>.\<close>

type_synonym level_filter = "level option"

definition init_level :: "(string \<Rightarrow> level_filter option) \<Rightarrow> string option \<Rightarrow> level_filter" where
  "init_level from_str lvl =
     (case lvl of
        Some l \<Rightarrow> (case from_str l of Some f \<Rightarrow> f | None \<Rightarrow> None)
      | None \<Rightarrow> Some LevelInfo)"

text \<open>
  The log crate keeps the logger, which can be set once, and the maximal level.  Its macros hand a record to
  the logger when its level is not above the maximal one.
\<close>

record log_state =
  ls_logger_set :: bool
  ls_max_level :: level_filter

definition init_logger_from_env :: "(string \<Rightarrow> level_filter option) \<Rightarrow> string option \<Rightarrow> (log_state, 'e, unit) act" where
  "init_logger_from_env from_str lvl =
     bindA (readA ls_logger_set) (\<lambda>set.
       if set then panic
       else modifyA (\<lambda>s. s\<lparr>ls_logger_set := True, ls_max_level := init_level from_str lvl\<rparr>))"

fun verbosity :: "level \<Rightarrow> nat" where
  "verbosity LevelError = 1"
| "verbosity LevelWarn = 2"
| "verbosity LevelInfo = 3"
| "verbosity LevelDebug = 4"
| "verbosity LevelTrace = 5"

definition level_allowed :: "level_filter \<Rightarrow> level \<Rightarrow> bool" where
  "level_allowed maximal level = (case maximal of Some m \<Rightarrow> verbosity level \<le> verbosity m | None \<Rightarrow> False)"

text \<open>\<open>EspLogger\<close> takes every record, and has nothing to flush.\<close>

definition logger_enabled :: "'m \<Rightarrow> bool" where
  "logger_enabled metadata = True"

definition logger_flush :: "('s, 'e, unit) act" where
  "logger_flush = ret ()"

section \<open>The targets\<close>

text \<open>\<open>str::split\<close> on one character: the parts between its occurrences, one at least.\<close>

fun split_on :: "char \<Rightarrow> string \<Rightarrow> string list" where
  "split_on c [] = [[]]"
| "split_on c (x # xs) =
     (if x = c then [] # split_on c xs
      else (case split_on c xs of [] \<Rightarrow> [[x]] | p # ps \<Rightarrow> (x # p) # ps))"

definition log_wanted :: "string option \<Rightarrow> string \<Rightarrow> bool" where
  "log_wanted log_targets target =
     (case log_targets of
        Some targets \<Rightarrow> list_ex (\<lambda>v. prefix v target) (split_on (CHR '','') targets)
      | None \<Rightarrow> True)"

section \<open>The line\<close>

definition ESC :: char where "ESC = CHR 0x1B"

definition RESET :: string where "RESET = ESC # ''[0m''"
definition BOLD :: string where "BOLD = ESC # ''[1m''"
definition DIMMED :: string where "DIMMED = ESC # ''[2m''"

fun level_color :: "level \<Rightarrow> string" where
  "level_color LevelError = ESC # ''[31m''"
| "level_color LevelWarn = ESC # ''[33m''"
| "level_color LevelInfo = ESC # ''[32m''"
| "level_color LevelDebug = ESC # ''[34m''"
| "level_color LevelTrace = ESC # ''[35m''"

fun level_name :: "level \<Rightarrow> string" where
  "level_name LevelError = ''ERROR''"
| "level_name LevelWarn = ''WARN''"
| "level_name LevelInfo = ''INFO''"
| "level_name LevelDebug = ''DEBUG''"
| "level_name LevelTrace = ''TRACE''"

text \<open>A number filled up on the left to a width, as by the formats of width 3.\<close>

definition padded :: "char \<Rightarrow> nat \<Rightarrow> nat \<Rightarrow> string" where
  "padded fill width n = (let d = dec_digits n in replicate (width - length d) fill @ d)"

definition log_time :: "nat \<Rightarrow> string" where
  "log_time now_ms = padded (CHR '' '') 3 (now_ms div 1000) @ ''.'' @ padded (CHR ''0'') 3 (now_ms mod 1000)"

definition log_line :: "nat \<Rightarrow> level \<Rightarrow> string \<Rightarrow> string \<Rightarrow> string" where
  "log_line now_ms level target args =
     DIMMED @ log_time now_ms @ '' ['' @ RESET @ level_color level @ level_name level @ RESET @ '' ''
       @ BOLD @ target @ RESET @ DIMMED @ '']'' @ RESET @ '' '' @ args"

definition log_record :: "string option \<Rightarrow> nat \<Rightarrow> level \<Rightarrow> string \<Rightarrow> string \<Rightarrow> string option" where
  "log_record log_targets now_ms level target args =
     (if log_wanted log_targets target then Some (log_line now_ms level target args) else None)"

section \<open>The serial number\<close>

text \<open>\<open>encode_to_slice\<close> fails when the buffer does not have twice the length of the data.\<close>

type_synonym hex_encoder = "u8 list \<Rightarrow> nat \<Rightarrow> string option"

locale hex_crate =
  fixes encode :: hex_encoder and digits :: "u8 \<Rightarrow> string"
  assumes encodes: "encode bs (2 * length bs) = Some (concat (map digits bs))"
    and two_digits: "length (digits b) = 2"
    and digits_inj: "digits a = digits b \<Longrightarrow> a = b"

definition serial_number_fmt :: "hex_encoder \<Rightarrow> u8 list \<Rightarrow> string option" where
  "serial_number_fmt encode mac = encode mac (6 * 2)"

section \<open>The first lines\<close>

text \<open>
  What has been printed, and the log crate.  The texts of the reset reason and of the wake-up cause are those
  of esp-hal; each record is made at a time of its own.
\<close>

record console =
  con_log :: log_state
  con_lines :: "string list"

definition println :: "string \<Rightarrow> (console, 'e, unit) act" where
  "println line = modifyA (\<lambda>c. c\<lparr>con_lines := con_lines c @ [line]\<rparr>)"

definition log_info :: "string option \<Rightarrow> nat \<Rightarrow> string \<Rightarrow> string \<Rightarrow> (console, 'e, unit) act" where
  "log_info log_targets now_ms target args = (\<lambda>c.
     if ls_logger_set (con_log c) \<and> level_allowed (ls_max_level (con_log c)) LevelInfo
     then (case log_record log_targets now_ms LevelInfo target args of
             Some line \<Rightarrow> println line c
           | None \<Rightarrow> ret () c)
     else ret () c)"

definition app_prologue :: "(string \<Rightarrow> level_filter option) \<Rightarrow> string option \<Rightarrow> string option \<Rightarrow> hex_encoder \<Rightarrow>
    u8 list \<Rightarrow> string \<Rightarrow> string \<Rightarrow> (nat \<Rightarrow> nat) \<Rightarrow> (console, 'e, unit) act" where
  "app_prologue from_str lvl log_targets encode mac reset_reason wakeup_cause now =
     seqA (println ''=== SARIF Slakkotron application ==='') (
     seqA (zoom con_log (\<lambda>l c. c\<lparr>con_log := l\<rparr>) (init_logger_from_env from_str lvl)) (
     bindA (unwrapO (serial_number_fmt encode mac)) (\<lambda>serial.
     seqA (log_info log_targets (now 0) ''slakkotron'' (''Serial: '' @ serial)) (
     seqA (log_info log_targets (now 1) ''slakkotron'' (''Reset reason: '' @ reset_reason))
          (log_info log_targets (now 2) ''slakkotron'' (''Wakeup cause: '' @ wakeup_cause))))))"

context hex_crate
begin

text \<open>The text of an address of six bytes is never missing, and tells the address.\<close>

lemma serial_text:
  assumes "length mac = 6"
  shows "serial_number_fmt encode mac = Some (concat (map digits mac))"
  using encodes [of mac] assms by (simp add: serial_number_fmt_def)

lemma concat_digits_inj: "length as = length bs \<Longrightarrow> concat (map digits as) = concat (map digits bs) \<Longrightarrow> as = bs"
  by (induction as bs rule: list_induct2) (auto simp: two_digits dest: digits_inj)

lemma serial_inj:
  "length a = 6 \<Longrightarrow> length b = 6 \<Longrightarrow> serial_number_fmt encode a = serial_number_fmt encode b \<Longrightarrow> a = b"
  using serial_text [of a] serial_text [of b] by (simp add: concat_digits_inj)

end

definition hex_digit :: "u8 \<Rightarrow> char" where
  "hex_digit d = char_of (if unat d < 10 then 48 + unat d else 87 + unat d)"

definition ref_digits :: "u8 \<Rightarrow> string" where
  "ref_digits b = [hex_digit (b div 16), hex_digit (b mod 16)]"

definition ref_hex :: hex_encoder where
  "ref_hex bs n = (if n = 2 * length bs then Some (concat (map ref_digits bs)) else None)"

lemma hex_digit_inj:
  assumes "hex_digit a = hex_digit b" "unat a < 16" "unat b < 16"
  shows "a = b"
proof -
  have "of_char (hex_digit x) = (if unat x < 10 then 48 + unat x else 87 + unat x)" if "unat x < 16" for x
    using that by (simp add: hex_digit_def of_char_of)
  with assms have "(if unat a < 10 then 48 + unat a else 87 + unat a) = (if unat b < 10 then 48 + unat b else 87 + unat b)"
    by metis
  then have "unat a = unat b" using assms(2,3) by (auto split: if_splits)
  then show ?thesis by (rule unsigned_word_eqI)
qed

lemma ref_digits_inj:
  assumes "ref_digits a = ref_digits b"
  shows "a = b"
proof -
  have small: "unat (x div 16) < 16" "unat (x mod 16) < 16" for x :: u8
    using unat_u8_bound [of x] by (simp_all add: unat_div unat_mod)
  from assms hex_digit_inj small have "a div 16 = b div 16" "a mod 16 = b mod 16"
    by (auto simp: ref_digits_def)
  then show ?thesis by (metis div_mult_mod_eq)
qed

interpretation rhex: hex_crate ref_hex ref_digits
  by unfold_locales (auto simp: ref_hex_def ref_digits_inj intro: ref_digits_inj, simp add: ref_digits_def)

section \<open>Splitting and the time\<close>

fun join_with :: "char \<Rightarrow> string list \<Rightarrow> string" where
  "join_with c [] = []"
| "join_with c [p] = p"
| "join_with c (p # ps) = p @ c # join_with c ps"

lemma split_on_nonempty: "split_on c s \<noteq> []"
  by (induction s) (auto split: list.splits)

lemma join_split: "join_with c (split_on c s) = s"
proof (induction s)
  case (Cons x xs)
  obtain p ps where s: "split_on c xs = p # ps" using split_on_nonempty by (cases "split_on c xs") auto
  with Cons show ?case by (cases ps) auto
qed simp

lemma split_parts: "p \<in> set (split_on c s) \<Longrightarrow> c \<notin> set p"
proof (induction s arbitrary: p)
  case (Cons x xs)
  obtain q qs where s: "split_on c xs = q # qs" using split_on_nonempty by (cases "split_on c xs") auto
  with Cons show ?case by (auto split: if_splits)
qed simp

text \<open>A list of targets is split into its members again.\<close>

lemma split_on_free: "c \<notin> set p \<Longrightarrow> split_on c p = [p]"
  by (induction p) auto

lemma split_on_append: "c \<notin> set p \<Longrightarrow> split_on c (p @ c # s) = p # split_on c s"
  by (induction p) auto

lemma split_join: "ps \<noteq> [] \<Longrightarrow> \<forall>p \<in> set ps. c \<notin> set p \<Longrightarrow> split_on c (join_with c ps) = ps"
  by (induction c ps rule: join_with.induct) (simp_all add: split_on_free split_on_append)

lemma log_time_millis: "\<exists>s. log_time ms = s @ ''.'' @ padded (CHR ''0'') 3 (ms mod 1000)"
  by (simp add: log_time_def)

lemma padded_length:
  assumes "n < 10 ^ width" "0 < width"
  shows "length (padded fill width n) = width"
  using length_dec_digits [OF assms] by (simp add: padded_def Let_def)

section \<open>Properties\<close>

text \<open>Which records are printed.  Without a list of targets all are; with one, exactly those whose target
  begins with one of its members, so that an empty list or a comma too many admits every record.  What
  is printed ends with the text of the record, behind the milliseconds on three digits.\<close>

theorem log_record_selects:
  assumes "ps \<noteq> []" "\<forall>p \<in> set ps. CHR '','' \<notin> set p"
  shows "log_record None now_ms level target args = Some (log_line now_ms level target args)
    \<and> log_record (Some (join_with (CHR '','') ps)) now_ms level target args =
        (if \<exists>p \<in> set ps. prefix p target then Some (log_line now_ms level target args) else None)
    \<and> ([] \<in> set ps \<longrightarrow> log_record (Some (join_with (CHR '','') ps)) now_ms level target args \<noteq> None)
    \<and> log_record (Some []) now_ms level target args \<noteq> None
    \<and> suffix args (log_line now_ms level target args)
    \<and> length (padded (CHR ''0'') 3 (now_ms mod 1000)) = 3"
proof -
  have wanted: "log_wanted (Some (join_with (CHR '','') ps)) target = (\<exists>p \<in> set ps. prefix p target)"
    by (simp add: log_wanted_def split_join [OF assms] list_ex_iff)
  have "suffix args (log_line now_ms level target args)"
    unfolding log_line_def append_assoc [symmetric] by (rule suffixI) simp
  moreover have "length (padded (CHR ''0'') 3 (now_ms mod 1000)) = 3" by (rule padded_length) simp_all
  ultimately show ?thesis using wanted by (auto simp: log_record_def log_wanted_def)
qed

theorem log_record_selects_witness:
  "log_record (Some ''fw::systems,esp_wifi'') 61042 LevelWarn ''fw::systems::net'' ''link down''
    = Some (log_line 61042 LevelWarn ''fw::systems::net'' ''link down'')
   \<and> log_record (Some ''fw::systems,esp_wifi'') 61042 LevelWarn ''fw::executors'' ''x'' = None"
  using log_record_selects [of "[''fw::systems'', ''esp_wifi'']" 61042 LevelWarn "''fw::systems::net''" "''link down''"]
    log_record_selects [of "[''fw::systems'', ''esp_wifi'']" 61042 LevelWarn "''fw::executors''" "''x''"]
  by simp

text \<open>What the start prints: the banner always, and the serial number with the two causes unless the level or
  the targets chosen at build time leave them out.  An address has a serial number of twelve digits, so that
  nothing panics, and the logger is set then: a second start of it panics.\<close>

theorem app_prologue_prints:
  fixes con :: console
  assumes "hex_crate encode digits" "length mac = 6" "\<not> ls_logger_set (con_log con)"
  shows "\<exists>con'. (app_prologue from_str lvl targets encode mac reset_reason wakeup_cause now :: (console, unit, unit) act) con = (Ok (), con')
    \<and> con_lines con' = con_lines con @ [''=== SARIF Slakkotron application ==='']
       @ (if level_allowed (init_level from_str lvl) LevelInfo \<and> log_wanted targets ''slakkotron''
          then [log_line (now 0) LevelInfo ''slakkotron'' (''Serial: '' @ concat (map digits mac)),
                log_line (now 1) LevelInfo ''slakkotron'' (''Reset reason: '' @ reset_reason),
                log_line (now 2) LevelInfo ''slakkotron'' (''Wakeup cause: '' @ wakeup_cause)]
          else [])
    \<and> (init_logger_from_env from_str' lvl' :: (log_state, unit, unit) act) (con_log con') = (Panic, con_log con')"
  using assms(3) hex_crate.serial_text [OF assms(1,2)]
  by (simp add: app_prologue_def println_def log_info_def log_record_def init_logger_from_env_def bindA_def modifyA_def readA_def
      zoom_def ret_def panic_def)

theorem app_prologue_prints_witness:
  "\<exists>con'. (app_prologue (\<lambda>_. None) None (Some ''slak'') ref_hex [1, 2, 3, 4, 5, 6] ''None'' ''Undefined'' (\<lambda>n. n) :: (console, unit, unit) act)
      \<lparr>con_log = \<lparr>ls_logger_set = False, ls_max_level = None\<rparr>, con_lines = []\<rparr> = (Ok (), con')
    \<and> length (con_lines con') = 4"
  using app_prologue_prints [OF rhex.hex_crate_axioms, of "[1, 2, 3, 4, 5, 6]"
      "\<lparr>con_log = \<lparr>ls_logger_set = False, ls_max_level = None\<rparr>, con_lines = []\<rparr>" "\<lambda>_. None" None "Some ''slak''" "''None''" "''Undefined''" "\<lambda>n. n" "\<lambda>_. None" None]
  by (auto simp: init_level_def level_allowed_def log_wanted_def)

end
